(* ===== verification/E6_Prelude.thy ===== *)
theory E6_Prelude
  imports Main "HOL-Library.Word"
begin

text \<open>
  The prelude of the development: the machine types of the AVR target (the firmware is
  compiled with \<^verbatim>\<open>-funsigned-char\<close>, so a C \<^verbatim>\<open>char\<close> is an unsigned byte here), ASCII
  codes as bytes, generic facts on words and lists that several components use, the
  collections of simplification rules, and the generic interface of a state machine with an
  invariant.
\<close>

unbundle bit_operations_syntax

subsection \<open>Machine types\<close>

type_synonym u8 = "8 word"
type_synonym u16 = "16 word"
type_synonym u32 = "32 word"

text \<open>An address of the C heap; \<open>0\<close> is the null pointer.\<close>

type_synonym addr = nat

abbreviation (input) NULL :: addr where
  "NULL \<equiv> 0"

text \<open>ASCII codes, as the bytes of a C string.\<close>

abbreviation (input) ch_nul :: u8 where "ch_nul \<equiv> 0"
abbreviation (input) ch_nl :: u8 where "ch_nl \<equiv> 10"
abbreviation (input) ch_cr :: u8 where "ch_cr \<equiv> 13"
abbreviation (input) ch_space :: u8 where "ch_space \<equiv> 32"
abbreviation (input) ch_dollar :: u8 where "ch_dollar \<equiv> 36"
abbreviation (input) ch_minus :: u8 where "ch_minus \<equiv> 45"
abbreviation (input) ch_dot :: u8 where "ch_dot \<equiv> 46"
abbreviation (input) ch_slash :: u8 where "ch_slash \<equiv> 47"
abbreviation (input) ch_0 :: u8 where "ch_0 \<equiv> 48"
abbreviation (input) ch_1 :: u8 where "ch_1 \<equiv> 49"
abbreviation (input) ch_9 :: u8 where "ch_9 \<equiv> 57"
abbreviation (input) ch_eq :: u8 where "ch_eq \<equiv> 61"
abbreviation (input) ch_A :: u8 where "ch_A \<equiv> 65"
abbreviation (input) ch_F :: u8 where "ch_F \<equiv> 70"
abbreviation (input) ch_backslash :: u8 where "ch_backslash \<equiv> 92"
abbreviation (input) ch_a :: u8 where "ch_a \<equiv> 97"
abbreviation (input) ch_f :: u8 where "ch_f \<equiv> 102"

subsection \<open>Rule collections\<close>

named_theorems e6_inv \<open>an operation keeps the invariant of its component\<close>
named_theorems e6_frame \<open>a field an operation does not change\<close>

subsection \<open>Words\<close>

lemma u8_less_256: "unat (x :: u8) < 256"
  using unsigned_less [of x, where ?'a = nat] by simp

lemma u16_less_65536: "unat (x :: u16) < 65536"
  using unsigned_less [of x, where ?'a = nat] by simp

lemma xor_cancel_left: "a XOR (a XOR b) = (b :: 'a::len word)"
  by (simp flip: xor.assoc)

lemma xor_cancel_right: "(b XOR a) XOR a = (b :: 'a::len word)"
  by (simp add: xor.assoc)

lemma xor_eq_iff_left: "a XOR b = a XOR c \<longleftrightarrow> b = (c :: 'a::len word)"
  by (metis xor_cancel_left)

lemma xor_eq_iff_right: "b XOR a = c XOR a \<longleftrightarrow> b = (c :: 'a::len word)"
  by (metis xor_cancel_right)

lemmas word_xor_cancel = xor_cancel_left xor_cancel_right xor_eq_iff_left xor_eq_iff_right

lemma odd_xor_iff: "odd (a XOR b :: 'a::len word) \<longleftrightarrow> (odd a \<noteq> odd b)"
  by (simp add: even_xor_iff)

lemma and_1_word_neq_0_iff: "(a AND 1 :: 'a::len word) \<noteq> 0 \<longleftrightarrow> odd a"
  by (simp add: and_one_eq odd_iff_mod_2_eq_one)

text \<open>A property of all words below a bound, by enumeration.\<close>

lemma word_enum:
  fixes x :: "'a::len word"
  assumes "unat x < n" and "list_all P (map of_nat [0..<n])"
  shows "P x"
proof -
  have "\<forall>i<n. P (of_nat i)"
    using assms(2) by (simp add: list_all_iff)
  then have "P (of_nat (unat x))"
    using assms(1) by blast
  then show ?thesis by simp
qed

lemma less_8_cases: "pos < 8 \<Longrightarrow> pos = 0 \<or> pos = 1 \<or> pos = 2 \<or> pos = 3 \<or> pos = 4 \<or> pos = 5 \<or> pos = 6 \<or> pos = (7::nat)"
  by linarith

lemma u8_eqI: "(\<And>n. n < 8 \<Longrightarrow> bit a n = bit b n) \<Longrightarrow> a = (b :: u8)"
  by (rule bit_word_eqI) simp

lemma bit_u8_high [simp]: "8 \<le> n \<Longrightarrow> \<not> bit (x :: u8) n"
  using bit_imp_le_length [of x n] by auto

lemma unat_and_nibbles:
  "unat (t AND 0x1f :: u8) = unat t mod 32" "unat (t AND 0xf :: u8) = unat t mod 16"
proof -
  have m: "0x1f = (mask 5 :: u8)" "0xf = (mask 4 :: u8)" by (simp_all add: mask_eq_exp_minus_1)
  show "unat (t AND 0x1f :: u8) = unat t mod 32" "unat (t AND 0xf :: u8) = unat t mod 16"
    unfolding m by (simp_all only: unsigned_take_bit_eq flip: take_bit_eq_mask) (simp_all add: take_bit_eq_mod)
qed

lemma low_five: "unat (t AND 0x1f :: u8) = (if bit t 4 then 0x10 else 0) + unat (t AND 0xf)"
proof -
  have "bit t 4 \<longleftrightarrow> odd (unat t div 16)"
    using bit_unsigned_iff [of t 4, where ?'a = nat] by (simp add: bit_iff_odd)
  then show ?thesis
    using mod_mult2_eq [of "unat t" 16 2] by (simp add: unat_and_nibbles odd_iff_mod_2_eq_one)
qed
subsection \<open>Lists\<close>

lemma length_takeWhile_less:
  "x \<in> set xs \<Longrightarrow> \<not> P x \<Longrightarrow> length (takeWhile P xs) < length xs"
proof (induction xs)
  case (Cons a xs)
  then show ?case by auto
qed simp

lemma nth_update_iff: "k < length xs \<Longrightarrow> xs[i := x] ! k = (if i = k then x else xs ! k)"
  by (cases "i < length xs") (simp_all add: nth_list_update)

lemma foldl_inv: "(\<And>s i. P s \<Longrightarrow> i \<in> set xs \<Longrightarrow> P (f s i)) \<Longrightarrow> P s \<Longrightarrow> P (foldl f s xs)"
  by (induction xs arbitrary: s) auto

subsection \<open>State machines with an invariant\<close>

text \<open>
  Several components are driven by a sequence of events: interrupts, ticks, commands.
  \<open>step\<close> is the component's reaction to one event and \<open>inv\<close> its invariant; whoever gives
  both and shows that one step keeps the invariant has it after every run.
\<close>

locale machine =
  fixes step :: "'s \<Rightarrow> 'e \<Rightarrow> 's"
    and inv :: "'s \<Rightarrow> bool"
  assumes inv_step: "inv s \<Longrightarrow> inv (step s e)"
begin

lemma inv_run: "inv s \<Longrightarrow> inv (foldl step s es)"
  by (induction es arbitrary: s) (auto intro: inv_step)

lemma inv_run_prefix: "inv s \<Longrightarrow> inv (foldl step s (take n es))"
  by (rule inv_run)

end

text \<open>
  The same for components whose environment respects a condition on the events, such as the
  size of a packet it hands over.
\<close>

locale guarded_machine =
  fixes step :: "'s \<Rightarrow> 'e \<Rightarrow> 's"
    and inv :: "'s \<Rightarrow> bool"
    and valid :: "'e \<Rightarrow> bool"
  assumes inv_step: "inv s \<Longrightarrow> valid e \<Longrightarrow> inv (step s e)"
begin

lemma inv_run: "inv s \<Longrightarrow> list_all valid es \<Longrightarrow> inv (foldl step s es)"
  by (induction es arbitrary: s) (auto intro: inv_step)

end

sublocale machine \<subseteq> guarded: guarded_machine step inv "\<lambda>_. True"
  by unfold_locales (rule inv_step)

end
