(* ===== verification/E6_Crc.thy ===== *)
theory E6_Crc
  imports E6_Prelude
begin

text \<open>
  The checksums of the firmware and its host tools.  \<open>crc16_update\<close>, \<open>crc16_concat\<close> model
  \<^verbatim>\<open>core/crc/crc16-concat.c\<close>, which appends a CRC-16 to a firmware image;
  \<open>parse_cmd_crc_calc\<close> and \<open>parse_cmd_crc_read\<close> model \<^verbatim>\<open>core/crc/crc_ecmd.c\<close>, which checks it
  on the device, and \<open>calc_application_crc\<close> models \<^verbatim>\<open>core/util/app_crc.c\<close>.  The 8-bit iButton
  CRC is written twice in the sources: \<open>crc_ibutton_update\<close> (the host variant in
  \<^verbatim>\<open>hardware/storage/dataflash/fs.c\<close>) and \<open>crc_update\<close> (\<^verbatim>\<open>core/vfs/vfs-concat.c\<close>).
  \<open>crc_checksum\<close> and \<open>eeprom_get_chksum\<close> are from \<^verbatim>\<open>core/eeprom.c\<close>.

  The locale \<open>crc_register\<close> is the interface the users of a checksum rely on: the register
  update is linear over exclusive or and injective in each argument.  It is interpreted on both
  CRCs, and gives error detection for both.  avr-libc's \<^verbatim>\<open>_crc16_update\<close> and
  \<^verbatim>\<open>_crc_ibutton_update\<close> are not part of the sources: they are the parameter \<open>upd\<close> of the
  functions that call them.
\<close>

subsection \<open>CRC-16\<close>

definition crc16_shift :: "u16 \<Rightarrow> u16" where
  "crc16_shift crc =
     (if crc AND 1 \<noteq> 0 then drop_bit 1 crc XOR 0xA001 else drop_bit 1 crc)"

definition crc16_update :: "u16 \<Rightarrow> u8 \<Rightarrow> u16" where
  "crc16_update crc a = (crc16_shift ^^ 8) (crc XOR ucast a)"

definition crc16_file :: "u8 list \<Rightarrow> u16" where
  "crc16_file file = foldl crc16_update 0xffff file"

text \<open>
  The tool writes the two bytes of the register behind the file with
  \<^verbatim>\<open>fwrite(&crc, 2, 1, f)\<close>: low byte first on the little-endian hosts it is built for.
\<close>

definition crc16_concat :: "u8 list \<Rightarrow> u8 list" where
  "crc16_concat file =
     (let crc = crc16_file file in file @ [ucast crc, ucast (drop_bit 8 crc)])"

subsection \<open>Checking the CRC-16 on the device\<close>

text \<open>
  \<open>flash\<close> is the program memory, read byte by byte; \<open>CRC_BYTE_POS\<close> is the build's
  constant \<^verbatim>\<open>FLASHEND - 1\<close> (less the boot loader's size).  Both commands print a register, so
  they return the word that \<^verbatim>\<open>sprintf_P\<close> formats with \<^verbatim>\<open>%.4X\<close>.
\<close>

definition parse_cmd_crc_calc :: "(u16 \<Rightarrow> u8 \<Rightarrow> u16) \<Rightarrow> (nat \<Rightarrow> u8) \<Rightarrow> nat \<Rightarrow> u16" where
  "parse_cmd_crc_calc upd flash CRC_BYTE_POS = foldl upd 0xffff (map flash [0..<CRC_BYTE_POS])"

definition parse_cmd_crc_read :: "(nat \<Rightarrow> u8) \<Rightarrow> nat \<Rightarrow> u16" where
  "parse_cmd_crc_read flash CRC_BYTE_POS =
     ucast (flash CRC_BYTE_POS) OR push_bit 8 (ucast (flash (CRC_BYTE_POS + 1)))"

definition calc_application_crc :: "(u16 \<Rightarrow> u8 \<Rightarrow> u16) \<Rightarrow> (nat \<Rightarrow> u8) \<Rightarrow> nat \<Rightarrow> u16" where
  "calc_application_crc upd flash BOOTLOADER_START_ADDRESS =
     foldl upd 0xffff (map flash [0..<BOOTLOADER_START_ADDRESS])"

subsection \<open>The iButton CRC\<close>

definition crc_ibutton_shift :: "u8 \<Rightarrow> u8" where
  "crc_ibutton_shift crc =
     (if crc AND 1 \<noteq> 0 then drop_bit 1 crc XOR 0x8C else drop_bit 1 crc)"

definition crc_ibutton_update :: "u8 \<Rightarrow> u8 \<Rightarrow> u8" where
  "crc_ibutton_update crc data = (crc_ibutton_shift ^^ 8) (crc XOR data)"

text \<open>The same register in \<^verbatim>\<open>vfs-concat.c\<close>, which shifts the data byte along.\<close>

definition crc_update_shift :: "u8 \<times> u8 \<Rightarrow> u8 \<times> u8" where
  "crc_update_shift cd =
     (case cd of (crc, data) \<Rightarrow>
        (if (crc XOR data) AND 1 \<noteq> 0 then drop_bit 1 crc XOR 0x8C else drop_bit 1 crc,
         drop_bit 1 data))"

definition crc_update :: "u8 \<Rightarrow> u8 \<Rightarrow> u8" where
  "crc_update crc data = fst ((crc_update_shift ^^ 8) (crc, data))"

definition crc_calc :: "u8 list \<Rightarrow> nat \<Rightarrow> u8" where
  "crc_calc data len = foldl crc_update 0 (take len data)"

text \<open>
  \<^verbatim>\<open>crc_checksum\<close> counts with a \<^verbatim>\<open>uint8_t\<close> up to a \<^verbatim>\<open>uint8_t\<close> length, so it reads exactly
  \<open>unat len\<close> bytes.  \<^verbatim>\<open>eeprom_get_chksum\<close> folds the configuration block but its last byte,
  where the checksum itself is kept.
\<close>

definition crc_checksum :: "(u8 \<Rightarrow> u8 \<Rightarrow> u8) \<Rightarrow> u8 list \<Rightarrow> u8 \<Rightarrow> u8" where
  "crc_checksum upd data len = foldl upd 0 (take (unat len) data)"

definition eeprom_get_chksum :: "(u8 \<Rightarrow> u8 \<Rightarrow> u8) \<Rightarrow> (nat \<Rightarrow> u8) \<Rightarrow> nat \<Rightarrow> nat \<Rightarrow> u8" where
  "eeprom_get_chksum upd eeprom EEPROM_CONFIG_BASE config_size =
     foldl upd 0 (map (\<lambda>i. eeprom (EEPROM_CONFIG_BASE + i)) [0..<config_size - 1])"

subsection \<open>The interface of a CRC register\<close>

locale crc_register =
  fixes upd :: "'w::len word \<Rightarrow> u8 \<Rightarrow> 'w word"
  assumes upd_xor: "upd (a XOR b) (x XOR y) = upd a x XOR upd b y"
    and upd_reg_inject: "upd a x = upd b x \<longleftrightarrow> a = b"
    and upd_byte_inject: "upd a x = upd a y \<longleftrightarrow> x = y"
begin

lemma crc_reg_inject: "foldl upd a xs = foldl upd b xs \<longleftrightarrow> a = b"
  by (induction xs arbitrary: a b) (auto simp: upd_reg_inject)

text \<open>The checksum of a corrupted message depends on the error pattern only.\<close>

lemma crc_linear:
  "length xs = length ys \<Longrightarrow>
     foldl upd (a XOR b) (map2 (XOR) xs ys) = foldl upd a xs XOR foldl upd b ys"
  by (induction xs ys arbitrary: a b rule: list_induct2) (auto simp: upd_xor)

text \<open>A message with one byte changed has another checksum.\<close>

lemma crc_byte_changed:
  assumes "i < length xs" and "foldl upd a (xs[i := v]) = foldl upd a xs"
  shows "v = xs ! i"
proof -
  let ?pre = "take i xs" and ?post = "drop (Suc i) xs"
  have "foldl upd a (?pre @ v # ?post) = foldl upd a (?pre @ xs ! i # ?post)"
    using assms by (simp add: upd_conv_take_nth_drop id_take_nth_drop [symmetric])
  then show ?thesis
    by (simp add: crc_reg_inject upd_byte_inject)
qed

end

subsection \<open>Both registers satisfy the interface\<close>

text \<open>One shift of the register: linear, and injective because the polynomial's top bit is set.\<close>

lemma drop_bit_1_xor: "drop_bit 1 (a XOR b) = drop_bit 1 a XOR drop_bit 1 (b :: 'a::len word)"
  by (simp add: drop_bit_xor)

lemma crc16_shift_alt: "crc16_shift c = drop_bit 1 c XOR (if odd c then 0xA001 else 0)"
  by (simp add: crc16_shift_def and_one_eq odd_iff_mod_2_eq_one)

lemma crc_ibutton_shift_alt: "crc_ibutton_shift c = drop_bit 1 c XOR (if odd c then 0x8C else 0)"
  by (simp add: crc_ibutton_shift_def and_one_eq odd_iff_mod_2_eq_one)

lemma crc16_shift_xor: "crc16_shift (a XOR b) = crc16_shift a XOR crc16_shift b"
  by (cases "odd a"; cases "odd b")
    (simp_all add: crc16_shift_alt drop_bit_1_xor odd_xor_iff ac_simps word_xor_cancel)

lemma crc_ibutton_shift_xor:
  "crc_ibutton_shift (a XOR b) = crc_ibutton_shift a XOR crc_ibutton_shift b"
  by (cases "odd a"; cases "odd b")
    (simp_all add: crc_ibutton_shift_alt drop_bit_1_xor odd_xor_iff ac_simps word_xor_cancel)

lemma even_drop_bit_1_zero: "even (c :: 'a::len word) \<Longrightarrow> drop_bit 1 c = 0 \<Longrightarrow> c = 0"
  using div_mult_mod_eq [of c 2] by (simp add: drop_bit_Suc even_iff_mod_2_eq_zero)

lemma crc16_shift_zero: "crc16_shift c = 0 \<longleftrightarrow> c = 0"
proof
  assume z: "crc16_shift c = 0"
  have "even c"
  proof (rule ccontr)
    assume "odd c"
    then have "bit (crc16_shift c) 15"
      using bit_imp_le_length [of c 16] by (auto simp: crc16_shift_alt bit_simps)
    with z show False by simp
  qed
  with z show "c = 0"
    by (simp add: crc16_shift_alt even_drop_bit_1_zero)
qed (simp add: crc16_shift_def)

lemma crc_ibutton_shift_zero: "crc_ibutton_shift c = 0 \<longleftrightarrow> c = 0"
proof
  assume z: "crc_ibutton_shift c = 0"
  have "even c"
  proof (rule ccontr)
    assume "odd c"
    then have "bit (crc_ibutton_shift c) 7"
      using bit_imp_le_length [of c 8] by (auto simp: crc_ibutton_shift_alt bit_simps)
    with z show False by simp
  qed
  with z show "c = 0"
    by (simp add: crc_ibutton_shift_alt even_drop_bit_1_zero)
qed (simp add: crc_ibutton_shift_def)

text \<open>Linearity and a trivial kernel pass from one shift to the eight shifts of an update.\<close>

lemma funpow_xor:
  fixes f :: "'a::len word \<Rightarrow> 'a word"
  assumes "\<And>a b. f (a XOR b) = f a XOR f b"
  shows "(f ^^ n) (a XOR b) = (f ^^ n) a XOR (f ^^ n) b"
  by (induction n) (simp_all add: assms)

lemma funpow_zero:
  fixes f :: "'a::len word \<Rightarrow> 'a word"
  assumes "\<And>a. f a = 0 \<longleftrightarrow> a = 0"
  shows "(f ^^ n) a = 0 \<longleftrightarrow> a = 0"
  by (induction n) (simp_all add: assms)

lemma xor_eq_0_iff: "a XOR b = 0 \<longleftrightarrow> a = (b :: 'a::len word)"
  by (metis xor_eq_iff_left xor_self_eq)

lemma linear_inject:
  fixes f :: "'a::len word \<Rightarrow> 'a word"
  assumes "\<And>a b. f (a XOR b) = f a XOR f b"
    and "\<And>a. f a = 0 \<longleftrightarrow> a = 0"
  shows "(f ^^ n) a = (f ^^ n) b \<longleftrightarrow> a = b"
proof -
  have "(f ^^ n) a = (f ^^ n) b \<longleftrightarrow> (f ^^ n) (a XOR b) = 0"
    by (simp add: funpow_xor [OF assms(1)] xor_eq_0_iff)
  then show ?thesis
    by (simp add: funpow_zero [OF assms(2)] xor_eq_0_iff)
qed

lemmas crc16_inject = linear_inject [OF crc16_shift_xor crc16_shift_zero]
lemmas crc_ibutton_inject = linear_inject [OF crc_ibutton_shift_xor crc_ibutton_shift_zero]

lemma ucast_u8_u16_inject: "(ucast x :: u16) = ucast y \<longleftrightarrow> x = (y :: u8)"
proof
  assume "(ucast x :: u16) = ucast y"
  then have "(ucast (ucast x :: u16) :: u8) = ucast (ucast y :: u16)" by simp
  then show "x = y" by (simp add: ucast_up_ucast_id is_up)
qed simp

interpretation c16: crc_register crc16_update
proof
  show "crc16_update (a XOR b) (x XOR y) = crc16_update a x XOR crc16_update b y" for a b x y
    unfolding crc16_update_def
    by (simp add: unsigned_xor_eq ac_simps flip: funpow_xor [OF crc16_shift_xor])
  show "crc16_update a x = crc16_update b x \<longleftrightarrow> a = b" for a b x
    unfolding crc16_update_def by (simp only: crc16_inject word_xor_cancel)
  show "crc16_update a x = crc16_update a y \<longleftrightarrow> x = y" for a x y
    unfolding crc16_update_def by (simp only: crc16_inject word_xor_cancel ucast_u8_u16_inject)
qed

interpretation ib: crc_register crc_ibutton_update
proof
  show "crc_ibutton_update (a XOR b) (x XOR y)
      = crc_ibutton_update a x XOR crc_ibutton_update b y" for a b x y
    unfolding crc_ibutton_update_def
    by (simp add: ac_simps flip: funpow_xor [OF crc_ibutton_shift_xor])
  show "crc_ibutton_update a x = crc_ibutton_update b x \<longleftrightarrow> a = b" for a b x
    unfolding crc_ibutton_update_def by (simp only: crc_ibutton_inject word_xor_cancel)
  show "crc_ibutton_update a x = crc_ibutton_update a y \<longleftrightarrow> x = y" for a x y
    unfolding crc_ibutton_update_def by (simp only: crc_ibutton_inject word_xor_cancel)
qed

subsection \<open>The two bytes behind an image\<close>

lemma bytes_of_u16: "(ucast (ucast c :: u8) :: u16) OR push_bit 8 (ucast (ucast (drop_bit 8 c) :: u8)) = c"
proof (intro bit_word_eqI)
  fix n
  assume "n < LENGTH(16)"
  then show "bit (ucast (ucast c :: u8) OR push_bit 8 (ucast (ucast (drop_bit 8 c) :: u8)) :: u16) n
      = bit c n"
    by (auto simp: bit_simps)
qed

lemma crc16_shift_low_zero:
  "(\<And>i. i < n \<Longrightarrow> \<not> bit c i) \<Longrightarrow> (crc16_shift ^^ n) c = drop_bit n c"
proof (induction n arbitrary: c)
  case (Suc n)
  have "even c" using Suc.prems [of 0] by (simp add: bit_0)
  then have s: "crc16_shift c = drop_bit 1 c"
    by (simp add: crc16_shift_alt)
  have "(crc16_shift ^^ n) (drop_bit 1 c) = drop_bit n (drop_bit 1 c)"
    by (rule Suc.IH) (use Suc.prems in \<open>auto simp: bit_simps\<close>)
  then show ?case by (simp add: s funpow_Suc_right del: funpow.simps)
qed simp

lemma crc16_update_low: "crc16_update c (ucast c) = drop_bit 8 c"
proof -
  have "(crc16_shift ^^ 8) (c XOR ucast (ucast c :: u8)) = drop_bit 8 (c XOR ucast (ucast c :: u8))"
    by (rule crc16_shift_low_zero) (auto simp: bit_simps)
  also have "\<dots> = drop_bit 8 c"
    by (intro bit_word_eqI) (auto simp: bit_simps)
  finally show ?thesis by (simp add: crc16_update_def)
qed

lemma crc16_update_high: "crc16_update (drop_bit 8 c) (ucast (drop_bit 8 c)) = 0"
  unfolding crc16_update_low using bit_imp_le_length[of c] by (intro bit_word_eqI) (auto simp: bit_simps)

lemma crc_update_shift_pow:
  "(crc_update_shift ^^ n) (crc, data) =
     ((crc_ibutton_shift ^^ n) (crc XOR data) XOR drop_bit n data, drop_bit n data)"
proof (induction n)
  case 0 then show ?case by (simp add: word_xor_cancel)
next
  case (Suc n)
  let ?c = "(crc_ibutton_shift ^^ n) (crc XOR data)" and ?d = "drop_bit n data"
  have "crc_update_shift (?c XOR ?d, ?d) = (crc_ibutton_shift ?c XOR drop_bit 1 ?d, drop_bit 1 ?d)"
    by (simp add: crc_update_shift_def crc_ibutton_shift_def word_xor_cancel drop_bit_xor ac_simps)
  with Suc show ?case by (simp add: add.commute)
qed

subsection \<open>Properties\<close>

text \<open>
  The image that \<^verbatim>\<open>crc16-concat\<close> writes has CRC-16 zero: feeding the file and the two
  appended bytes through the register leaves nothing.
\<close>

theorem crc16_concat_residue: "crc16_file (crc16_concat file) = 0"
  by (simp add: crc16_concat_def crc16_file_def Let_def crc16_update_low crc16_update_high)

text \<open>The program memory holds the bytes \<open>xs\<close> from address 0 on.\<close>

definition flash_holds :: "(nat \<Rightarrow> u8) \<Rightarrow> u8 list \<Rightarrow> bool" where
  "flash_holds flash xs \<longleftrightarrow> map flash [0..<length xs] = xs"

lemma flash_holds_append:
  assumes "flash_holds flash (xs @ ys)"
  shows "map flash [0..<length xs] = xs"
proof -
  have "take (length xs) (map flash [0..<length (xs @ ys)]) = take (length xs) (xs @ ys)"
    using assms by (simp only: flash_holds_def)
  then show ?thesis by (simp add: take_map)
qed

lemma flash_holds_nth:
  assumes "flash_holds flash xs" and "i < length xs"
  shows "flash i = xs ! i"
proof -
  have "map flash [0..<length xs] ! i = xs ! i"
    using assms(1) by (simp only: flash_holds_def)
  then show ?thesis using assms(2) by simp
qed

lemma crc_read_image:
  assumes "flash_holds flash (crc16_concat file)"
  shows "parse_cmd_crc_read flash (length file) = crc16_file file"
proof -
  have "flash (length file) = ucast (crc16_file file)"
    and "flash (length file + 1) = ucast (drop_bit 8 (crc16_file file))"
    using flash_holds_nth [OF assms, of "length file"]
      flash_holds_nth [OF assms, of "length file + 1"]
    by (simp_all add: crc16_concat_def Let_def nth_append)
  then show ?thesis
    by (simp add: parse_cmd_crc_read_def bytes_of_u16)
qed

text \<open>
  A device whose flash holds an image made by \<^verbatim>\<open>crc16-concat\<close> prints the same value for
  \<^verbatim>\<open>crc calc\<close> and \<^verbatim>\<open>crc read\<close>; and if one byte of the program is then changed, the two values
  differ.  \<open>upd\<close> is avr-libc's \<^verbatim>\<open>_crc16_update\<close>, which the tool's source copies from the
  library's documentation.
\<close>

theorem crc_device_check:
  assumes upd: "\<And>c a. upd c a = crc16_update c a"
    and img: "flash_holds flash (crc16_concat bs)"
  shows "parse_cmd_crc_calc upd flash (length bs) = parse_cmd_crc_read flash (length bs)
    \<and> (\<forall>i v. i < length bs \<and> v \<noteq> flash i \<longrightarrow>
          parse_cmd_crc_calc upd (flash(i := v)) (length bs)
            \<noteq> parse_cmd_crc_read (flash(i := v)) (length bs))"
proof (intro conjI allI impI)
  have u: "upd = crc16_update" using upd by blast
  have m: "map flash [0..<length bs] = bs"
    by (rule flash_holds_append) (use img in \<open>simp add: crc16_concat_def Let_def\<close>)
  have "parse_cmd_crc_calc upd flash (length bs) = crc16_file bs"
    by (simp add: parse_cmd_crc_calc_def u m crc16_file_def)
  then show "parse_cmd_crc_calc upd flash (length bs) = parse_cmd_crc_read flash (length bs)"
    using crc_read_image [OF img] by simp
  fix i v
  assume "i < length bs \<and> v \<noteq> flash i"
  then have i: "i < length bs" and v: "v \<noteq> bs ! i"
    using arg_cong [OF m, of "\<lambda>xs. xs ! i"] by auto
  have "map (flash(i := v)) [0..<length bs] = bs[i := v]"
    using i by (subst m [symmetric], intro nth_equalityI) (auto simp: nth_list_update)
  then have "parse_cmd_crc_calc upd (flash(i := v)) (length bs) = crc16_file (bs[i := v])"
    by (simp add: parse_cmd_crc_calc_def u crc16_file_def)
  moreover have "parse_cmd_crc_read (flash(i := v)) (length bs) = crc16_file bs"
    using crc_read_image [OF img] i by (simp add: parse_cmd_crc_read_def)
  ultimately show "parse_cmd_crc_calc upd (flash(i := v)) (length bs)
      \<noteq> parse_cmd_crc_read (flash(i := v)) (length bs)"
    using c16.crc_byte_changed [OF i, of "0xffff" v] v by (auto simp: crc16_file_def)
qed

theorem crc_device_check_witness:
  "flash_holds (nth (crc16_concat [1, 2, 3])) (crc16_concat [1, 2, 3])
    \<and> parse_cmd_crc_calc crc16_update (nth (crc16_concat [1, 2, 3])) 3
        = parse_cmd_crc_read (nth (crc16_concat [1, 2, 3])) 3
    \<and> parse_cmd_crc_calc crc16_update ((nth (crc16_concat [1, 2, 3]))(1 := 9)) 3
        \<noteq> parse_cmd_crc_read ((nth (crc16_concat [1, 2, 3]))(1 := 9)) 3"
proof -
  let ?f = "nth (crc16_concat [1, 2, 3])"
  have img: "flash_holds ?f (crc16_concat [1, 2, 3])"
    by (simp add: flash_holds_def map_nth)
  have "(9 :: u8) \<noteq> ?f 1" by (simp add: crc16_concat_def Let_def)
  then show ?thesis
    using img crc_device_check [of crc16_update, OF refl img] by (auto simp: numeral_3_eq_3)
qed

text \<open>
  The two implementations of the iButton CRC in the sources, the one \<^verbatim>\<open>vfs-concat\<close> writes
  file headers with and the one of the dataflash file system, are the same function.
\<close>

theorem crc_update_eq: "crc_update = crc_ibutton_update"
proof (intro ext)
  fix crc data :: u8
  have "drop_bit 8 data = 0"
    using bit_imp_le_length[of data] by (intro bit_word_eqI) (auto simp: bit_simps)
  then show "crc_update crc data = crc_ibutton_update crc data"
    by (simp add: crc_update_def crc_ibutton_update_def crc_update_shift_pow)
qed

text \<open>
  A single corrupted byte of the EEPROM configuration block is always noticed: the checksum
  computed over the block changes.  \<open>upd\<close> is avr-libc's \<^verbatim>\<open>_crc_ibutton_update\<close>.
\<close>

theorem eeprom_chksum_detects:
  assumes upd: "\<And>c a. upd c a = crc_ibutton_update c a"
    and i: "i < config_size - 1" and v: "v \<noteq> eeprom (base + i)"
  shows "eeprom_get_chksum upd (eeprom(base + i := v)) base config_size
      \<noteq> eeprom_get_chksum upd eeprom base config_size"
proof -
  have u: "upd = crc_ibutton_update" using upd by blast
  let ?xs = "map (\<lambda>j. eeprom (base + j)) [0..<config_size - 1]"
  have "map (\<lambda>j. (eeprom(base + i := v)) (base + j)) [0..<config_size - 1] = ?xs[i := v]"
    using i by (intro nth_equalityI) (auto simp: nth_list_update)
  then show ?thesis
    using ib.crc_byte_changed [of i ?xs 0 v] i v by (auto simp: eeprom_get_chksum_def u)
qed

theorem eeprom_chksum_detects_witness:
  "eeprom_get_chksum crc_ibutton_update ((\<lambda>i. of_nat i)(16 + 2 := 7)) 16 10
      \<noteq> eeprom_get_chksum crc_ibutton_update (\<lambda>i. of_nat i) 16 10"
  by (rule eeprom_chksum_detects) simp_all

end
