(* ===== verification/E6_Strings.thy ===== *)
theory E6_Strings
  imports E6_Prelude
begin

text \<open>
  The text conversions of \<^verbatim>\<open>core/util\<close>: \<^verbatim>\<open>next_uint16\<close>, \<^verbatim>\<open>next_int16_fp\<close> and
  \<^verbatim>\<open>next_hexbyte\<close> (\<^verbatim>\<open>string_parsing.c\<close>), \<^verbatim>\<open>itoa_fixedpoint\<close> (\<^verbatim>\<open>fixedpoint.c\<close>),
  \<^verbatim>\<open>byte2hex\<close> (\<^verbatim>\<open>byte2hex.c\<close>) and \<^verbatim>\<open>byte2bin\<close> (\<^verbatim>\<open>byte2bin.c\<close>).

  A C string is the list of its bytes before the terminating zero, and reading at its end gives
  the terminator: the empty list stands where \<^verbatim>\<open>*cmd\<close> is \<^verbatim>\<open>'\0'\<close>.  A parser returns the number
  of characters it consumed, truncated to \<^verbatim>\<open>uint8_t\<close> as in the source, and the value it stores.
  \<^verbatim>\<open>int\<close> has 16 bits on the target; \<open>int16\<close> is the value a result has after it is stored in
  16 signed bits.
\<close>

subsection \<open>Parsing\<close>

fun strip_spaces :: "u8 list \<Rightarrow> u8 list" where
  "strip_spaces [] = []"
| "strip_spaces (c # cs) = (if c = ch_space then strip_spaces cs else c # cs)"

definition is_digit :: "u8 \<Rightarrow> bool" where
  "is_digit c \<longleftrightarrow> ch_0 \<le> c \<and> c \<le> ch_9"

fun uint16_digits :: "u8 list \<Rightarrow> u16 \<Rightarrow> bool \<Rightarrow> u8 list \<times> u16 \<times> bool" where
  "uint16_digits [] value found = ([], value, found)"
| "uint16_digits (c # cs) value found =
     (if is_digit c then uint16_digits cs (value * 10 + ucast c - ucast ch_0) True
      else (c # cs, value, found))"

definition next_uint16 :: "u8 list \<Rightarrow> u8 \<times> u16" where
  "next_uint16 cmd =
     (let (rest, value, found) = uint16_digits (strip_spaces cmd) 0 False
      in (if found then of_nat (length cmd - length rest) else 0, value))"

definition int16 :: "int \<Rightarrow> int" where
  "int16 x = (x + 32768) mod 65536 - 32768"

definition int8 :: "int \<Rightarrow> int" where
  "int8 x = (x + 128) mod 256 - 128"

fun int16_fp_digits ::
    "u8 list \<Rightarrow> int \<Rightarrow> int \<Rightarrow> bool \<Rightarrow> bool \<Rightarrow> u8 list \<times> int \<times> int \<times> bool" where
  "int16_fp_digits [] value fixeddigits found_decimal found_number =
     ([], value, fixeddigits, found_number)"
| "int16_fp_digits (c # cs) value fixeddigits found_decimal found_number =
     (if is_digit c \<or> c = ch_dot \<and> \<not> found_decimal then
        (if c = ch_dot then int16_fp_digits cs value fixeddigits True True
         else
           int16_fp_digits cs
             (if fixeddigits > 0 \<or> \<not> found_decimal
              then int16 (value * 10 + uint c - uint ch_0) else value)
             (if found_decimal then int8 (fixeddigits - 1) else fixeddigits)
             found_decimal True)
      else (c # cs, value, fixeddigits, found_number))"

text \<open>\<^verbatim>\<open>while (fixeddigits-- > 0) *value = *value * 10;\<close>\<close>

definition int16_fp_fill :: "int \<Rightarrow> int \<Rightarrow> int" where
  "int16_fp_fill value fixeddigits = ((\<lambda>v. int16 (v * 10)) ^^ nat fixeddigits) value"

definition next_int16_fp :: "u8 list \<Rightarrow> int \<Rightarrow> u8 \<times> int" where
  "next_int16_fp cmd fixeddigits =
     (let cmd0 = strip_spaces cmd;
          found_negative = (cmd0 \<noteq> [] \<and> hd cmd0 = ch_minus);
          cmd1 = (if found_negative then tl cmd0 else cmd0);
          (rest, value, fd, found_number) = int16_fp_digits cmd1 0 fixeddigits False False;
          value' = int16_fp_fill value fd;
          value'' = (if found_number \<and> found_negative then int16 (value' * -1) else value')
      in (if found_number then of_nat (length cmd - length rest) else 0, value''))"

text \<open>The value of one hexadecimal character; \<open>None\<close> is the parser's error branch.\<close>

definition hex_digit :: "u8 \<Rightarrow> u8 option" where
  "hex_digit c =
     (if ch_0 \<le> c \<and> c \<le> ch_9 then Some (c - ch_0)
      else if ch_a \<le> c \<and> c \<le> ch_f then Some (c - ch_a + 10)
      else if ch_A \<le> c \<and> c \<le> ch_F then Some (c - ch_A + 10)
      else None)"

fun hexbyte_digits :: "nat \<Rightarrow> u8 list \<Rightarrow> u8 \<Rightarrow> (u8 + u8 list \<times> u8)" where
  "hexbyte_digits 0 cmd value = Inr (cmd, value)"
| "hexbyte_digits (Suc i) cmd value =
     (let c = (case cmd of [] \<Rightarrow> ch_nul | c # _ \<Rightarrow> c) in
      case hex_digit c of
        None \<Rightarrow> Inl c
      | Some d \<Rightarrow> hexbyte_digits i (tl cmd) (push_bit 4 value OR d))"

definition next_hexbyte :: "u8 list \<Rightarrow> u8 \<times> u8" where
  "next_hexbyte cmd =
     (case hexbyte_digits 2 (strip_spaces cmd) 0 of
        Inl c \<Rightarrow> (0, c)
      | Inr (rest, value) \<Rightarrow> (of_nat (length cmd - length rest), value))"

subsection \<open>Printing\<close>

definition NIBBLE_TO_HEX :: "u8 \<Rightarrow> u8" where
  "NIBBLE_TO_HEX a = (if a < 10 then a + ch_0 else a - 10 + ch_A)"

definition byte2hex :: "u8 \<Rightarrow> u8 list" where
  "byte2hex value = [NIBBLE_TO_HEX (drop_bit 4 value), NIBBLE_TO_HEX (value AND 0xF)]"

text \<open>
  \<^verbatim>\<open>byte2bin\<close> fills the static buffer from index 7 down to index 0; the digits written so far
  are the list's tail.
\<close>

fun byte2bin_loop :: "nat \<Rightarrow> u8 \<Rightarrow> u8 list \<Rightarrow> u8 list" where
  "byte2bin_loop 0 value binstr = binstr"
| "byte2bin_loop (Suc i) value binstr =
     byte2bin_loop i (value div 2) ((if value AND 1 \<noteq> 0 then ch_1 else ch_0) # binstr)"

definition byte2bin :: "u8 \<Rightarrow> u8 list" where
  "byte2bin value = byte2bin_loop 8 value []"

text \<open>
  \<^verbatim>\<open>itoa_fixedpoint\<close>.  Its two loops with a condition on \<^verbatim>\<open>m\<close> need not end (when \<^verbatim>\<open>m\<close> has
  overflowed, or for \<^verbatim>\<open>fixeddigits == 255\<close>), so they are partial: \<open>None\<close> is a loop that does not
  return.  C's division truncates towards zero.
\<close>

definition cdiv :: "int \<Rightarrow> int \<Rightarrow> int" where
  "cdiv a b = sgn a * sgn b * (\<bar>a\<bar> div \<bar>b\<bar>)"

partial_function (option) fixedpoint_digits :: "int \<Rightarrow> u8 \<Rightarrow> int \<Rightarrow> u8 \<Rightarrow> (int \<times> u8) option" where
  "fixedpoint_digits n fixeddigits m digits =
     (if m \<le> cdiv n 10 \<or> unat digits < unat fixeddigits + 1
      then fixedpoint_digits n fixeddigits (int16 (m * 10)) (digits + 1)
      else Some (m, digits))"

partial_function (option) fixedpoint_digit :: "int \<Rightarrow> int \<Rightarrow> u8 \<Rightarrow> (int \<times> u8) option" where
  "fixedpoint_digit n m i =
     (if n \<ge> m then fixedpoint_digit (int16 (n - m)) m (i + 1) else Some (n, i))"

declare fixedpoint_digits.simps [code] fixedpoint_digit.simps [code]

text \<open>The output loop; \<open>s\<close> holds the characters written so far, \<open>sz\<close> is the decremented size.\<close>

fun fixedpoint_emit :: "nat \<Rightarrow> u8 \<Rightarrow> int \<Rightarrow> int \<Rightarrow> u8 list \<Rightarrow> nat \<Rightarrow> u8 list option" where
  "fixedpoint_emit 0 fixeddigits n m s sz = Some s"
| "fixedpoint_emit (Suc d) fixeddigits n m s sz =
     (if length s < sz then
        let s1 = (if Suc d = unat fixeddigits then s @ [ch_dot] else s) in
        case fixedpoint_digit n m ch_0 of
          None \<Rightarrow> None
        | Some (n', i) \<Rightarrow>
            let s2 = (if length s1 < sz then s1 @ [i] else s1) in
            fixedpoint_emit d fixeddigits n' (cdiv m 10) s2 sz
      else Some s)"

text \<open>
  The result is the text before the terminating zero that is stored at \<^verbatim>\<open>s[len]\<close>; with
  \<^verbatim>\<open>size <= 1\<close> the source stores nothing and returns 0.
\<close>

definition itoa_fixedpoint :: "int \<Rightarrow> u8 \<Rightarrow> u8 \<Rightarrow> u8 list option" where
  "itoa_fixedpoint n fixeddigits sz =
     (if sz \<le> 1 then Some []
      else
        let s = (if n < 0 then [ch_minus] else []);
            n' = (if n < 0 then int16 (- n) else n) in
        case fixedpoint_digits n' fixeddigits 1 1 of
          None \<Rightarrow> None
        | Some (m, digits) \<Rightarrow>
            fixedpoint_emit (unat digits) fixeddigits n' m s (unat (sz - 1)))"

subsection \<open>Skipping spaces and reading digits\<close>

lemma strip_spaces_replicate:
  "strip_spaces (replicate k ch_space @ cs) = strip_spaces cs"
  by (induction k) auto

lemma strip_spaces_id: "cs = [] \<or> hd cs \<noteq> ch_space \<Longrightarrow> strip_spaces cs = cs"
  by (cases cs) auto

lemma is_digit_not_space: "is_digit c \<Longrightarrow> c \<noteq> ch_space"
  by (auto simp: is_digit_def word_le_nat_alt)

text \<open>The number a digit string denotes, unbounded.\<close>

definition decimal :: "u8 list \<Rightarrow> nat" where
  "decimal ds = foldl (\<lambda>v c. 10 * v + (unat c - 48)) 0 ds"

lemma uint16_digits_run:
  assumes "list_all is_digit ds" and "rest = [] \<or> \<not> is_digit (hd rest)"
  shows "uint16_digits (ds @ rest) (of_nat v) found =
    (rest, of_nat (foldl (\<lambda>v c. 10 * v + (unat c - 48)) v ds), found \<or> ds \<noteq> [])"
  using assms
proof (induction ds arbitrary: v found)
  case Nil
  then show ?case by (cases rest) auto
next
  case (Cons c ds)
  then have "48 \<le> unat c" by (simp add: is_digit_def word_le_nat_alt)
  then have v: "(of_nat v * 10 + ucast c - ucast ch_0 :: u16) = of_nat (10 * v + (unat c - 48))"
    by (simp add: of_nat_diff)
  have "uint16_digits ((c # ds) @ rest) (of_nat v) found
      = uint16_digits (ds @ rest) (of_nat v * 10 + ucast c - ucast ch_0) True"
    using Cons.prems by simp
  also have "\<dots> = uint16_digits (ds @ rest) (of_nat (10 * v + (unat c - 48))) True"
    by (simp only: v)
  also have "\<dots> = (rest,
      of_nat (foldl (\<lambda>v c. 10 * v + (unat c - 48)) (10 * v + (unat c - 48)) ds), True)"
    using Cons.IH [of "10 * v + (unat c - 48)" True] Cons.prems
    by (simp del: of_nat_add of_nat_mult)
  finally show ?case by simp
qed

text \<open>
  Parsing a decimal number.  After any number of spaces, a non-empty run of digits that is
  followed by a non-digit or the end is consumed whole, and the value stored is the number it
  denotes modulo 65536; the count returned is the number of characters consumed modulo 256.
\<close>

theorem next_uint16_decimal:
  assumes "list_all is_digit ds" and "ds \<noteq> []" and "rest = [] \<or> \<not> is_digit (hd rest)"
  shows "next_uint16 (replicate k ch_space @ ds @ rest)
    = (of_nat (k + length ds), of_nat (decimal ds))"
proof -
  have "strip_spaces (replicate k ch_space @ ds @ rest) = ds @ rest"
    using assms by (cases ds) (auto simp: strip_spaces_replicate is_digit_not_space)
  then show ?thesis
    using uint16_digits_run [of ds rest 0 False] assms
    by (simp add: next_uint16_def decimal_def)
qed

theorem next_uint16_decimal_witness: "next_uint16 [32, 32, 52, 50, 59] = (4, 42)"
proof -
  have "next_uint16 (replicate (Suc (Suc 0)) ch_space @ [52, 50] @ [59])
      = (of_nat (Suc (Suc 0) + length [52 :: u8, 50]), of_nat (decimal [52, 50]))"
    by (rule next_uint16_decimal) (simp_all add: is_digit_def)
  then show ?thesis by (simp add: decimal_def)
qed

subsection \<open>Bytes as hexadecimal digits\<close>

lemma hex_digit_NIBBLE: "unat x < 16 \<Longrightarrow> hex_digit (NIBBLE_TO_HEX x) = Some x"
  by (erule word_enum) code_simp

lemma NIBBLE_not_space: "unat x < 16 \<Longrightarrow> NIBBLE_TO_HEX x \<noteq> ch_space"
  by (erule word_enum) code_simp

lemma drop_bit_4_u8: "unat (drop_bit 4 (v :: u8)) < 16"
  using u8_less_256 [of v] by (simp add: drop_bit_eq_div unat_div_distrib)

lemma and_15_u8_eq: "(v AND 0xF :: u8) = take_bit 4 v"
 by (simp add: take_bit_eq_mask mask_eq_exp_minus_1)
lemma and_15_u8: "unat (v AND 0xF :: u8) < 16"
  using take_bit_nat_less_exp[of 4 "unat v"] unfolding and_15_u8_eq by (simp add: unsigned_take_bit_eq)

lemma nibbles_u8: "push_bit 4 (drop_bit 4 v) OR (v AND 0xF) = (v :: u8)"
  unfolding and_15_u8_eq by (intro bit_word_eqI) (auto simp: bit_simps)

text \<open>
  A byte printed by \<^verbatim>\<open>byte2hex\<close> and read back by \<^verbatim>\<open>next_hexbyte\<close>, behind any number of
  spaces and before any text, is the same byte, and exactly its two digits and the spaces are
  consumed.
\<close>

theorem hex_roundtrip:
  "next_hexbyte (replicate k ch_space @ byte2hex v @ rest) = (of_nat (k + 2), v)"
proof -
  let ?h = "NIBBLE_TO_HEX (drop_bit 4 v)" and ?l = "NIBBLE_TO_HEX (v AND 0xF)"
  have "strip_spaces (replicate k ch_space @ byte2hex v @ rest) = byte2hex v @ rest"
    using NIBBLE_not_space [OF drop_bit_4_u8, of v]
    by (simp add: strip_spaces_replicate byte2hex_def)
  then show ?thesis
    by (simp add: next_hexbyte_def byte2hex_def numeral_2_eq_2 hex_digit_NIBBLE [OF drop_bit_4_u8]
        hex_digit_NIBBLE [OF and_15_u8] nibbles_u8 Let_def)
qed

lemma byte2bin_loop_eq: "byte2bin_loop n v s = rev (map (\<lambda>i. if bit v i then ch_1 else ch_0) [0..<n]) @ s"
  proof (induction n arbitrary: v s)
    case (Suc n)
    have "byte2bin_loop (Suc n) v s = rev (map (\<lambda>i. if bit (v div 2) i then ch_1 else ch_0) [0..<n]) @ (if bit v 0 then ch_1 else ch_0) # s"
      by (simp add: Suc and_1_word_neq_0_iff bit_0)
    also have "\<dots> = rev (map (\<lambda>i. if bit v i then ch_1 else ch_0) (0 # map Suc [0..<n])) @ s"
      by (simp add: bit_Suc comp_def)
    finally show ?case by (simp only: map_Suc_upt upt_conv_Cons [OF zero_less_Suc])
  qed simp

text \<open>\<^verbatim>\<open>byte2bin\<close> prints the eight bits of the byte, the most significant first.\<close>

theorem byte2bin_bits: "byte2bin v = map (\<lambda>i. if bit v (7 - i) then ch_1 else ch_0) [0..<8]"
proof -
  have "byte2bin v = rev (map (\<lambda>i. if bit v i then ch_1 else ch_0) [0..<8])"
    by (simp add: byte2bin_def byte2bin_loop_eq)
  then show ?thesis by (intro nth_equalityI) (simp_all add: rev_nth)
qed

subsection \<open>Fixed-point numbers\<close>

lemma int16_id: "-32768 \<le> x \<Longrightarrow> x \<le> 32767 \<Longrightarrow> int16 x = x"
  by (simp add: int16_def)

lemma int8_id: "-128 \<le> x \<Longrightarrow> x \<le> 127 \<Longrightarrow> int8 x = x"
  by (simp add: int8_def)

lemma cdiv_nonneg: "0 \<le> a \<Longrightarrow> 0 < b \<Longrightarrow> cdiv a b = a div b"
  by (cases "a = 0") (simp_all add: cdiv_def)

lemma fixedpoint_digits_result:
  assumes "0 \<le> n" "n \<le> 32767" "unat fd \<le> 4" "1 \<le> d" "d \<le> 5"
  shows "\<exists>D. fixedpoint_digits n fd (10 ^ (d - 1)) (of_nat d) = Some (10 ^ (D - 1), of_nat D)
    \<and> 1 \<le> D \<and> D \<le> 5 \<and> n < 10 ^ D \<and> unat fd < D"
  using assms(4,5)
proof (induction "5 - d" arbitrary: d)
  case 0
  then have d: "d = 5" by simp
  have "fixedpoint_digits n fd (10 ^ (d - 1)) (of_nat d) = Some (10 ^ (d - 1), of_nat d)"
    using assms zdiv_mono1 [of n 32767 10] by (subst fixedpoint_digits.simps) (simp add: d cdiv_nonneg)
  then show ?case using assms d by (intro exI [of _ 5]) simp
next
  case (Suc k)
  then have d: "1 \<le> d" "d \<le> 4" by simp_all
  then have ud: "unat (of_nat d :: u8) = d" by (simp add: unat_of_nat)
  have m: "(10 ^ (d - 1) :: int) * 10 = 10 ^ (Suc d - 1)"
    using d by (cases d) simp_all
  have "(10 :: int) ^ d \<le> 10 ^ 4" using d by (intro power_increasing) auto
  then have i16: "int16 (10 ^ (d - 1) * 10) = (10 ^ (Suc d - 1) :: int)"
    unfolding m by (intro int16_id order_trans [of "-32768" 0 "10 ^ (Suc d - 1)"]) auto
  show ?case
  proof (cases "10 ^ (d - 1) \<le> cdiv n 10 \<or> d < unat fd + 1")
    case True
    then have "fixedpoint_digits n fd (10 ^ (d - 1)) (of_nat d)
        = fixedpoint_digits n fd (10 ^ (Suc d - 1)) (of_nat (Suc d))"
      by (subst fixedpoint_digits.simps) (simp add: ud i16 [simplified] add.commute)
    with Suc.hyps(1) [of "Suc d"] Suc.hyps(2) d show ?thesis by simp
  next
    case False
    then have "n div 10 < 10 ^ (d - 1)" using assms by (simp add: cdiv_nonneg)
    then have "n < 10 ^ (d - 1) * 10" using assms by linarith
    then have "n < 10 ^ d" using m by simp
    moreover have "fixedpoint_digits n fd (10 ^ (d - 1)) (of_nat d) = Some (10 ^ (d - 1), of_nat d)"
      using False by (subst fixedpoint_digits.simps) (simp add: ud)
    ultimately show ?thesis using False d by (intro exI [of _ d]) auto
  qed
qed

lemma fixedpoint_digit_result:
  assumes "0 < m" "0 \<le> n" "n \<le> 32767"
  shows "fixedpoint_digit n m i = Some (n mod m, i + of_int (n div m))"
  using assms(2,3)
proof (induction "nat n" arbitrary: n i rule: less_induct)
  case less
  show ?case
  proof (cases "n \<ge> m")
    case True
    have "fixedpoint_digit n m i = fixedpoint_digit (n - m) m (i + 1)"
      using True less.prems assms(1) by (subst fixedpoint_digit.simps) (simp add: int16_id)
    also have "\<dots> = Some ((n - m) mod m, i + 1 + of_int ((n - m) div m))"
      using True less.prems assms(1) by (intro less.hyps) auto
    also have "(n - m) div m = n div m - 1"
      using assms(1) div_add_self2 [of m "n - m"] by simp
    finally show ?thesis by simp
  next
    case False
    then show ?thesis using less.prems by (subst fixedpoint_digit.simps) simp
  qed
qed

text \<open>The text of a number with \<open>d\<close> digits, \<open>fd\<close> of them behind the point.\<close>

fun fp_text :: "nat \<Rightarrow> nat \<Rightarrow> int \<Rightarrow> u8 list" where
  "fp_text 0 fd n = []"
| "fp_text (Suc d) fd n =
     (if Suc d = fd then [ch_dot] else []) @ (ch_0 + of_int (n div 10 ^ d)) # fp_text d fd (n mod 10 ^ d)"

lemma length_fp_text:
  "length (fp_text d fd n) = d + (if 0 < fd \<and> fd \<le> d then 1 else 0)"
  by (induction d arbitrary: n) auto

lemma fixedpoint_emit_result:
  assumes "0 \<le> n" "n \<le> 32767" "n < 10 ^ d" "length s + length (fp_text d (unat fd) n) \<le> sz"
  shows "fixedpoint_emit d fd n (10 ^ (d - 1)) s sz = Some (s @ fp_text d (unat fd) n)"
  using assms
proof (induction d arbitrary: n s)
  case (Suc d)
  let ?dot = "if Suc d = unat fd then [ch_dot] else []"
  let ?c = "ch_0 + of_int (n div 10 ^ d) :: u8"
  have room: "length s < sz" "length (s @ ?dot) < sz"
    using Suc.prems(4) by (simp_all split: if_splits)
  have digit: "fixedpoint_digit n (10 ^ d) ch_0 = Some (n mod 10 ^ d, ?c)"
    using Suc.prems by (intro fixedpoint_digit_result) auto
  have m: "d > 0 \<Longrightarrow> cdiv (10 ^ d) 10 = 10 ^ (d - 1)"
    by (cases d) (simp_all add: cdiv_nonneg)
  have "n mod 10 ^ d \<le> n" using Suc.prems(1) by (rule zmod_le_nonneg_dividend)
  then have IH: "fixedpoint_emit d fd (n mod 10 ^ d) (10 ^ (d - 1)) (s @ ?dot @ [?c]) sz
      = Some ((s @ ?dot @ [?c]) @ fp_text d (unat fd) (n mod 10 ^ d))"
    using Suc.prems(1,2,4) by (intro Suc.IH) (auto split: if_splits)
  have "fixedpoint_emit (Suc d) fd n (10 ^ (Suc d - 1)) s sz
      = fixedpoint_emit d fd (n mod 10 ^ d) (cdiv (10 ^ d) 10) (s @ ?dot @ [?c]) sz"
    using room by (simp add: digit Let_def split: if_splits)
  also have "\<dots> = Some (s @ fp_text (Suc d) (unat fd) n)"
    using IH m by (cases "d = 0") auto
  finally show ?case .
qed simp

text \<open>A decimal digit as a character.\<close>

lemma digit_char:
  assumes "0 \<le> k" "k \<le> 9"
  shows "is_digit (ch_0 + of_int k)" and "uint (ch_0 + of_int k :: u8) = 48 + k"
    and "(ch_0 + of_int k :: u8) \<noteq> ch_dot"
proof -
  show u: "uint (ch_0 + of_int k :: u8) = 48 + k"
    using assms by (simp add: uint_word_ariths uint_word_of_int)
  then show "is_digit (ch_0 + of_int k)"
    using assms by (simp add: is_digit_def word_le_def)
  have "uint (ch_0 + of_int k :: u8) \<noteq> uint ch_dot"
    unfolding u using assms by simp
  then show "(ch_0 + of_int k :: u8) \<noteq> ch_dot" by metis
qed

lemma int_div_mult_le: "0 < (m :: int) \<Longrightarrow> n div m * m \<le> n"
  using div_mult_mod_eq [of n m] pos_mod_sign [of m n] by linarith

lemma div_pow_digit:
  assumes "0 \<le> (n :: int)" "n < 10 ^ Suc d"
  shows "0 \<le> n div 10 ^ d" "n div 10 ^ d \<le> 9"
proof -
  show "0 \<le> n div 10 ^ d" using assms by (simp add: pos_imp_zdiv_nonneg_iff)
  show "n div 10 ^ d \<le> 9"
  proof (rule ccontr)
    assume "\<not> n div 10 ^ d \<le> 9"
    then have "10 * 10 ^ d \<le> (n div 10 ^ d) * 10 ^ d" by (intro mult_right_mono) auto
    also have "\<dots> \<le> n" by (rule int_div_mult_le) simp
    finally show False using assms by simp
  qed
qed

lemma fp_value_step:
  fixes n v :: int
  assumes "0 \<le> v" "0 \<le> n"
  shows "(v * 10 + n div 10 ^ d) * 10 ^ d + n mod 10 ^ d = v * 10 ^ Suc d + n"
    and "v * 10 + n div 10 ^ d \<le> v * 10 ^ Suc d + n"
proof -
  show e: "(v * 10 + n div 10 ^ d) * 10 ^ d + n mod 10 ^ d = v * 10 ^ Suc d + n"
    by (simp add: algebra_simps)
  have "0 \<le> v * 10 + n div 10 ^ d" using assms by (simp add: pos_imp_zdiv_nonneg_iff)
  then have "(v * 10 + n div 10 ^ d) * 1 \<le> (v * 10 + n div 10 ^ d) * 10 ^ d"
    by (intro mult_left_mono) auto
  also have "\<dots> \<le> (v * 10 + n div 10 ^ d) * 10 ^ d + n mod 10 ^ d" by simp
  finally show "v * 10 + n div 10 ^ d \<le> v * 10 ^ Suc d + n"
    unfolding e by simp
qed

lemma fp_parse_digit:
  assumes "0 \<le> v" "0 \<le> n" "n < 10 ^ Suc d" "v * 10 ^ Suc d + n \<le> 32767"
    and "\<not> dec \<or> 0 < fd" "fd \<le> 127" "-127 \<le> fd"
  shows "int16_fp_digits ((ch_0 + of_int (n div 10 ^ d)) # cs) v fd dec found
    = int16_fp_digits cs (v * 10 + n div 10 ^ d) (if dec then fd - 1 else fd) dec True"
proof -
  note k = div_pow_digit [OF assms(2,3)]
  have "v * 10 + n div 10 ^ d \<le> 32767"
    using fp_value_step(2) [OF assms(1,2), of d] assms(4) by linarith
  then have "int16 (v * 10 + n div 10 ^ d) = v * 10 + n div 10 ^ d"
    using k assms(1) by (intro int16_id) auto
  moreover have "int8 (fd - 1) = fd - 1"
    using assms by (intro int8_id) auto
  ultimately show ?thesis
    using digit_char [OF k] assms(5) by auto
qed

lemma fp_parse_fraction:
  assumes "d < fd" "0 \<le> v" "0 \<le> n" "n < 10 ^ d" "v * 10 ^ d + n \<le> 32767" "d \<le> 127"
  shows "int16_fp_digits (fp_text d fd n) v (int d) True True = ([], v * 10 ^ d + n, 0, True)"
  using assms
proof (induction d arbitrary: n v)
  case (Suc d)
  then have "int16_fp_digits (fp_text (Suc d) fd n) v (int (Suc d)) True True
      = int16_fp_digits (fp_text d fd (n mod 10 ^ d)) (v * 10 + n div 10 ^ d) (int d) True True"
    using fp_parse_digit [of v n d True "int (Suc d)"] by simp
  also have "\<dots> = ([], (v * 10 + n div 10 ^ d) * 10 ^ d + n mod 10 ^ d, 0, True)"
    using Suc.prems div_pow_digit [of n d] fp_value_step(1) [of v n d] by (intro Suc.IH) auto
  finally show ?case
    using fp_value_step(1) [of v n d] Suc.prems by simp
qed simp

lemma fp_parse_text:
  assumes "fd \<le> d" "0 \<le> v" "0 \<le> n" "n < 10 ^ d" "v * 10 ^ d + n \<le> 32767" "fd \<le> 127"
  shows "int16_fp_digits (fp_text d fd n) v (int fd) False found
    = ([], v * 10 ^ d + n, 0, found \<or> 0 < d)"
  using assms
proof (induction d arbitrary: n v found)
  case (Suc d)
  note k = div_pow_digit [OF Suc.prems(3,4)] and st = fp_value_step [OF Suc.prems(2,3), of d]
  have nv: "0 \<le> v * 10 + n div 10 ^ d"
    using Suc.prems k by auto
  show ?case
  proof (cases "Suc d = fd")
    case True
    have "int16_fp_digits (fp_text (Suc d) fd n) v (int fd) False found
        = int16_fp_digits ((ch_0 + of_int (n div 10 ^ d)) # fp_text d fd (n mod 10 ^ d)) v (int fd) True True"
      unfolding True [symmetric] by (simp add: is_digit_def)
    also have "\<dots> = int16_fp_digits (fp_text d fd (n mod 10 ^ d)) (v * 10 + n div 10 ^ d) (int d) True True"
      using Suc.prems True by (subst fp_parse_digit) auto
    also have "\<dots> = ([], v * 10 ^ Suc d + n, 0, True)"
      using Suc.prems True nv st by (subst fp_parse_fraction) auto
    finally show ?thesis by simp
  next
    case False
    then have "int16_fp_digits (fp_text (Suc d) fd n) v (int fd) False found
        = int16_fp_digits (fp_text d fd (n mod 10 ^ d)) (v * 10 + n div 10 ^ d) (int fd) False True"
      using Suc.prems fp_parse_digit [of v n d False "int fd"] by simp
    also have "\<dots> = ([], v * 10 ^ Suc d + n, 0, True)"
      using Suc.prems False nv st by (subst Suc.IH) auto
    finally show ?thesis by simp
  qed
qed simp

lemma fp_text_head:
  assumes "0 < d" "fd < d" "0 \<le> n" "n < 10 ^ d"
  shows "\<exists>c cs. fp_text d fd n = c # cs \<and> is_digit c"
  using assms div_pow_digit [of n "d - 1"] digit_char(1) by (cases d) auto

lemma fixedpoint_emit_length:
  "fixedpoint_emit d fd n m s sz = Some t \<Longrightarrow> length s \<le> sz \<Longrightarrow> length t \<le> sz"
proof (induction d arbitrary: n m s)
  case (Suc d)
  then show ?case
    by (fastforce simp: Let_def split: if_splits option.splits prod.splits)
qed simp

text \<open>
  \<^verbatim>\<open>itoa_fixedpoint\<close> stays inside its buffer: whenever it returns, the text it wrote and its
  terminating zero fit into \<^verbatim>\<open>size\<close> bytes.
\<close>

theorem itoa_fixedpoint_bounds:
  assumes "itoa_fixedpoint n fd sz = Some s" and "1 < sz"
  shows "length s < unat sz"
proof -
  have sz: "unat (sz - 1) = unat sz - 1" "1 < unat sz"
    using assms(2) by (simp_all add: word_less_nat_alt unat_sub_if')
  have "length s \<le> unat (sz - 1)"
    using assms sz by (auto simp: itoa_fixedpoint_def Let_def word_le_nat_alt split: option.splits prod.splits if_splits
        elim!: fixedpoint_emit_length)
  then show ?thesis using sz by simp
qed

theorem itoa_fixedpoint_bounds_witness:
  "itoa_fixedpoint (-123) 0 4 = Some [ch_minus, 49, 50]
    \<and> length [ch_minus, 49, 50] < unat (4 :: u8)"
proof -
  have "itoa_fixedpoint (-123) 0 4 = Some [ch_minus, 49, 50]" by code_simp
  then show ?thesis using itoa_fixedpoint_bounds [of "-123" 0 4] by simp
qed

text \<open>
  For every 16-bit value but the most negative one, at most four decimal places and a buffer
  of at least eight bytes, \<^verbatim>\<open>itoa_fixedpoint\<close> returns, and \<^verbatim>\<open>next_int16_fp\<close> with the same number
  of decimal places reads exactly that text back to the same value.
\<close>

theorem fixedpoint_roundtrip:
  assumes n: "-32767 \<le> n" "n \<le> 32767" and fd: "unat fd \<le> 4" and sz: "8 \<le> sz"
  shows "\<exists>s. itoa_fixedpoint n fd sz = Some s
    \<and> next_int16_fp s (int (unat fd)) = (of_nat (length s), n)"
proof -
  define a where "a = \<bar>n\<bar>"
  have a: "0 \<le> a" "a \<le> 32767" using n by (simp_all add: a_def)
  obtain D where D: "fixedpoint_digits a fd 1 1 = Some (10 ^ (D - 1), of_nat D)"
    "1 \<le> D" "D \<le> 5" "a < 10 ^ D" "unat fd < D"
    using fixedpoint_digits_result [OF a fd, of 1] by auto
  let ?t = "fp_text D (unat fd) a" and ?sg = "if n < 0 then [ch_minus] else []"
  have usz: "8 \<le> unat sz" "unat (sz - 1) = unat sz - 1"
    using sz by (simp_all add: word_le_nat_alt unat_sub_if')
  have "length ?sg + length ?t \<le> unat (sz - 1)"
    using usz D by (simp add: length_fp_text) linarith
  then have emit: "fixedpoint_emit D fd a (10 ^ (D - 1)) ?sg (unat (sz - 1)) = Some (?sg @ ?t)"
    using a D by (intro fixedpoint_emit_result) auto
  have "(if n < 0 then int16 (- n) else n) = a"
    using n by (simp add: a_def int16_id)
  then have out: "itoa_fixedpoint n fd sz = Some (?sg @ ?t)"
    using sz emit D by (auto simp: itoa_fixedpoint_def Let_def word_le_nat_alt unat_of_nat)
  obtain c cs where hd: "?t = c # cs" "is_digit c"
    using fp_text_head [of D "unat fd" a] a D by auto
  then have c: "c \<noteq> ch_space" "c \<noteq> ch_minus"
    by (auto simp: is_digit_def word_le_nat_alt)
  have parse: "int16_fp_digits ?t 0 (int (unat fd)) False False = ([], a, 0, True)"
    using fp_parse_text [of "unat fd" D 0 a False] a D fd by simp
  have strip: "strip_spaces (?sg @ ?t) = ?sg @ ?t" and ne: "?t \<noteq> []" "hd ?t \<noteq> ch_minus"
    using c by (simp_all add: hd)
  have sgn: "n < 0 \<Longrightarrow> int16 (a * -1) = n" "\<not> n < 0 \<Longrightarrow> a = n"
    using n by (simp_all add: a_def int16_id)
  have "next_int16_fp (?sg @ ?t) (int (unat fd)) = (of_nat (length (?sg @ ?t)), n)"
    using sgn ne parse unfolding next_int16_fp_def strip
    by (cases "n < 0") (simp_all add: int16_fp_fill_def)
  with out show ?thesis by blast
qed
theorem fixedpoint_roundtrip_witness:
  "\<exists>s. itoa_fixedpoint (-2105) 2 8 = Some s
    \<and> next_int16_fp s (int (unat (2 :: u8))) = (of_nat (length s), -2105)"
  by (rule fixedpoint_roundtrip) simp_all

end
