(* ===== verification/E6_Base64.thy ===== *)
theory E6_Base64
  imports E6_Prelude
begin

text \<open>
  The base64 coder of \<^verbatim>\<open>core/util/base64.c\<close>, used by the HTTP daemon's authentication and the
  Jabber client.  Buffers are lists of bytes.  \<open>base64_decode\<close> returns the argument string, whose
  blocks the source overwrites in place with their 6-bit values, and the bytes stored at
  \<^verbatim>\<open>output[0]\<close>, \<^verbatim>\<open>output[1]\<close>, \<dots>, the terminating zero included.  \<open>base64_encode\<close> returns the
  characters stored at \<^verbatim>\<open>output\<close>, and the terminating zero when there is room for it.  The
  indices are 16-bit unsigned integers in the source; the one sum that can wrap is written with
  its modulus.
\<close>

definition cd64 :: "u8 list" where
  "cd64 =
     [124, 36, 36, 36, 125, 114, 115, 116, 117, 118, 119, 120, 121, 122, 123, 36, 36, 36, 36,
      36, 36, 36, 62, 63, 64, 65, 66, 67, 68, 69, 70, 71, 72, 73, 74, 75, 76, 77, 78, 79, 80,
      81, 82, 83, 84, 85, 86, 87, 36, 36, 36, 36, 36, 36, 88, 89, 90, 91, 92, 93, 94, 95, 96,
      97, 98, 99, 100, 101, 102, 103, 104, 105, 106, 107, 108, 109, 110, 111, 112, 113]"

definition base64_sextet :: "u8 \<Rightarrow> u8" where
  "base64_sextet c =
     (let v = (if c < 43 \<or> c > 122 then 0 else cd64 ! unat (c - 43)) in
      if v \<noteq> 0 then
        let w = (if v = ch_dollar then 0 else v - 61) in
        if w \<noteq> 0 then w - 1 else w
      else v)"

definition base64_decodeblock :: "u8 \<Rightarrow> u8 \<Rightarrow> u8 \<Rightarrow> u8 \<Rightarrow> u8 list \<times> u8 list" where
  "base64_decodeblock a b c d =
     (let a' = base64_sextet a; b' = base64_sextet b; c' = base64_sextet c; d' = base64_sextet d in
      ([a', b', c', d'],
       [push_bit 2 a' OR drop_bit 4 b', push_bit 4 b' OR drop_bit 2 c',
        (push_bit 6 c' AND 0xc0) OR d']))"

fun base64_decode_loop :: "u8 list \<Rightarrow> u8 list \<Rightarrow> nat \<Rightarrow> u8 list \<times> u8 list" where
  "base64_decode_loop (a # b # c # d # rest) out max_len =
     (if length out < max_len then
        let pad = (if d = ch_eq then 1 else 0) + (if c = ch_eq then 1 else (0 :: nat));
            (blk, tmp) = base64_decodeblock a b c d;
            out' = out @ take (min (3 - pad) (max_len - length out)) tmp in
        if pad \<noteq> 0 then (blk @ rest, out')
        else let (rest', out'') = base64_decode_loop rest out' max_len in (blk @ rest', out'')
      else (a # b # c # d # rest, out))"
| "base64_decode_loop rest out max_len = (rest, out)"

definition base64_decode :: "u8 list \<Rightarrow> nat \<Rightarrow> u8 list \<times> u8 list" where
  "base64_decode str max_len =
     (if max_len = 0 then (str, [])
      else
        let len = length str mod 65536;
            (str', out) = base64_decode_loop (take len str) [] max_len in
        (str' @ drop len str, out @ [0]))"

definition base64_table :: "u8 list" where
  "base64_table =
     [65, 66, 67, 68, 69, 70, 71, 72, 73, 74, 75, 76, 77, 78, 79, 80, 81, 82, 83, 84, 85, 86,
      87, 88, 89, 90, 97, 98, 99, 100, 101, 102, 103, 104, 105, 106, 107, 108, 109, 110, 111,
      112, 113, 114, 115, 116, 117, 118, 119, 120, 121, 122, 48, 49, 50, 51, 52, 53, 54, 55,
      56, 57, 43, 47]"

text \<open>The inner loop: one character for every six bits at the top of the chunk.\<close>

fun base64_emit :: "u32 \<Rightarrow> nat \<Rightarrow> u8 list \<Rightarrow> nat \<Rightarrow> u8 list \<times> nat" where
  "base64_emit chunk bits output max_len =
     (if bits \<ge> 6 \<and> length output + 1 \<le> max_len then
        base64_emit chunk (bits - 6)
          (output @ [base64_table ! unat (drop_bit (bits - 6) chunk AND 0x3F)]) max_len
      else (output, bits))"

declare base64_emit.simps [simp del]

definition base64_encode_block :: "u8 list \<Rightarrow> u8 list \<Rightarrow> nat \<Rightarrow> u8 list" where
  "base64_encode_block blk output max_len =
     (let chunk = foldl (\<lambda>c b. push_bit 8 c OR ucast b) (0 :: u32) blk;
          (output1, bits) = base64_emit chunk (8 * length blk) output max_len in
      if bits > 0 \<and> length output1 + 1 \<le> max_len
      then output1 @ [base64_table ! unat (push_bit (6 - bits) chunk AND 0x3F)]
      else output1)"

function base64_encode_loop :: "u8 list \<Rightarrow> u8 list \<Rightarrow> nat \<Rightarrow> u8 list" where
  "base64_encode_loop input output max_len =
     (if input \<noteq> [] \<and> (length output + 4) mod 65536 \<le> max_len
      then base64_encode_loop (drop 3 input) (base64_encode_block (take 3 input) output max_len) max_len
      else output)"
  by pat_completeness auto
termination
  by (relation "measure (\<lambda>(input, output, max_len). length input)") auto

declare base64_encode_loop.simps [simp del]

function base64_padding :: "u8 list \<Rightarrow> nat \<Rightarrow> u8 list" where
  "base64_padding output max_len =
     (if length output < max_len \<and> length output mod 4 \<noteq> 0
      then base64_padding (output @ [ch_eq]) max_len else output)"
  by pat_completeness auto
termination
  by (relation "measure (\<lambda>(output, max_len). max_len - length output)") auto

declare base64_padding.simps [simp del]

definition base64_encode :: "u8 list \<Rightarrow> nat \<Rightarrow> u8 list" where
  "base64_encode input max_len =
     (let output = base64_padding (base64_encode_loop input [] max_len) max_len in
      if length output < max_len then output @ [0] else output)"

subsection \<open>Blocks\<close>

abbreviation b64 :: "u32 \<Rightarrow> u8" where
  "b64 w \<equiv> base64_table ! unat (w AND 0x3F)"

lemma and_63_eq: "(w AND 0x3F :: u32) = take_bit 6 w"
  by (simp add: take_bit_eq_mask mask_eq_exp_minus_1)

lemma unat_and_63: "unat (w AND 0x3F :: u32) < 64"
  using take_bit_nat_less_exp [of 6 "unat w"] unfolding and_63_eq by (simp add: unsigned_take_bit_eq)

lemma base64_table_props:
  "unat (w :: u32) < 64 \<Longrightarrow> base64_sextet (base64_table ! unat w) = ucast w
    \<and> base64_table ! unat w \<noteq> ch_eq \<and> base64_table ! unat w \<noteq> 0"
  by (erule word_enum) code_simp

lemma base64_sextet_b64: "base64_sextet (b64 w) = ucast (take_bit 6 w)"
  using base64_table_props [OF unat_and_63, of w] by (simp add: and_63_eq)

lemma b64_not_eq: "b64 w \<noteq> ch_eq" and b64_not_nul: "b64 w \<noteq> 0"
  using base64_table_props [OF unat_and_63, of w] by simp_all

text \<open>The 24-bit chunk of a block, and the text of a byte string, four characters per block.\<close>

definition chunk1 :: "u8 \<Rightarrow> u32" where "chunk1 x = ucast x"
definition chunk2 :: "u8 \<Rightarrow> u8 \<Rightarrow> u32" where "chunk2 x y = push_bit 8 (ucast x) OR ucast y"
definition chunk3 :: "u8 \<Rightarrow> u8 \<Rightarrow> u8 \<Rightarrow> u32" where
  "chunk3 x y z = push_bit 8 (push_bit 8 (ucast x) OR ucast y) OR ucast z"

fun base64_text :: "u8 list \<Rightarrow> u8 list" where
  "base64_text [] = []"
| "base64_text [x] =
     [b64 (drop_bit 2 (chunk1 x)), b64 (push_bit 4 (chunk1 x)), ch_eq, ch_eq]"
| "base64_text [x, y] =
     [b64 (drop_bit 10 (chunk2 x y)), b64 (drop_bit 4 (chunk2 x y)),
      b64 (push_bit 2 (chunk2 x y)), ch_eq]"
| "base64_text (x # y # z # rest) =
     b64 (drop_bit 18 (chunk3 x y z)) # b64 (drop_bit 12 (chunk3 x y z)) #
     b64 (drop_bit 6 (chunk3 x y z)) # b64 (chunk3 x y z) # base64_text rest"

lemmas b64_bits = chunk1_def chunk2_def chunk3_def bit_simps

lemma decode3:
  "snd (base64_decodeblock (b64 (drop_bit 18 (chunk3 x y z))) (b64 (drop_bit 12 (chunk3 x y z)))
     (b64 (drop_bit 6 (chunk3 x y z))) (b64 (chunk3 x y z))) = [x, y, z]"
  unfolding base64_decodeblock_def base64_sextet_b64 Let_def snd_conv list.inject
  by (intro conjI u8_eqI refl; drule less_8_cases; elim disjE; simp add: b64_bits)

lemma take_two: "take 2 (a # b # xs) = [a, b]"
  by (simp add: numeral_2_eq_2)

lemma decode2:
  "take 2 (snd (base64_decodeblock (b64 (drop_bit 10 (chunk2 x y)))
     (b64 (drop_bit 4 (chunk2 x y))) (b64 (push_bit 2 (chunk2 x y))) d)) = [x, y]"
  unfolding base64_decodeblock_def base64_sextet_b64 Let_def snd_conv take_two list.inject
  by (intro conjI u8_eqI refl; drule less_8_cases; elim disjE; simp add: b64_bits)

lemma decode1:
  "take 1 (snd (base64_decodeblock (b64 (drop_bit 2 (chunk1 x)))
     (b64 (push_bit 4 (chunk1 x))) c d)) = [x]"
  unfolding base64_decodeblock_def base64_sextet_b64 Let_def snd_conv One_nat_def
    take_Suc_Cons take_0 list.inject
  by (intro conjI u8_eqI refl; drule less_8_cases; elim disjE; simp add: b64_bits)

lemma base64_emit_step:
  "6 \<le> bits \<Longrightarrow> length output < max_len \<Longrightarrow>
     base64_emit chunk bits output max_len
       = base64_emit chunk (bits - 6) (output @ [b64 (drop_bit (bits - 6) chunk)]) max_len"
  by (subst base64_emit.simps) simp

lemma base64_emit_stop: "bits < 6 \<Longrightarrow> base64_emit chunk bits output max_len = (output, bits)"
  by (subst base64_emit.simps) simp

lemma base64_encode_block_3:
  "length output + 4 \<le> max_len \<Longrightarrow>
     base64_encode_block [x, y, z] output max_len
       = output @ [b64 (drop_bit 18 (chunk3 x y z)), b64 (drop_bit 12 (chunk3 x y z)),
                   b64 (drop_bit 6 (chunk3 x y z)), b64 (chunk3 x y z)]"
  by (simp add: base64_encode_block_def base64_emit_step base64_emit_stop chunk3_def)

lemma base64_encode_block_2:
  "length output + 4 \<le> max_len \<Longrightarrow>
     base64_encode_block [x, y] output max_len
       = output @ [b64 (drop_bit 10 (chunk2 x y)), b64 (drop_bit 4 (chunk2 x y)),
                   b64 (push_bit 2 (chunk2 x y))]"
  by (simp add: base64_encode_block_def base64_emit_step base64_emit_stop chunk2_def)

lemma base64_encode_block_1:
  "length output + 4 \<le> max_len \<Longrightarrow>
     base64_encode_block [x] output max_len
       = output @ [b64 (drop_bit 2 (chunk1 x)), b64 (push_bit 4 (chunk1 x))]"
  by (simp add: base64_encode_block_def base64_emit_step base64_emit_stop chunk1_def Let_def)

lemma length_base64_text: "length (base64_text bs) = 4 * ((length bs + 2) div 3)"
proof (induction bs rule: base64_text.induct)
  case (4 x y z rest)
  then show ?case by simp presburger
qed simp_all

lemma base64_padding_pad:
  "length output < max_len \<Longrightarrow> length output mod 4 \<noteq> 0 \<Longrightarrow>
     base64_padding output max_len = base64_padding (output @ [ch_eq]) max_len"
  by (subst base64_padding.simps) simp

lemma base64_padding_stop:
  "length output mod 4 = 0 \<Longrightarrow> base64_padding output max_len = output"
  by (subst base64_padding.simps) simp

lemma base64_encode_text:
  assumes "length outp + length (base64_text bs) \<le> max_len" "max_len < 65532"
    "length outp mod 4 = 0"
  shows "base64_padding (base64_encode_loop bs outp max_len) max_len = outp @ base64_text bs"
  using assms
proof (induction bs arbitrary: outp rule: base64_text.induct)
  case 1
  then show ?case by (simp add: base64_encode_loop.simps base64_padding_stop)
next
  case (2 x)
  then show ?case
    by (simp add: base64_encode_loop.simps base64_encode_block_1 base64_padding_pad
        base64_padding_stop mod_Suc)
next
  case (3 x y)
  then show ?case
    by (simp add: base64_encode_loop.simps base64_encode_block_2 base64_padding_pad
        base64_padding_stop mod_Suc)
next
  case (4 x y z rest)
  have "base64_encode_loop (x # y # z # rest) outp max_len
      = base64_encode_loop rest (base64_encode_block [x, y, z] outp max_len) max_len"
    using 4 by (subst base64_encode_loop.simps) (simp add: numeral_3_eq_3)
  with 4 show ?case by (simp add: base64_encode_block_3)
qed

lemma base64_decode_text:
  assumes "length out + length bs \<le> max_len"
  shows "snd (base64_decode_loop (base64_text bs) out max_len) = out @ bs"
  using assms
proof (induction bs arbitrary: out rule: base64_text.induct)
  case 1
  then show ?case by simp
next
  case (2 x)
  then have "min (3 - 2) (max_len - length out) = 1" by simp
  with 2 show ?case using decode1 [of x ch_eq ch_eq] by (auto simp: Let_def split: prod.splits)
next
  case (3 x y)
  then have "min (3 - 1) (max_len - length out) = 2" by simp
  with 3 show ?case using decode2 [of x y ch_eq] by (auto simp: Let_def b64_not_eq split: prod.splits)
next
  case (4 x y z rest)
  then have "min 3 (max_len - length out) = 3" by simp
  with "4.prems" "4.IH" [of "out @ [x, y, z]"] show ?case
    using decode3 [of x y z] by (auto simp: Let_def b64_not_eq split: prod.splits)
qed

lemma base64_text_not_nul: "0 \<notin> set (base64_text bs)"
  by (induction bs rule: base64_text.induct) (auto simp: b64_not_nul [symmetric])

lemma base64_decode_of_text:
  assumes "length bs \<le> n" "0 < n" "length (base64_text bs) < 65536"
  shows "snd (base64_decode (base64_text bs) n) = bs @ [0]"
  using assms base64_decode_text [of "[]" bs n]
  by (auto simp: base64_decode_def Let_def split: prod.splits)

text \<open>
  C34: Decoding inverts encoding: for every byte string whose encoding and its terminating zero fit
  into the output buffer, \<^verbatim>\<open>base64_encode\<close> stores a C string that \<^verbatim>\<open>base64_decode\<close>, given room for
  at least the original bytes, turns back into exactly those bytes and a terminating zero.
\<close>

theorem base64_roundtrip:
  assumes "4 * ((length bs + 2) div 3) < max_len" "max_len < 65532"
    and "length bs \<le> n" "0 < n"
  shows "\<exists>txt. base64_encode bs max_len = txt @ [0] \<and> 0 \<notin> set txt
    \<and> snd (base64_decode txt n) = bs @ [0]"
proof -
  have len: "length (base64_text bs) < max_len"
    using assms(1) by (simp add: length_base64_text)
  then have "base64_encode bs max_len = base64_text bs @ [0]"
    using base64_encode_text [of "[]" bs max_len] assms(2) by (simp add: base64_encode_def)
  then show ?thesis
    using base64_text_not_nul base64_decode_of_text [OF assms(3,4)] len assms(2) by auto
qed

theorem base64_roundtrip_witness:
  "\<exists>txt. base64_encode [77, 97, 110, 33] 9 = txt @ [0] \<and> 0 \<notin> set txt
    \<and> snd (base64_decode txt 4) = [77, 97, 110, 33] @ [0]"
  by (rule base64_roundtrip) simp_all




end
