(* ===== verification/E6_Queue.thy ===== *)
theory E6_Queue
  imports E6_Prelude
begin

text \<open>
  The queue of \<^verbatim>\<open>core/queue/queue.c\<close>: a linked list of nodes on the C heap.  Despite their names,
  \<^verbatim>\<open>start\<close> is the node pushed last and \<^verbatim>\<open>end\<close> the node to be popped next; the links run from
  \<^verbatim>\<open>end\<close> to \<^verbatim>\<open>start\<close>.  The heap is a partial map from addresses to nodes, \<^verbatim>\<open>malloc\<close> hands out
  the address given as an argument (\<open>NULL\<close> when it fails) and \<^verbatim>\<open>free\<close> removes a node from the map.
  The contract is that of a bounded first-in first-out queue, stated as the locale \<open>fifo\<close> over an
  abstraction to lists.
\<close>

subsection \<open>State and operations\<close>

record Node =
  next_node :: addr
  node_data :: addr

record Queue =
  q_start :: addr
  q_end :: addr
  q_limit :: u16
  q_count :: u16

type_synonym node_heap = "addr \<Rightarrow> Node option"

definition queue_is_empty :: "Queue \<Rightarrow> bool" where
  "queue_is_empty q \<longleftrightarrow> q_end q = NULL"

definition queue_push ::
    "addr \<Rightarrow> addr \<Rightarrow> node_heap \<times> Queue \<Rightarrow> u8 \<times> node_heap \<times> Queue" where
  "queue_push malloc data st =
     (case st of (h, q) \<Rightarrow>
        if q_limit q \<noteq> 0 \<and> q_limit q \<le> q_count q then (0, h, q)
        else if q_count q = 0xffff then (0, h, q)
        else if malloc = NULL then (0, h, q)
        else
          let h = h(malloc \<mapsto> \<lparr>next_node = NULL, node_data = data\<rparr>) in
          if queue_is_empty q then
            (1, h, q\<lparr>q_start := malloc, q_end := malloc, q_count := q_count q + 1\<rparr>)
          else
            let h = (case h (q_start q) of
                       Some n \<Rightarrow> h(q_start q \<mapsto> n\<lparr>next_node := malloc\<rparr>)
                     | None \<Rightarrow> h)
            in (1, h, q\<lparr>q_start := malloc, q_count := q_count q + 1\<rparr>))"

definition queue_pop :: "node_heap \<times> Queue \<Rightarrow> addr \<times> node_heap \<times> Queue" where
  "queue_pop st =
     (case st of (h, q) \<Rightarrow>
        if queue_is_empty q then (NULL, h, q)
        else (case h (q_end q) of
                Some n \<Rightarrow>
                  (node_data n, h(q_end q := None),
                   q\<lparr>q_end := next_node n, q_count := q_count q - 1\<rparr>)
              | None \<Rightarrow> (NULL, h, q)))"

definition queue_peek :: "node_heap \<times> Queue \<Rightarrow> addr" where
  "queue_peek st =
     (case st of (h, q) \<Rightarrow>
        if queue_is_empty q then NULL
        else (case h (q_end q) of Some n \<Rightarrow> node_data n | None \<Rightarrow> NULL))"

text \<open>
  The branches for a dangling pointer (\<open>None\<close>) are undefined behaviour in C; the invariant
  below excludes them.

  \<open>node_list h p as\<close>: the nodes at the addresses \<open>as\<close> are chained by \<^verbatim>\<open>next\<close> from \<open>p\<close>
  down to a null pointer.
\<close>

fun node_list :: "node_heap \<Rightarrow> addr \<Rightarrow> addr list \<Rightarrow> bool" where
  "node_list h p [] \<longleftrightarrow> p = NULL"
| "node_list h p (a # as) \<longleftrightarrow> p = a \<and> a \<noteq> NULL \<and>
     (case h a of Some n \<Rightarrow> node_list h (next_node n) as | None \<Rightarrow> False)"

text \<open>
  \<open>queue_abs as data st\<close>: the queue is represented by the distinct nodes \<open>as\<close>, oldest
  first, which hold \<open>data\<close>; \<^verbatim>\<open>count\<close> is their number, within the limit.
\<close>

definition queue_abs :: "addr list \<Rightarrow> addr list \<Rightarrow> node_heap \<times> Queue \<Rightarrow> bool" where
  "queue_abs as ds st \<longleftrightarrow>
     (case st of (h, q) \<Rightarrow>
        node_list h (q_end q) as \<and> distinct as
        \<and> ds = map (\<lambda>a. case h a of Some n \<Rightarrow> node_data n | None \<Rightarrow> NULL) as
        \<and> (as \<noteq> [] \<longrightarrow> q_start q = last as)
        \<and> unat (q_count q) = length as
        \<and> (q_limit q \<noteq> 0 \<longrightarrow> length as \<le> unat (q_limit q)))"

definition queue_rel :: "addr list \<Rightarrow> node_heap \<times> Queue \<Rightarrow> bool" where
  "queue_rel ds st \<longleftrightarrow> (\<exists>as. queue_abs as ds st)"

subsection \<open>Chains of nodes\<close>

lemma node_list_frame:
  "node_list h p as \<Longrightarrow> a \<notin> set as \<Longrightarrow> node_list (h(a := v)) p as"
  by (induction as arbitrary: p) (auto split: option.splits)

lemma node_list_alloc: "node_list h p as \<Longrightarrow> x \<in> set as \<Longrightarrow> x \<noteq> NULL \<and> (\<exists>n. h x = Some n)"
  by (induction as arbitrary: p) (auto split: option.splits)

lemma node_list_snoc:
  assumes "node_list h p as" and "distinct as" and "as \<noteq> []" and "h (last as) = Some n"
    and "a \<noteq> NULL" and "a \<notin> set as"
  shows "node_list (h(a \<mapsto> \<lparr>next_node = NULL, node_data = d\<rparr>,
                      last as \<mapsto> n\<lparr>next_node := a\<rparr>)) p (as @ [a])"
  using assms
proof (induction as arbitrary: p)
  case (Cons b as)
  show ?case
  proof (cases "as = []")
    case True
    then show ?thesis using Cons.prems by auto
  next
    case False
    then have "b \<noteq> last as" using Cons.prems(2) by auto
    then show ?thesis using Cons False by (auto split: option.splits)
  qed
qed simp

subsection \<open>The interface of a bounded queue\<close>

datatype ('m, 'a) queue_op = Push 'm 'a | Pop
datatype 'a queue_out = Pushed bool | Popped "'a option"

text \<open>
  The specification: a list with a capacity.  \<open>avail\<close> says whether the environment
  \<open>'m\<close> of a push (the result of \<^verbatim>\<open>malloc\<close>) provides the space for an element.
\<close>

fun spec_step :: "('m \<Rightarrow> bool) \<Rightarrow> nat \<Rightarrow> 'a list \<Rightarrow> ('m, 'a) queue_op \<Rightarrow> 'a list \<times> 'a queue_out" where
  "spec_step avail cap xs (Push m x) =
     (if length xs < cap \<and> avail m then (xs @ [x], Pushed True) else (xs, Pushed False))"
| "spec_step avail cap [] Pop = ([], Popped None)"
| "spec_step avail cap (x # xs) Pop = (xs, Popped (Some x))"

fun spec_run :: "('m \<Rightarrow> bool) \<Rightarrow> nat \<Rightarrow> 'a list \<Rightarrow> ('m, 'a) queue_op list \<Rightarrow> 'a queue_out list" where
  "spec_run avail cap xs [] = []"
| "spec_run avail cap xs (p # ps) =
     (case spec_step avail cap xs p of (xs', r) \<Rightarrow> r # spec_run avail cap xs' ps)"

text \<open>A run of the operations \<open>push\<close> and \<open>pop\<close> of an implementation, with the values they return.\<close>

fun op_step ::
    "('m \<Rightarrow> 'a \<Rightarrow> 's \<Rightarrow> bool \<times> 's) \<Rightarrow> ('s \<Rightarrow> 'a option \<times> 's) \<Rightarrow> 's \<Rightarrow> ('m, 'a) queue_op \<Rightarrow> 's \<times> 'a queue_out" where
  "op_step push pop s (Push m x) = (case push m x s of (r, s') \<Rightarrow> (s', Pushed r))"
| "op_step push pop s Pop = (case pop s of (r, s') \<Rightarrow> (s', Popped r))"

fun op_run ::
    "('m \<Rightarrow> 'a \<Rightarrow> 's \<Rightarrow> bool \<times> 's) \<Rightarrow> ('s \<Rightarrow> 'a option \<times> 's) \<Rightarrow> 's \<Rightarrow> ('m, 'a) queue_op list \<Rightarrow> 'a queue_out list" where
  "op_run push pop s [] = []"
| "op_run push pop s (p # ps) = (case op_step push pop s p of (s', r) \<Rightarrow> r # op_run push pop s' ps)"

text \<open>Every push of a run is admissible when it is made: its environment is not in use, its element can be kept.\<close>

fun fresh_run ::
    "('m \<Rightarrow> 'a \<Rightarrow> 's \<Rightarrow> bool) \<Rightarrow> ('m \<Rightarrow> 'a \<Rightarrow> 's \<Rightarrow> bool \<times> 's) \<Rightarrow> ('s \<Rightarrow> 'a option \<times> 's) \<Rightarrow> 's \<Rightarrow> ('m, 'a) queue_op list \<Rightarrow> bool" where
  "fresh_run fresh push pop s [] \<longleftrightarrow> True"
| "fresh_run fresh push pop s (p # ps) \<longleftrightarrow>
     (case p of Push m x \<Rightarrow> fresh m x s | Pop \<Rightarrow> True)
     \<and> fresh_run fresh push pop (fst (op_step push pop s p)) ps"

locale fifo =
  fixes rel :: "'a list \<Rightarrow> 's \<Rightarrow> bool"
    and fresh :: "'m \<Rightarrow> 'a \<Rightarrow> 's \<Rightarrow> bool"
    and avail :: "'m \<Rightarrow> bool"
    and cap :: "'s \<Rightarrow> nat"
    and push :: "'m \<Rightarrow> 'a \<Rightarrow> 's \<Rightarrow> bool \<times> 's"
    and pop :: "'s \<Rightarrow> 'a option \<times> 's"
  assumes push_ok: "rel xs s \<Longrightarrow> fresh m x s \<Longrightarrow> length xs < cap s \<Longrightarrow> avail m \<Longrightarrow>
      \<exists>s'. push m x s = (True, s') \<and> rel (xs @ [x]) s' \<and> cap s' = cap s"
    and push_full: "rel xs s \<Longrightarrow> cap s \<le> length xs \<or> \<not> avail m \<Longrightarrow> push m x s = (False, s)"
    and pop_empty: "rel [] s \<Longrightarrow> pop s = (None, s)"
    and pop_cons: "rel (x # xs) s \<Longrightarrow> \<exists>s'. pop s = (Some x, s') \<and> rel xs s' \<and> cap s' = cap s"
begin

lemma step_refines:
  assumes "rel xs s" and "case p of Push m x \<Rightarrow> fresh m x s | Pop \<Rightarrow> True"
  shows "\<exists>s' xs' r. op_step push pop s p = (s', r) \<and> spec_step avail (cap s) xs p = (xs', r)
           \<and> rel xs' s' \<and> cap s' = cap s"
proof (cases p)
  case (Push m x)
  then show ?thesis
    using assms push_ok [of xs s m x] push_full [of xs s m x]
    by (cases "length xs < cap s \<and> avail m") (auto simp: not_less)
next
  case Pop
  then show ?thesis
    using assms pop_empty pop_cons by (cases xs) (force)+
qed

lemma run_refines:
  "rel xs s \<Longrightarrow> fresh_run fresh push pop s ps \<Longrightarrow> op_run push pop s ps = spec_run avail (cap s) xs ps"
proof (induction ps arbitrary: xs s)
  case (Cons p ps)
  then obtain s' xs' r where *: "op_step push pop s p = (s', r)" "spec_step avail (cap s) xs p = (xs', r)"
      "rel xs' s'" "cap s' = cap s"
    using step_refines by (metis fresh_run.simps(2))
  then show ?case using Cons by auto
qed simp

end

subsection \<open>The heap queue as a bounded queue\<close>

text \<open>
  \<open>queue_pop_opt\<close> and \<open>queue_push_bool\<close> are the operations with their results as an option and a
  truth value; \<open>queue_cap\<close> is the number of elements the queue accepts.
\<close>

definition queue_fresh :: "addr \<Rightarrow> addr \<Rightarrow> node_heap \<times> Queue \<Rightarrow> bool" where
  "queue_fresh m d st \<longleftrightarrow> m = NULL \<or> fst st m = None"

definition queue_cap :: "node_heap \<times> Queue \<Rightarrow> nat" where
  "queue_cap st = (if q_limit (snd st) = 0 then 0xffff else unat (q_limit (snd st)))"

definition queue_pop_opt :: "node_heap \<times> Queue \<Rightarrow> addr option \<times> node_heap \<times> Queue" where
  "queue_pop_opt st = (if queue_is_empty (snd st) then (None, st) else apfst Some (queue_pop st))"

definition queue_push_bool :: "addr \<Rightarrow> addr \<Rightarrow> node_heap \<times> Queue \<Rightarrow> bool \<times> node_heap \<times> Queue" where
  "queue_push_bool m d st = apfst (\<lambda>r. r \<noteq> 0) (queue_push m d st)"

definition queue_new :: "u16 \<Rightarrow> node_heap \<times> Queue" where
  "queue_new limit = (Map.empty, \<lparr>q_start = NULL, q_end = NULL, q_limit = limit, q_count = 0\<rparr>)"

lemma queue_push_full:
  assumes "queue_rel ds st" and "queue_cap st \<le> length ds \<or> m = NULL"
  shows "queue_push m d st = (0, st)"
proof -
  obtain h q where st: "st = (h, q)" by (cases st)
  have c: "unat (q_count q) = length ds"
    using assms(1) by (auto simp: queue_rel_def queue_abs_def st)
  have m: "unat (0xffff :: u16) = 65535" by simp
  show ?thesis
    using assms(2) c u16_less_65536 [of "q_count q"]
    by (auto simp: queue_push_def st queue_cap_def word_le_nat_alt word_unat_eq_iff m Let_def
        split: if_splits)
qed

lemma queue_push_ok:
  assumes "queue_abs as ds (h, q)" and "queue_fresh m d (h, q)" and "length ds < queue_cap (h, q)" and "m \<noteq> NULL"
  shows "\<exists>h' q'. queue_push m d (h, q) = (1, h', q') \<and> queue_abs (as @ [m]) (ds @ [d]) (h', q') \<and> q_limit q' = q_limit q"
proof -
  have nl: "node_list h (q_end q) as" and dist: "distinct as" and c: "unat (q_count q) = length as"
    and ds: "ds = map (\<lambda>a. case h a of Some n \<Rightarrow> node_data n | None \<Rightarrow> NULL) as"
    and la: "as \<noteq> [] \<Longrightarrow> q_start q = last as"
    using assms(1) by (auto simp: queue_abs_def)
  have fr: "h m = None" "m \<noteq> 0" using assms(2,4) by (auto simp: queue_fresh_def)
  then have notin: "m \<notin> set as" using node_list_alloc [OF nl] by fastforce
  have lt: "length as < 65535" 
    using assms(3) c u16_less_65536 [of "q_count q"] u16_less_65536 [of "q_limit q"] by (auto simp: queue_cap_def ds split: if_splits)
  have c': "unat (q_count q + 1) = Suc (length as)"
    using c lt by (simp add: unat_plus_simple [THEN iffD1] no_olen_add_nat unat_add_lem)
  have g: "\<not> (q_limit q \<noteq> 0 \<and> q_limit q \<le> q_count q)" "q_count q \<noteq> 0xffff"
    using assms(3) c lt by (auto simp: queue_cap_def ds word_le_nat_alt split: if_splits)
  have cap: "q_limit q \<noteq> 0 \<Longrightarrow> Suc (length as) \<le> unat (q_limit q)"
    using assms(3) by (auto simp: queue_cap_def ds)
  show ?thesis
  proof (cases "as = []")
    case True
    then have "q_end q = 0" using nl by simp
    then show ?thesis using True fr g c' cap ds
      by (auto simp: queue_push_def queue_is_empty_def queue_abs_def Let_def)
  next
    case False
    then obtain n where n: "h (last as) = Some n" using node_list_alloc [OF nl] last_in_set by blast
    have ne: "last as \<noteq> m" using notin False by auto
    have e: "q_end q \<noteq> 0" using nl False by (cases as) auto
    have "map (\<lambda>a. case (h(m \<mapsto> \<lparr>next_node = NULL, node_data = d\<rparr>, last as \<mapsto> n\<lparr>next_node := m\<rparr>)) a of Some n \<Rightarrow> node_data n | None \<Rightarrow> NULL) as = ds"
      using notin n by (auto simp: ds)
    then show ?thesis using False fr g c' cap ne e n la node_list_snoc [OF nl dist False n fr(2) notin] dist notin
      by (auto simp: queue_push_def queue_is_empty_def queue_abs_def Let_def)
  qed
qed

lemma queue_pop_cons:
  assumes "queue_abs as (d # ds) (h, q)"
  shows "\<exists>h' q'. queue_pop (h, q) = (d, h', q') \<and> q_end q \<noteq> NULL \<and> queue_abs (tl as) ds (h', q') \<and> q_limit q' = q_limit q"
proof -
  obtain a as' where as: "as = a # as'" using assms by (cases as) (auto simp: queue_abs_def)
  then obtain n where n: "h a = Some n" "q_end q = a" "a \<noteq> 0" "node_list h (next_node n) as'" "node_data n = d"
    using assms by (auto simp: queue_abs_def split: option.splits)
  have c: "unat (q_count q - 1) = length as'"
    using assms unat_minus_one [of "q_count q"] by (cases "q_count q = 0") (auto simp: as queue_abs_def)
  have fr: "node_list (h(a := None)) (next_node n) as'" 
    using assms n node_list_frame by (auto simp: queue_abs_def as)
  have ds: "ds = map (\<lambda>a. case h a of Some n \<Rightarrow> node_data n | None \<Rightarrow> NULL) as'" "a \<notin> set as'"
    using assms by (auto simp: queue_abs_def as)
  then have "ds = map (\<lambda>b. case (h(a := None)) b of Some n \<Rightarrow> node_data n | None \<Rightarrow> NULL) as'"
    by auto
  then show ?thesis using assms n fr c
    by (auto simp: queue_pop_def queue_is_empty_def queue_abs_def as split: if_splits)
qed

interpretation heap_queue: fifo queue_rel queue_fresh "\<lambda>m. m \<noteq> NULL" queue_cap queue_push_bool queue_pop_opt
proof
  fix xs s m x
  assume a: "queue_rel xs s" "queue_fresh m x s" "length xs < queue_cap s" "m \<noteq> NULL"
  show "\<exists>s'. queue_push_bool m x s = (True, s') \<and> queue_rel (xs @ [x]) s' \<and> queue_cap s' = queue_cap s"
    using a queue_push_ok [of _ xs "fst s" "snd s" m x]
    by (fastforce simp: queue_rel_def queue_push_bool_def queue_cap_def)
next
  fix xs s m x
  assume "queue_rel xs s" "queue_cap s \<le> length xs \<or> \<not> m \<noteq> NULL"
  then show "queue_push_bool m x s = (False, s)"
    using queue_push_full by (auto simp: queue_push_bool_def)
next
  fix s assume "queue_rel [] s"
  then show "queue_pop_opt s = (None, s)"
    by (auto simp: queue_rel_def queue_abs_def queue_pop_opt_def queue_is_empty_def)
next
  fix x xs s assume "queue_rel (x # xs) s"
  then show "\<exists>s'. queue_pop_opt s = (Some x, s') \<and> queue_rel xs s' \<and> queue_cap s' = queue_cap s"
    using queue_pop_cons [of _ x xs "fst s" "snd s"]
    by (fastforce simp: queue_rel_def queue_pop_opt_def queue_is_empty_def queue_cap_def)
qed

text \<open>
  C5: the queue is a bounded first-in first-out queue.  From a state that represents the
  list \<open>ds\<close>, any sequence of pushes and pops returns, call by call, what the list
  specification returns: a push succeeds iff the limit (65535 elements when it is zero) is not
  reached and \<^verbatim>\<open>malloc\<close> succeeded, and a pop returns the oldest element, as long as
  \<^verbatim>\<open>malloc\<close> returns addresses that are not in use.\<close>

theorem queue_refines_fifo:
  assumes "queue_rel ds st" and "fresh_run queue_fresh queue_push_bool queue_pop_opt st ops"
  shows "op_run queue_push_bool queue_pop_opt st ops = spec_run (\<lambda>m. m \<noteq> NULL) (queue_cap st) ds ops"
  using assms by (rule heap_queue.run_refines)

lemma queue_new_rel: "queue_rel [] (queue_new l)"
  by (auto simp: queue_rel_def queue_abs_def queue_new_def intro: exI [of _ "[]"])

theorem queue_refines_fifo_witness:
  "op_run queue_push_bool queue_pop_opt (queue_new 2) [Push 7 1, Push NULL 2, Push 8 3, Push 9 4, Pop, Push 7 5, Pop, Pop, Pop] =
   [Pushed True, Pushed False, Pushed True, Pushed False, Popped (Some 1), Pushed True, Popped (Some 3), Popped (Some 5), Popped None]"
proof -
  have "fresh_run queue_fresh queue_push_bool queue_pop_opt (queue_new 2) [Push 7 1, Push NULL 2, Push 8 3, Push 9 4, Pop, Push 7 5, Pop, Pop, Pop]"
    by (simp add: queue_fresh_def queue_new_def queue_push_bool_def queue_pop_opt_def queue_push_def queue_pop_def queue_is_empty_def Let_def)
  from queue_refines_fifo [OF queue_new_rel this]
  show ?thesis by (simp add: queue_cap_def queue_new_def)
qed

lemma queue_peek_pop: "queue_peek st = fst (queue_pop st)"
  by (cases st) (simp add: queue_peek_def queue_pop_def split: option.split)

end
