(* ===== verification/E6_Scheduler.thy ===== *)
theory E6_Scheduler
  imports E6_Prelude
begin

text \<open>
  The timer scheduler of \<^verbatim>\<open>core/scheduler\<close>: the control blocks of \<^verbatim>\<open>scheduler.h\<close>, the calls on
  dynamic timers of \<^verbatim>\<open>dynamic.c\<close>, the millitick and the dispatch loop of \<^verbatim>\<open>scheduler.c\<close>.

  The table \<^verbatim>\<open>scheduler_static_timers\<close> is generated by the build and is the argument
  \<open>statics\<close>.  A timer function is arbitrary firmware code; what it does to the scheduler it
  does through the calls of \<^verbatim>\<open>dynamic.h\<close>, with milliticks in between, so the argument
  \<open>prog\<close> gives the calls a timer function makes, depending on the scheduler's state.
  \<open>calls\<close> is a log of the invocations, which no code reads.
\<close>

subsection \<open>Control blocks\<close>

text \<open>A pointer to a timer function.\<close>

type_synonym timer_t = nat

definition SCHEDULER_OK :: int where "SCHEDULER_OK = 0"
definition SCHEDULER_AGAIN :: int where "SCHEDULER_AGAIN = -2"
definition SCHEDULER_INVAL :: int where "SCHEDULER_INVAL = -3"
definition SCHEDULER_INTERVAL_MAX :: u16 where "SCHEDULER_INTERVAL_MAX = 0xffff"

definition TIMER_DELETED :: u8 where "TIMER_DELETED = 0x00"
definition TIMER_SUSPENDED :: u8 where "TIMER_SUSPENDED = 0x01"
definition TIMER_RUNNABLE :: u8 where "TIMER_RUNNABLE = 0x02"
definition TIMER_RUNNING :: u8 where "TIMER_RUNNING = 0x04"
definition TIMER_ONESHOT :: u8 where "TIMER_ONESHOT = 0x10"

record static_timer_func_t =
  sf_timer :: timer_t
  sf_interval :: u16

record static_timer_cb_t =
  st_delay :: u16
  st_state :: u8

record dynamic_timer_cb_t =
  dt_timer :: timer_t
  dt_delay :: u16
  dt_interval :: u16
  dt_state :: u8

datatype invocation = Static nat timer_t | Dynamic nat timer_t

record sched =
  static_cb :: "static_timer_cb_t list"
  dynamic_cb :: "dynamic_timer_cb_t list"
  calls :: "invocation list"

abbreviation upd_dynamic :: "nat \<Rightarrow> (dynamic_timer_cb_t \<Rightarrow> dynamic_timer_cb_t) \<Rightarrow> sched \<Rightarrow> sched" where
  "upd_dynamic i f s \<equiv> s\<lparr>dynamic_cb := (dynamic_cb s)[i := f (dynamic_cb s ! i)]\<rparr>"


subsection \<open>Calls on dynamic timers\<close>

text \<open>The cast \<^verbatim>\<open>(int8_t)index\<close>.\<close>

definition handle_of :: "nat \<Rightarrow> int" where
  "handle_of i = sint (of_nat i :: u8)"

fun free_slot :: "nat \<Rightarrow> dynamic_timer_cb_t list \<Rightarrow> nat option" where
  "free_slot i [] = None"
| "free_slot i (t # ts) = (if dt_state t = TIMER_DELETED then Some i else free_slot (Suc i) ts)"

definition add_timer :: "timer_t \<Rightarrow> u16 \<Rightarrow> u16 \<Rightarrow> u8 \<Rightarrow> sched \<Rightarrow> int \<times> sched" where
  "add_timer func delay interval flags s =
     (case free_slot 0 (dynamic_cb s) of
        Some i \<Rightarrow>
          (handle_of i,
           upd_dynamic i (\<lambda>_. \<lparr>dt_timer = func, dt_delay = delay, dt_interval = interval,
                               dt_state = flags\<rparr>) s)
      | None \<Rightarrow> (SCHEDULER_AGAIN, s))"

definition scheduler_add_timer :: "timer_t \<Rightarrow> u16 \<Rightarrow> bool \<Rightarrow> sched \<Rightarrow> int \<times> sched" where
  "scheduler_add_timer func interval suspended =
     add_timer func interval interval (if suspended then TIMER_SUSPENDED else TIMER_RUNNABLE)"

definition scheduler_add_oneshot_timer :: "timer_t \<Rightarrow> u16 \<Rightarrow> sched \<Rightarrow> int \<times> sched" where
  "scheduler_add_oneshot_timer func delay =
     add_timer func delay 0 (TIMER_ONESHOT OR TIMER_RUNNABLE)"

definition valid_handle :: "int \<Rightarrow> sched \<Rightarrow> bool" where
  "valid_handle which s \<longleftrightarrow> which \<ge> 0 \<and> which < int (length (dynamic_cb s))"

definition scheduler_delete_timer :: "int \<Rightarrow> sched \<Rightarrow> int \<times> sched" where
  "scheduler_delete_timer which s =
     (if valid_handle which s then
        (SCHEDULER_OK,
         upd_dynamic (nat which)
           (\<lambda>t. t\<lparr>dt_delay := SCHEDULER_INTERVAL_MAX, dt_state := TIMER_DELETED\<rparr>) s)
      else (SCHEDULER_INVAL, s))"

definition scheduler_suspend_timer :: "int \<Rightarrow> sched \<Rightarrow> int \<times> sched" where
  "scheduler_suspend_timer which s =
     (if valid_handle which s then
        (SCHEDULER_OK,
         upd_dynamic (nat which)
           (\<lambda>t. t\<lparr>dt_state := (dt_state t AND NOT TIMER_RUNNABLE) OR TIMER_SUSPENDED\<rparr>) s)
      else (SCHEDULER_INVAL, s))"

definition scheduler_resume_timer :: "int \<Rightarrow> sched \<Rightarrow> int \<times> sched" where
  "scheduler_resume_timer which s =
     (if valid_handle which s then
        (SCHEDULER_OK,
         upd_dynamic (nat which)
           (\<lambda>t. t\<lparr>dt_state := (dt_state t AND NOT TIMER_SUSPENDED) OR TIMER_RUNNABLE\<rparr>) s)
      else (SCHEDULER_INVAL, s))"

definition scheduler_reset_timer :: "int \<Rightarrow> sched \<Rightarrow> int \<times> sched" where
  "scheduler_reset_timer which s =
     (if valid_handle which s then
        (SCHEDULER_OK,
         upd_dynamic (nat which)
           (\<lambda>t. t\<lparr>dt_delay := dt_interval t,
                  dt_state := (dt_state t AND NOT TIMER_SUSPENDED) OR TIMER_RUNNABLE\<rparr>) s)
      else (SCHEDULER_INVAL, s))"

definition scheduler_get_timer_interval :: "int \<Rightarrow> sched \<Rightarrow> u16" where
  "scheduler_get_timer_interval which s =
     (if valid_handle which s then dt_interval (dynamic_cb s ! nat which) else 0)"

definition scheduler_set_timer_interval :: "int \<Rightarrow> u16 \<Rightarrow> sched \<Rightarrow> int \<times> sched" where
  "scheduler_set_timer_interval which new_interval s =
     (if valid_handle which s then
        (SCHEDULER_OK, upd_dynamic (nat which) (\<lambda>t. t\<lparr>dt_interval := new_interval\<rparr>) s)
      else (SCHEDULER_INVAL, s))"

subsection \<open>Millitick\<close>

definition static_tick :: "static_timer_cb_t \<Rightarrow> static_timer_cb_t" where
  "static_tick c =
     (if st_state c AND TIMER_RUNNABLE \<noteq> 0 \<and> st_delay c > 0
      then c\<lparr>st_delay := st_delay c - 1\<rparr> else c)"

definition dynamic_tick :: "dynamic_timer_cb_t \<Rightarrow> dynamic_timer_cb_t" where
  "dynamic_tick t =
     (if dt_state t AND TIMER_RUNNABLE \<noteq> 0 \<and> dt_delay t > 0
      then t\<lparr>dt_delay := dt_delay t - 1\<rparr> else t)"

definition scheduler_tick :: "sched \<Rightarrow> sched" where
  "scheduler_tick s =
     s\<lparr>static_cb := map static_tick (static_cb s), dynamic_cb := map dynamic_tick (dynamic_cb s)\<rparr>"

subsection \<open>Dispatch\<close>

datatype sched_op =
    Add timer_t u16 bool
  | Add_oneshot timer_t u16
  | Delete int
  | Suspend int
  | Resume int
  | Reset int
  | Set_interval int u16
  | Tick

fun sched_api :: "sched \<Rightarrow> sched_op \<Rightarrow> sched" where
  "sched_api s (Add f n b) = snd (scheduler_add_timer f n b s)"
| "sched_api s (Add_oneshot f n) = snd (scheduler_add_oneshot_timer f n s)"
| "sched_api s (Delete h) = snd (scheduler_delete_timer h s)"
| "sched_api s (Suspend h) = snd (scheduler_suspend_timer h s)"
| "sched_api s (Resume h) = snd (scheduler_resume_timer h s)"
| "sched_api s (Reset h) = snd (scheduler_reset_timer h s)"
| "sched_api s (Set_interval h n) = snd (scheduler_set_timer_interval h n s)"
| "sched_api s Tick = scheduler_tick s"

type_synonym timer_prog = "timer_t \<Rightarrow> sched \<Rightarrow> sched_op list"

definition call_timer :: "timer_prog \<Rightarrow> timer_t \<Rightarrow> sched \<Rightarrow> sched" where
  "call_timer prog f s = foldl sched_api s (prog f s)"


text \<open>
  The loop over the dynamic timers reloads the delay from
  \<^verbatim>\<open>scheduler_static_timers[i].interval\<close>, and reads that table, which lives in program memory,
  without \<^verbatim>\<open>pgm_read_word\<close>.  The argument \<open>ram\<close> is what such a read returns: on the AVR the
  data memory at the table's program address.
\<close>

definition dispatch_dynamic :: "(nat \<Rightarrow> u16) \<Rightarrow> timer_prog \<Rightarrow> sched \<Rightarrow> nat \<Rightarrow> sched" where
  "dispatch_dynamic ram prog s i =
     (if dt_state (dynamic_cb s ! i) AND TIMER_RUNNABLE = TIMER_RUNNABLE
         \<and> dt_delay (dynamic_cb s ! i) = 0
      then
        let s = upd_dynamic i
                  (\<lambda>t. t\<lparr>dt_state := (dt_state t AND NOT TIMER_RUNNABLE) OR TIMER_RUNNING\<rparr>) s;
            f = dt_timer (dynamic_cb s ! i);
            s = call_timer prog f (s\<lparr>calls := calls s @ [Dynamic i f]\<rparr>);
            state = dt_state (dynamic_cb s ! i)
        in if state AND TIMER_ONESHOT = TIMER_ONESHOT then
             upd_dynamic i
               (\<lambda>t. t\<lparr>dt_delay := SCHEDULER_INTERVAL_MAX, dt_state := TIMER_DELETED\<rparr>) s
           else if state \<noteq> TIMER_DELETED \<and> state AND TIMER_SUSPENDED \<noteq> TIMER_SUSPENDED then
             upd_dynamic i
               (\<lambda>t. t\<lparr>dt_delay := ram i,
                      dt_state := (dt_state t AND NOT TIMER_RUNNING) OR TIMER_RUNNABLE\<rparr>) s
           else
             upd_dynamic i (\<lambda>t. t\<lparr>dt_state := dt_state t AND NOT TIMER_RUNNING\<rparr>) s
      else s)"


subsection \<open>Flags\<close>

lemmas timer_flags = TIMER_DELETED_def TIMER_SUSPENDED_def TIMER_RUNNABLE_def TIMER_RUNNING_def
  TIMER_ONESHOT_def


text \<open>
  The legal states of a timer: no reserved bit, and not suspended and runnable at once.
\<close>

definition flags_ok :: "u8 \<Rightarrow> bool" where
  "flags_ok st \<longleftrightarrow> \<not> (bit st 0 \<and> bit st 1) \<and> \<not> bit st 3 \<and> \<not> bit st 5 \<and> \<not> bit st 6 \<and> \<not> bit st 7"

text \<open>
  \<open>sched_ok S N r s\<close>: the two arrays have their sizes, no static timer is anything but
  runnable, every dynamic timer is in a legal state, and only those in \<open>r\<close> are running.
\<close>

definition sched_ok :: "nat \<Rightarrow> nat \<Rightarrow> nat set \<Rightarrow> nat set \<Rightarrow> sched \<Rightarrow> bool" where
  "sched_ok S N rs rd s \<longleftrightarrow>
     length (static_cb s) = S \<and> length (dynamic_cb s) = N
     \<and> (\<forall>i<S. if i \<in> rs then st_state (static_cb s ! i) = TIMER_RUNNING
              else st_state (static_cb s ! i) = TIMER_RUNNABLE)
     \<and> (\<forall>i<N. flags_ok (dt_state (dynamic_cb s ! i))
              \<and> (bit (dt_state (dynamic_cb s ! i)) 2 \<longrightarrow> i \<in> rd))"

lemma free_slot_bounds:
  "free_slot i ts = Some j \<Longrightarrow> i \<le> j \<and> j < i + length ts \<and> dt_state (ts ! (j - i)) = TIMER_DELETED
     \<and> (\<forall>k<j - i. dt_state (ts ! k) \<noteq> TIMER_DELETED)"
proof (induction ts arbitrary: i)
  case (Cons t ts)
  show ?case
  proof (cases "dt_state t = TIMER_DELETED")
    case False
    then have IH: "Suc i \<le> j" "j < Suc i + length ts" "dt_state (ts ! (j - Suc i)) = TIMER_DELETED"
      "\<forall>k<j - Suc i. dt_state (ts ! k) \<noteq> TIMER_DELETED"
      using Cons.prems Cons.IH [of "Suc i"] by simp_all
    then obtain d where "j = Suc (i + d)" by (metis Suc_le_D add_Suc le_Suc_ex)
    then show ?thesis using IH False by (auto simp: nth_Cons split: nat.splits)
  qed (use Cons.prems in simp)
qed simp

lemma free_slot_None: "free_slot i ts = None \<longleftrightarrow> (\<forall>t\<in>set ts. dt_state t \<noteq> TIMER_DELETED)"
  by (induction ts arbitrary: i) auto

lemmas sched_api_defs = scheduler_add_timer_def scheduler_add_oneshot_timer_def add_timer_def
  scheduler_delete_timer_def scheduler_suspend_timer_def scheduler_resume_timer_def
  scheduler_reset_timer_def scheduler_set_timer_interval_def


lemma flags_ok_ops:
  "flags_ok TIMER_SUSPENDED" "flags_ok TIMER_RUNNABLE" "flags_ok TIMER_DELETED" "flags_ok (TIMER_ONESHOT OR TIMER_RUNNABLE)"
  "flags_ok st \<Longrightarrow> flags_ok ((st AND NOT TIMER_RUNNABLE) OR TIMER_SUSPENDED)"
  "flags_ok st \<Longrightarrow> flags_ok ((st AND NOT TIMER_SUSPENDED) OR TIMER_RUNNABLE)"
  "flags_ok st \<Longrightarrow> flags_ok ((st AND NOT TIMER_RUNNABLE) OR TIMER_RUNNING)"
  "flags_ok st \<Longrightarrow> \<not> bit st 0 \<Longrightarrow> flags_ok ((st AND NOT TIMER_RUNNING) OR TIMER_RUNNABLE)"
  "flags_ok st \<Longrightarrow> flags_ok (st AND NOT TIMER_RUNNING)"
  by (auto simp: flags_ok_def timer_flags bit_simps)

lemma running_ops [simp]:
  "\<not> bit TIMER_SUSPENDED 2" "\<not> bit TIMER_RUNNABLE 2" "\<not> bit TIMER_DELETED 2" "\<not> bit (TIMER_ONESHOT OR TIMER_RUNNABLE) 2"
  "bit ((st AND NOT TIMER_RUNNABLE) OR TIMER_SUSPENDED) 2 = bit st 2"
  "bit ((st AND NOT TIMER_SUSPENDED) OR TIMER_RUNNABLE) 2 = bit st 2"
  "\<not> bit ((st AND NOT TIMER_RUNNING) OR TIMER_RUNNABLE) 2"
  "\<not> bit (st AND NOT TIMER_RUNNING) 2"
  by (auto simp: timer_flags bit_simps)





subsection \<open>Invariant\<close>

lemma sched_ok_log [simp]: "sched_ok S N rs rd (s\<lparr>calls := x\<rparr>) = sched_ok S N rs rd s"
  by (simp add: sched_ok_def)













subsection \<open>Periods of static timers\<close>

text \<open>How often the timer at index \<open>i\<close> was invoked, from the log.\<close>

definition static_calls :: "nat \<Rightarrow> sched \<Rightarrow> nat" where
  "static_calls i s = length (filter (\<lambda>c. case c of Static j f \<Rightarrow> j = i | Dynamic j f \<Rightarrow> False) (calls s))"


lemma static_calls_cong: "calls s' = calls s \<Longrightarrow> static_calls i s' = static_calls i s"
  by (simp add: static_calls_def)

text \<open>No millitick occurs while a timer function runs.\<close>

definition no_tick :: "timer_prog \<Rightarrow> bool" where
  "no_tick prog \<longleftrightarrow> (\<forall>f s. Tick \<notin> set (prog f s))"

lemma api_frame [e6_frame]:
  "op \<noteq> Tick \<Longrightarrow> static_cb (sched_api s op) = static_cb s"
  "calls (sched_api s op) = calls s"
  by (cases op; simp add: sched_api_defs scheduler_tick_def split: option.split)+

lemma api_run_calls: "calls (foldl sched_api s ops) = calls s"
  by (induction ops arbitrary: s) (simp_all add: e6_frame)

lemma api_run_static: "Tick \<notin> set ops \<Longrightarrow> static_cb (foldl sched_api s ops) = static_cb s"
  by (induction ops arbitrary: s) (auto simp: e6_frame)

lemma call_frame [e6_frame]:
  "calls (call_timer prog f s) = calls s"
  "no_tick prog \<Longrightarrow> static_cb (call_timer prog f s) = static_cb s"
  by (simp_all add: call_timer_def api_run_calls api_run_static no_tick_def)










subsection \<open>One-shot timers\<close>

text \<open>The call changes the timer with handle \<open>h\<close>, or is a millitick.\<close>

fun touches :: "nat \<Rightarrow> sched_op \<Rightarrow> bool" where
  "touches h (Delete w) \<longleftrightarrow> w = int h"
| "touches h (Suspend w) \<longleftrightarrow> w = int h"
| "touches h (Resume w) \<longleftrightarrow> w = int h"
| "touches h (Reset w) \<longleftrightarrow> w = int h"
| "touches h (Set_interval w n) \<longleftrightarrow> w = int h"
| "touches h Tick \<longleftrightarrow> True"
| "touches h (Add f n b) \<longleftrightarrow> False"
| "touches h (Add_oneshot f n) \<longleftrightarrow> False"

definition spares :: "timer_prog \<Rightarrow> nat \<Rightarrow> bool" where
  "spares prog h \<longleftrightarrow> (\<forall>f s. list_all (\<lambda>op. \<not> touches h op) (prog f s))"

text \<open>\<open>slot h t s\<close>: the control block at index \<open>h\<close> is \<open>t\<close>.\<close>

definition slot :: "nat \<Rightarrow> dynamic_timer_cb_t \<Rightarrow> sched \<Rightarrow> bool" where
  "slot h t s \<longleftrightarrow> h < length (dynamic_cb s) \<and> dynamic_cb s ! h = t"

lemma slot_upd_other: "slot h t s \<Longrightarrow> i \<noteq> h \<Longrightarrow> slot h t (upd_dynamic i f s)"
  by (simp add: slot_def)

lemma slot_log: "slot h t (s\<lparr>calls := x\<rparr>) = slot h t s" "slot h t (s\<lparr>static_cb := c\<rparr>) = slot h t s"
  by (simp_all add: slot_def)

lemma slot_api:
  assumes "slot h t s" and "dt_state t \<noteq> TIMER_DELETED" and "\<not> touches h op"
  shows "slot h t (sched_api s op)"
proof -
  have "free_slot 0 (dynamic_cb s) = Some i \<Longrightarrow> i \<noteq> h" for i
    using assms(1,2) free_slot_bounds [of 0 "dynamic_cb s" i] by (auto simp: slot_def)
  moreover have "valid_handle w s \<Longrightarrow> w \<noteq> int h \<Longrightarrow> nat w \<noteq> h" for w
    by (auto simp: valid_handle_def)
  ultimately show ?thesis
    using assms by (cases op) (auto simp: sched_api_defs intro!: slot_upd_other split: option.split)
qed

lemma slot_call:
  assumes "slot h t s" and "dt_state t \<noteq> TIMER_DELETED" and "spares prog h"
  shows "slot h t (call_timer prog f s)"
proof -
  have "list_all (\<lambda>op. \<not> touches h op) ops \<Longrightarrow> slot h t s \<Longrightarrow> slot h t (foldl sched_api s ops)" for ops s
    by (induction ops arbitrary: s) (auto intro: slot_api [OF _ assms(2)])
  then show ?thesis using assms by (simp add: call_timer_def spares_def)
qed









lemma handle_of_small: "i < 128 \<Longrightarrow> handle_of i = int i"
proof -
  have "list_all (\<lambda>i. handle_of i = int i) [0..<128]" by code_simp
  then show "i < 128 \<Longrightarrow> handle_of i = int i" by (simp add: list_all_iff)
qed


subsection \<open>Properties of the scheduler\<close>

text \<open>
  The state after start-up: the generated table gives a static timer its interval as its first
  delay, and the zeroed array of dynamic timers has only deleted slots.
\<close>

definition sched_init :: "static_timer_func_t list \<Rightarrow> nat \<Rightarrow> sched" where
  "sched_init statics N =
     \<lparr>static_cb = map (\<lambda>f. \<lparr>st_delay = sf_interval f, st_state = TIMER_RUNNABLE\<rparr>) statics,
      dynamic_cb = replicate N \<lparr>dt_timer = 0, dt_delay = 0, dt_interval = 0, dt_state = TIMER_DELETED\<rparr>,
      calls = []\<rparr>"

lemma sched_init_ok: "sched_ok (length statics) N {} {} (sched_init statics N)"
  by (auto simp: sched_ok_def sched_init_def flags_ok_ops)




text \<open>
  adding a dynamic timer takes the first deleted slot, whose index is the handle, and
  changes nothing else; if no slot is free it returns \<open>SCHEDULER_AGAIN\<close> and changes nothing.\<close>

theorem add_timer_slots:
  assumes "sched_ok S N rs rd s" and "N \<le> 128" and "flags \<noteq> TIMER_DELETED"
  shows "case add_timer f d n flags s of (h, s') \<Rightarrow>
     (h = SCHEDULER_AGAIN \<and> s' = s \<and> (\<forall>i<N. dt_state (dynamic_cb s ! i) \<noteq> TIMER_DELETED))
   \<or> (0 \<le> h \<and> h < int N \<and> dt_state (dynamic_cb s ! nat h) = TIMER_DELETED
       \<and> (\<forall>i < nat h. dt_state (dynamic_cb s ! i) \<noteq> TIMER_DELETED)
       \<and> scheduler_get_timer_interval h s' = n
       \<and> s' = upd_dynamic (nat h) (\<lambda>_. \<lparr>dt_timer = f, dt_delay = d, dt_interval = n, dt_state = flags\<rparr>) s)"
proof (cases "free_slot 0 (dynamic_cb s)")
  case None
  then have "\<forall>i<N. dt_state (dynamic_cb s ! i) \<noteq> TIMER_DELETED"
    using assms(1) by (auto simp: free_slot_None sched_ok_def)
  then show ?thesis by (simp add: add_timer_def None)
next
  case (Some i)
  note b = free_slot_bounds [OF Some]
  then have iN: "i < N" using assms(1) by (simp add: sched_ok_def)
  then have h: "handle_of i = int i" using assms(2) by (simp add: handle_of_small)
  show ?thesis using b iN assms(1) Some
    by (simp add: add_timer_def h scheduler_get_timer_interval_def valid_handle_def sched_ok_def)
qed

text \<open>
  a periodic dynamic timer that is due and whose function leaves it alone is invoked and
  becomes runnable again, with the delay \<open>ram h\<close> that is read from the table of static
  timers; its own interval, which it keeps, has no influence on the new delay.\<close>

theorem dynamic_reload:
  assumes "slot h t s" and "dt_state t = TIMER_RUNNABLE" and "dt_delay t = 0" and "spares prog h"
  shows "slot h (t\<lparr>dt_delay := ram h\<rparr>) (dispatch_dynamic ram prog s h)"
proof -
  define t1 where "t1 = t\<lparr>dt_state := (dt_state t AND NOT TIMER_RUNNABLE) OR TIMER_RUNNING\<rparr>"
  define s1 where "s1 = upd_dynamic h (\<lambda>t. t\<lparr>dt_state := (dt_state t AND NOT TIMER_RUNNABLE) OR TIMER_RUNNING\<rparr>) s"
  define s2 where "s2 = call_timer prog (dt_timer t) (s1\<lparr>calls := calls s1 @ [Dynamic h (dt_timer t)]\<rparr>)"
  have s1: "slot h t1 s1" using assms(1) by (simp add: s1_def t1_def slot_def)
  have ne: "dt_state t1 \<noteq> TIMER_DELETED" by (simp add: t1_def assms(2) timer_flags)
  have s2: "slot h t1 s2" unfolding s2_def by (rule slot_call [OF _ ne assms(4)]) (simp add: slot_log s1)
  have f: "dt_timer (dynamic_cb s1 ! h) = dt_timer t" using s1 by (simp add: slot_def t1_def)
  have st: "dt_state (dynamic_cb s2 ! h) = TIMER_RUNNING" using s2 by (simp add: slot_def t1_def assms(2) timer_flags)
  have "dispatch_dynamic ram prog s h =
    upd_dynamic h (\<lambda>t. t\<lparr>dt_delay := ram h, dt_state := (dt_state t AND NOT TIMER_RUNNING) OR TIMER_RUNNABLE\<rparr>) s2"
    using assms(1,2,3) st
    unfolding dispatch_dynamic_def Let_def s1_def [symmetric] f s2_def [symmetric]
    by (simp add: slot_def timer_flags)
  then show ?thesis using s2 assms(2)
    by (simp add: slot_def t1_def timer_flags)
qed

theorem add_timer_slots_witness:
  "add_timer 9 5 0 TIMER_RUNNABLE (sched_init [] 2) =
     (0, upd_dynamic 0 (\<lambda>_. \<lparr>dt_timer = 9, dt_delay = 5, dt_interval = 0, dt_state = TIMER_RUNNABLE\<rparr>)
           (sched_init [] 2))"
proof -
  have ok: "sched_ok (length ([] :: static_timer_func_t list)) 2 {} {} (sched_init [] 2)"
    by (rule sched_init_ok)
  have "fst (add_timer 9 5 0 TIMER_RUNNABLE (sched_init [] 2)) = 0"
    by (simp add: add_timer_def sched_init_def numeral_2_eq_2 handle_of_def)
  then show ?thesis
    using add_timer_slots [OF ok, where flags = TIMER_RUNNABLE and f = 9 and d = 5 and n = 0]
    by (auto simp: timer_flags SCHEDULER_AGAIN_def split: prod.splits)
qed

theorem dynamic_reload_witness:
  "slot 0 \<lparr>dt_timer = 9, dt_delay = 7, dt_interval = 1000, dt_state = TIMER_RUNNABLE\<rparr>
     (dispatch_dynamic (\<lambda>_. 7) (\<lambda>_ _. [])
        \<lparr>static_cb = [], dynamic_cb =
           [\<lparr>dt_timer = 9, dt_delay = 0, dt_interval = 1000, dt_state = TIMER_RUNNABLE\<rparr>],
         calls = []\<rparr> 0)"
  using dynamic_reload [of 0 "\<lparr>dt_timer = 9, dt_delay = 0, dt_interval = 1000, dt_state = TIMER_RUNNABLE\<rparr>"
      "\<lparr>static_cb = [], dynamic_cb =
           [\<lparr>dt_timer = 9, dt_delay = 0, dt_interval = 1000, dt_state = TIMER_RUNNABLE\<rparr>],
         calls = []\<rparr>"
      "\<lambda>_ _. []" "\<lambda>_. 7"]
  by (simp add: slot_def spares_def)

end
