(* ===== verification/E6_Zbus.thy ===== *)
theory E6_Zbus
  imports E6_Prelude
begin

text \<open>
  The ZBus link layer of \<^verbatim>\<open>protocols/zbus/zbus.c\<close>: a half-duplex serial bus with a start and a stop
  sequence and an escape character, driven by the two interrupts of the USART and a periodic
  timer.  The state holds the file's variables, the packet buffer (\<^verbatim>\<open>zbus_buf\<close>, of
  \<^verbatim>\<open>ZBUS_BUFFER_LEN\<close> bytes), the mode of the USART control register and, as a log, the bytes
  written to the data register.  The lock of the uIP buffer belongs to the network stack: the
  result of \<^verbatim>\<open>uip_buf_lock\<close> is an argument of the receive interrupt, and
  \<^verbatim>\<open>uip_buf_unlock\<close> is counted.  Status LEDs and debug output are left out; the build is the one
  with \<^verbatim>\<open>ZBUS_ECMD\<close> and a 16-bit \<^verbatim>\<open>zbus_index_t\<close>.
\<close>

subsection \<open>State and operations\<close>

definition ZBUS_START :: u8 where "ZBUS_START = ch_0"
definition ZBUS_STOP :: u8 where "ZBUS_STOP = ch_1"

text \<open>The settings of \<^verbatim>\<open>UCSRB\<close> the code writes: transmitter on, receiver on, all off.\<close>

datatype usart_mode = Usart_tx | Usart_rx | Usart_off

record zbus =
  send_escape_data :: u8
  recv_escape_data :: u8
  bus_blocked :: u8
  zbus_index :: u16
  zbus_txlen :: u16
  zbus_rxlen :: u16
  zbus_buf :: "u8 list"
  zbus_rx_frameerror :: u16
  zbus_rx_overflow :: u16
  zbus_rx_parityerror :: u16
  zbus_rx_bufferfull :: u16
  zbus_rx_count :: u16
  zbus_tx_count :: u16
  ucsrb :: usart_mode
  sent :: "u8 list"
  unlocks :: nat

definition write_udr :: "u8 \<Rightarrow> zbus \<Rightarrow> zbus" where
  "write_udr b s = s\<lparr>sent := sent s @ [b]\<rparr>"

text \<open>The function \<^verbatim>\<open>__zbus_txstart\<close>.\<close>

definition zbus_txstart_go :: "zbus \<Rightarrow> zbus" where
  "zbus_txstart_go s =
     write_udr ch_backslash
       (s\<lparr>bus_blocked := 3, ucsrb := Usart_tx, send_escape_data := ZBUS_START\<rparr>)"

definition zbus_txstart :: "u16 \<Rightarrow> zbus \<Rightarrow> zbus" where
  "zbus_txstart n s =
     (if zbus_txlen s \<noteq> 0 \<or> zbus_rxlen s \<noteq> 0 \<or> bus_blocked s \<noteq> 0 then s
      else
        let s = s\<lparr>zbus_index := 0, zbus_txlen := n\<rparr> in
        if bus_blocked s \<noteq> 0 then s else zbus_txstart_go s)"

definition zbus_rxstart :: "zbus \<Rightarrow> zbus" where
  "zbus_rxstart s = (if zbus_txlen s > 0 then s else s\<lparr>zbus_rxlen := 0, ucsrb := Usart_rx\<rparr>)"

definition zbus_rxstop :: "zbus \<Rightarrow> zbus" where
  "zbus_rxstop s = s\<lparr>ucsrb := Usart_off\<rparr>"

definition zbus_rxfinish :: "zbus \<Rightarrow> u16" where
  "zbus_rxfinish s = zbus_rxlen s"

definition zbus_core_init :: "zbus \<Rightarrow> zbus" where
  "zbus_core_init s = zbus_rxstart (s\<lparr>zbus_txlen := 0, zbus_rxlen := 0, zbus_index := 0\<rparr>)"

definition zbus_core_periodic :: "zbus \<Rightarrow> zbus" where
  "zbus_core_periodic s =
     (if bus_blocked s \<noteq> 0 then
        let s = s\<lparr>bus_blocked := bus_blocked s - 1\<rparr> in
        if bus_blocked s = 0 \<and> zbus_txlen s > 0 then zbus_txstart_go s else s
      else s)"

definition tx_counted :: "u8 \<Rightarrow> zbus \<Rightarrow> zbus" where
  "tx_counted b s = write_udr b (s\<lparr>zbus_tx_count := zbus_tx_count s + 1\<rparr>)"

definition zbus_tx_isr :: "zbus \<Rightarrow> zbus" where
  "zbus_tx_isr s =
     (if send_escape_data s \<noteq> 0 then
        (tx_counted (send_escape_data s) s)\<lparr>send_escape_data := 0\<rparr>
      else if zbus_txlen s \<noteq> 0 \<and> zbus_index s < zbus_txlen s then
        let b = zbus_buf s ! unat (zbus_index s);
            s = (if b = ch_backslash
                 then tx_counted ch_backslash (s\<lparr>send_escape_data := b\<rparr>)
                 else tx_counted b s)
        in s\<lparr>zbus_index := zbus_index s + 1, bus_blocked := 3\<rparr>
      else if zbus_txlen s \<noteq> 0 then
        tx_counted ch_backslash
          (s\<lparr>zbus_txlen := 0, unlocks := unlocks s + 1, send_escape_data := ZBUS_STOP\<rparr>)
      else
        zbus_rxstart (s\<lparr>bus_blocked := 0, zbus_txlen := 0\<rparr>))"

definition append_data :: "u8 \<Rightarrow> zbus \<Rightarrow> zbus" where
  "append_data b s =
     (if unat (zbus_index s) \<ge> length (zbus_buf s) then
        s\<lparr>zbus_rx_bufferfull := zbus_rx_bufferfull s + 1\<rparr>
      else if bus_blocked s = 0 then s
      else
        s\<lparr>bus_blocked := 3, zbus_buf := (zbus_buf s)[unat (zbus_index s) := b],
          zbus_index := zbus_index s + 1\<rparr>)"

text \<open>The error flags of \<^verbatim>\<open>UCSRA\<close>.\<close>

record rx_flags =
  FE :: bool
  DOR :: bool
  UPE :: bool

definition zbus_rx_isr :: "rx_flags \<Rightarrow> bool \<Rightarrow> u8 \<Rightarrow> zbus \<Rightarrow> zbus" where
  "zbus_rx_isr flags lock_failed b s =
     (if FE flags \<or> DOR flags \<or> UPE flags then
        let s = (if FE flags then s\<lparr>zbus_rx_frameerror := zbus_rx_frameerror s + 1\<rparr> else s);
            s = (if DOR flags then s\<lparr>zbus_rx_overflow := zbus_rx_overflow s + 1\<rparr> else s)
        in (if UPE flags then s\<lparr>zbus_rx_parityerror := zbus_rx_parityerror s + 1\<rparr> else s)
      else
        let s = s\<lparr>zbus_rx_count := zbus_rx_count s + 1\<rparr> in
        if zbus_rxlen s \<noteq> 0 then s
        else if zbus_txlen s \<noteq> 0 then s
        else if recv_escape_data s \<noteq> 0 then
          let s = s\<lparr>recv_escape_data := 0\<rparr> in
          if b = ZBUS_START then
            if lock_failed then s else s\<lparr>zbus_index := 0, bus_blocked := 3\<rparr>
          else if b = ZBUS_STOP then
            let s = (if bus_blocked s \<noteq> 0 then (zbus_rxstop s)\<lparr>zbus_rxlen := zbus_index s\<rparr> else s);
                s = s\<lparr>bus_blocked := 0\<rparr>
            in if zbus_txlen s > 0 then zbus_txstart_go s else s
          else if b = ch_backslash then append_data b s
          else s
        else if b = ch_backslash then s\<lparr>recv_escape_data := 1\<rparr>
        else append_data b s)"

subsection \<open>Frames\<close>

text \<open>The byte sequence of a packet on the wire.\<close>

definition zbus_escape :: "u8 \<Rightarrow> u8 list" where
  "zbus_escape b = (if b = ch_backslash then [ch_backslash, ch_backslash] else [b])"

definition zbus_frame :: "u8 list \<Rightarrow> u8 list" where
  "zbus_frame data =
     [ch_backslash, ZBUS_START] @ concat (map zbus_escape data) @ [ch_backslash, ZBUS_STOP]"

lemmas zbus_frame_codes = ZBUS_START_def ZBUS_STOP_def

subsection \<open>Sending\<close>

text \<open>The transmitter has sent the first \<open>i\<close> of \<open>n\<close> bytes of \<open>buf\<close>.\<close>

definition sending :: "u8 list \<Rightarrow> nat \<Rightarrow> nat \<Rightarrow> nat \<Rightarrow> u8 list \<Rightarrow> zbus \<Rightarrow> bool" where
  "sending buf u i n out s \<longleftrightarrow>
     send_escape_data s = 0 \<and> zbus_buf s = buf \<and> unat (zbus_index s) = i \<and> unat (zbus_txlen s) = n
     \<and> n \<noteq> 0 \<and> n \<le> length buf \<and> sent s = out \<and> ucsrb s = Usart_tx
     \<and> unlocks s = u \<and> zbus_rxlen s = 0"

lemmas zbus_tx_defs = zbus_tx_isr_def tx_counted_def write_udr_def Let_def

lemma unat_Suc_less: "i < n \<Longrightarrow> unat (x :: u16) = i \<Longrightarrow> unat (y :: u16) = n \<Longrightarrow> unat (x + 1) = Suc i"
proof -
  assume *: "i < n" "unat x = i" "unat y = n"
  then have "Suc (unat x) < 65536" using u16_less_65536 [of y] by linarith
  then show ?thesis using * by (simp add: unat_word_ariths)
qed

lemma funpow_2: "(f ^^ 2) x = f (f x)"
  by (simp add: numeral_2_eq_2)

lemma sending_byte:
  assumes "sending buf u i n out s" and "i < n"
  shows "sending buf u (Suc i) n (out @ zbus_escape (buf ! i)) ((zbus_tx_isr ^^ length (zbus_escape (buf ! i))) s)"
proof -
  have lt: "zbus_index s < zbus_txlen s" and ne: "zbus_txlen s \<noteq> 0"
    using assms by (auto simp: sending_def word_less_nat_alt)
  have nx: "unat (zbus_index s + 1) = Suc i"
    using assms unat_Suc_less [of i n "zbus_index s" "zbus_txlen s"] by (simp add: sending_def)
  show ?thesis
    using assms lt ne nx by (auto simp: sending_def zbus_escape_def zbus_tx_defs funpow_2)
qed

lemma sending_rest:
  "sending buf u i n out s \<Longrightarrow> i \<le> n \<Longrightarrow>
   sending buf u n n (out @ concat (map zbus_escape (drop i (take n buf))))
     ((zbus_tx_isr ^^ length (concat (map zbus_escape (drop i (take n buf))))) s)"
proof (induction "n - i" arbitrary: i out s)
  case 0
  then show ?case by simp
next
  case (Suc k)
  then have i: "i < n" "n \<le> length buf" by (auto simp: sending_def)
  then have d: "drop i (take n buf) = buf ! i # drop (Suc i) (take n buf)"
    by (subst Cons_nth_drop_Suc [symmetric]) simp_all
  define s1 where "s1 = (zbus_tx_isr ^^ length (zbus_escape (buf ! i))) s"
  have "sending buf u (Suc i) n (out @ zbus_escape (buf ! i)) s1"
    unfolding s1_def using sending_byte Suc.prems i by blast
  from Suc.hyps(1) [OF _ this] Suc.hyps(2) i
  have "sending buf u n n (out @ zbus_escape (buf ! i) @ concat (map zbus_escape (drop (Suc i) (take n buf))))
     ((zbus_tx_isr ^^ length (concat (map zbus_escape (drop (Suc i) (take n buf))))) s1)"
    by simp
  then show ?case
    by (simp add: d s1_def funpow_add add.commute [of "length (zbus_escape (buf ! i))"])
qed

text \<open>Nothing to send, nothing received, nobody talking.\<close>

definition zbus_idle :: "zbus \<Rightarrow> bool" where
  "zbus_idle s \<longleftrightarrow> zbus_txlen s = 0 \<and> zbus_rxlen s = 0 \<and> bus_blocked s = 0"

lemma send_frame:
  assumes "zbus_idle s" and "n \<noteq> 0" and "unat n \<le> length (zbus_buf s)"
  defines "frame \<equiv> zbus_frame (take (unat n) (zbus_buf s))"
  defines "s' \<equiv> (zbus_tx_isr ^^ length frame) (zbus_txstart n s)"
  shows "sent s' = sent s @ frame \<and> zbus_idle s' \<and> ucsrb s' = Usart_rx \<and> unlocks s' = unlocks s + 1"
proof -
  define data where "data = concat (map zbus_escape (take (unat n) (zbus_buf s)))"
  define s1 where "s1 = zbus_tx_isr (zbus_txstart n s)"
  have n0: "unat n \<noteq> 0" using assms(2) by (simp add: unat_eq_zero)
  have 1: "sending (zbus_buf s) (unlocks s) 0 (unat n) (sent s @ [ch_backslash, ZBUS_START]) s1"
    using assms(1-3) n0
    by (auto simp: s1_def zbus_txstart_def zbus_txstart_go_def sending_def zbus_idle_def zbus_tx_defs zbus_frame_codes)
  define s2 where "s2 = (zbus_tx_isr ^^ length data) s1"
  have 2: "sending (zbus_buf s) (unlocks s) (unat n) (unat n) (sent s @ [ch_backslash, ZBUS_START] @ data) s2"
    using sending_rest [OF 1] by (simp add: data_def s2_def)
  have 3: "let t = zbus_tx_isr (zbus_tx_isr (zbus_tx_isr s2)) in
      sent t = sent s2 @ [ch_backslash, ZBUS_STOP] \<and> zbus_idle t \<and> ucsrb t = Usart_rx
      \<and> unlocks t = unlocks s + 1"
    using 2 by (auto simp: sending_def zbus_tx_defs zbus_idle_def zbus_rxstart_def zbus_frame_codes word_less_nat_alt)
  have "length frame = Suc (Suc (Suc (length data + 1)))"
    by (simp add: frame_def zbus_frame_def data_def)
  then have "s' = zbus_tx_isr (zbus_tx_isr (zbus_tx_isr s2))"
    by (simp add: s'_def s1_def s2_def funpow_swap1)
  then show ?thesis
    using 2 3 by (simp add: Let_def sending_def frame_def zbus_frame_def data_def)
qed

text \<open>
  a transmission that starts while the bus is idle puts the frame of the first \<open>n\<close>
  bytes of the buffer on the wire: the start sequence, the data with every backslash doubled and the
  stop sequence.  After one transmit interrupt per byte of the frame the driver is idle with its
  receiver switched on, and the packet buffer was released once.\<close>

theorem zbus_send_frame:
  assumes "zbus_idle s" and "n \<noteq> 0" and "unat n \<le> length (zbus_buf s)"
  shows "let frame = zbus_frame (take (unat n) (zbus_buf s));
             s' = (zbus_tx_isr ^^ length frame) (zbus_txstart n s)
         in sent s' = sent s @ frame \<and> zbus_idle s' \<and> ucsrb s' = Usart_rx
            \<and> unlocks s' = unlocks s + 1"
  using send_frame [OF assms] by (simp add: Let_def)

subsection \<open>Receiving\<close>

abbreviation rx_ok :: rx_flags where
  "rx_ok \<equiv> \<lparr>FE = False, DOR = False, UPE = False\<rparr>"

text \<open>The receiver has stored \<open>data\<close> of the packet it is in.\<close>

definition receiving :: "nat \<Rightarrow> u8 list \<Rightarrow> zbus \<Rightarrow> bool" where
  "receiving len data s \<longleftrightarrow>
     recv_escape_data s = 0 \<and> bus_blocked s \<noteq> 0 \<and> zbus_txlen s = 0 \<and> zbus_rxlen s = 0
     \<and> length (zbus_buf s) = len \<and> unat (zbus_index s) = length data \<and> length data \<le> len
     \<and> take (length data) (zbus_buf s) = data"

lemma receiving_byte:
  assumes "receiving len data s" and "length data < len" and "len < 65536"
  shows "receiving len (data @ [b]) (foldl (\<lambda>s b. zbus_rx_isr rx_ok l b s) s (zbus_escape b))"
proof -
  have nx: "unat (zbus_index s + 1) = Suc (length data)"
    using assms by (simp add: receiving_def unat_word_ariths)
  have tk: "take (Suc (length data)) ((zbus_buf s)[length data := b]) = data @ [b]"
    using assms by (simp add: receiving_def take_Suc_conv_app_nth)
  show ?thesis
    using assms nx tk
    by (auto simp: receiving_def zbus_escape_def zbus_rx_isr_def append_data_def Let_def zbus_frame_codes)
qed

lemma receiving_data:
  "receiving len data s \<Longrightarrow> length data + length rest \<le> len \<Longrightarrow> len < 65536 \<Longrightarrow>
   receiving len (data @ rest) (foldl (\<lambda>s b. zbus_rx_isr rx_ok l b s) s (concat (map zbus_escape rest)))"
proof (induction rest arbitrary: data s)
  case (Cons b rest)
  then have "receiving len (data @ [b]) (foldl (\<lambda>s b. zbus_rx_isr rx_ok l b s) s (zbus_escape b))"
    by (intro receiving_byte) auto
  from Cons.IH [OF this] Cons.prems show ?case by simp
qed simp

lemma receive_frame:
  assumes "zbus_txlen s = 0" and "zbus_rxlen s = 0" and "recv_escape_data s = 0"
    and "length data \<le> length (zbus_buf s)" and "length (zbus_buf s) < 65536"
  defines "s' \<equiv> foldl (\<lambda>s b. zbus_rx_isr rx_ok False b s) s (zbus_frame data)"
  shows "unat (zbus_rxfinish s') = length data \<and> take (length data) (zbus_buf s') = data
    \<and> ucsrb s' = Usart_off \<and> bus_blocked s' = 0 \<and> zbus_txlen s' = 0"
proof -
  define s1 where "s1 = zbus_rx_isr rx_ok False ZBUS_START (zbus_rx_isr rx_ok False ch_backslash s)"
  have 1: "receiving (length (zbus_buf s)) [] s1"
    using assms(1-3) by (simp add: s1_def receiving_def zbus_rx_isr_def Let_def zbus_frame_codes)
  define s2 where "s2 = foldl (\<lambda>s b. zbus_rx_isr rx_ok False b s) s1 (concat (map zbus_escape data))"
  have 2: "receiving (length (zbus_buf s)) data s2"
    using receiving_data [OF 1, of data False] assms by (simp add: s2_def)
  have "s' = zbus_rx_isr rx_ok False ZBUS_STOP (zbus_rx_isr rx_ok False ch_backslash s2)"
    by (simp add: s'_def s2_def s1_def zbus_frame_def)
  then show ?thesis
    using 2 by (simp add: receiving_def zbus_rx_isr_def Let_def zbus_rxfinish_def zbus_rxstop_def zbus_frame_codes)
qed

text \<open>
  C3: a packet sent by one node arrives at another: when every byte the sender writes to
  its data register reaches the receiver's interrupt without error and the receiver gets the
  lock of its buffer, the receiver ends with the packet's length and bytes.\<close>

theorem zbus_link_roundtrip:
  assumes "zbus_idle s" and "n \<noteq> 0" and "unat n \<le> length (zbus_buf s)" and "sent s = []"
    and "zbus_idle r" and "recv_escape_data r = 0" and "unat n \<le> length (zbus_buf r)" and "length (zbus_buf r) < 65536"
  shows "\<exists>k. let wire = sent ((zbus_tx_isr ^^ k) (zbus_txstart n s));
                r' = foldl (\<lambda>r b. zbus_rx_isr rx_ok False b r) r wire
            in zbus_rxfinish r' = n \<and> take (unat n) (zbus_buf r') = take (unat n) (zbus_buf s)"
proof -
  have l: "length (take (unat n) (zbus_buf s)) = unat n" using assms(3) by simp
  show ?thesis
    using send_frame [OF assms(1-3)] receive_frame [of r "take (unat n) (zbus_buf s)"] assms l
    by (intro exI [of _ "length (zbus_frame (take (unat n) (zbus_buf s)))"])
      (simp add: Let_def zbus_idle_def word_unat_eq_iff)
qed

text \<open>
  when the stop sequence of a packet is lost, the receiver still holds the buffer's lock,
  so the lock fails at the start of the next packet; that packet is not ignored but appended to
  the bytes of the unfinished one, and both are delivered as a single packet.\<close>

theorem zbus_lost_stop:
  assumes "receiving len data s" and "length data + length rest \<le> len" and "len < 65536" and "rest \<noteq> []"
  defines "s' \<equiv> foldl (\<lambda>s b. zbus_rx_isr rx_ok True b s) s (zbus_frame rest)"
  shows "unat (zbus_rxfinish s') = length data + length rest
    \<and> take (length data + length rest) (zbus_buf s') = data @ rest"
proof -
  define s1 where "s1 = zbus_rx_isr rx_ok True ZBUS_START (zbus_rx_isr rx_ok True ch_backslash s)"
  have 1: "receiving len data s1"
    using assms(1) by (simp add: s1_def receiving_def zbus_rx_isr_def Let_def zbus_frame_codes)
  define s2 where "s2 = foldl (\<lambda>s b. zbus_rx_isr rx_ok True b s) s1 (concat (map zbus_escape rest))"
  have 2: "receiving len (data @ rest) s2"
    using receiving_data [OF 1 assms(2,3)] by (simp add: s2_def)
  have "s' = zbus_rx_isr rx_ok True ZBUS_STOP (zbus_rx_isr rx_ok True ch_backslash s2)"
    by (simp add: s'_def s2_def s1_def zbus_frame_def)
  then show ?thesis
    using 2 by (simp add: receiving_def zbus_rx_isr_def Let_def zbus_rxfinish_def zbus_rxstop_def zbus_frame_codes)
qed

subsection \<open>Invariant\<close>

text \<open>
  The indices stay within the buffer, sending and receiving exclude each other, and the small
  counters and the escape state have only their intended values.
\<close>

definition zbus_ok :: "nat \<Rightarrow> zbus \<Rightarrow> bool" where
  "zbus_ok len s \<longleftrightarrow>
     len < 65536 \<and> length (zbus_buf s) = len
     \<and> unat (zbus_index s) \<le> len \<and> unat (zbus_txlen s) \<le> len \<and> unat (zbus_rxlen s) \<le> len
     \<and> (zbus_txlen s = 0 \<or> zbus_rxlen s = 0)
     \<and> bus_blocked s \<le> 3 \<and> recv_escape_data s \<le> 1
     \<and> send_escape_data s \<in> {0, ch_backslash, ZBUS_START, ZBUS_STOP}"

datatype zbus_event = TxStart u16 | RxStart | Periodic | TxIsr | RxIsr rx_flags bool u8

fun zbus_step :: "zbus \<Rightarrow> zbus_event \<Rightarrow> zbus" where
  "zbus_step s (TxStart n) = zbus_txstart n s"
| "zbus_step s RxStart = zbus_rxstart s"
| "zbus_step s Periodic = zbus_core_periodic s"
| "zbus_step s TxIsr = zbus_tx_isr s"
| "zbus_step s (RxIsr flags l b) = zbus_rx_isr flags l b s"

text \<open>Callers hand over packets that fit into the buffer.\<close>

fun zbus_valid :: "nat \<Rightarrow> zbus_event \<Rightarrow> bool" where
  "zbus_valid len (TxStart n) \<longleftrightarrow> unat n \<le> len"
| "zbus_valid len e \<longleftrightarrow> True"

lemma zbus_ok_go: "zbus_ok len s \<Longrightarrow> zbus_ok len (zbus_txstart_go s)"
  by (simp add: zbus_ok_def zbus_txstart_go_def write_udr_def)

lemma zbus_ok_txstart: "zbus_ok len s \<Longrightarrow> unat n \<le> len \<Longrightarrow> zbus_ok len (zbus_txstart n s)"
  by (auto simp: zbus_txstart_def Let_def intro!: zbus_ok_go) (auto simp: zbus_ok_def)

lemma zbus_ok_rxstart: "zbus_ok len s \<Longrightarrow> zbus_ok len (zbus_rxstart s)"
  by (auto simp: zbus_ok_def zbus_rxstart_def)

lemma u8_le_dec: "(x::u8) \<noteq> 0 \<Longrightarrow> x \<le> 3 \<Longrightarrow> x - 1 \<le> 3"
  by (simp add: word_le_nat_alt unat_minus_one)

lemma zbus_ok_periodic: "zbus_ok len s \<Longrightarrow> zbus_ok len (zbus_core_periodic s)"
  using u8_le_dec [of "bus_blocked s"]
  by (auto simp: zbus_core_periodic_def Let_def zbus_ok_def zbus_txstart_go_def write_udr_def)

lemma u16_inc_le: "unat (x::u16) < n \<Longrightarrow> n < 65536 \<Longrightarrow> unat (x + 1) \<le> n"
  by (simp add: unat_word_ariths)

lemma zbus_ok_tx_isr: "zbus_ok len s \<Longrightarrow> zbus_ok len (zbus_tx_isr s)"
  using u16_inc_le [of "zbus_index s" len]
  by (auto simp: zbus_ok_def zbus_tx_defs zbus_rxstart_def word_less_nat_alt)

lemma zbus_ok_append: "zbus_ok len s \<Longrightarrow> zbus_ok len (append_data b s)"
  using u16_inc_le [of "zbus_index s" len] by (auto simp: zbus_ok_def append_data_def)

lemma zbus_ok_counters [simp]:
  "zbus_ok len (s\<lparr>zbus_rx_frameerror := x\<rparr>) = zbus_ok len s"
  "zbus_ok len (s\<lparr>zbus_rx_overflow := x\<rparr>) = zbus_ok len s"
  "zbus_ok len (s\<lparr>zbus_rx_parityerror := x\<rparr>) = zbus_ok len s"
  "zbus_ok len (s\<lparr>zbus_rx_count := x\<rparr>) = zbus_ok len s"
  "zbus_ok len (s\<lparr>ucsrb := m\<rparr>) = zbus_ok len s"
  by (simp_all add: zbus_ok_def)

lemma zbus_ok_parts:
  "zbus_ok len s \<Longrightarrow> zbus_ok len (s\<lparr>recv_escape_data := 0\<rparr>)"
  "zbus_ok len s \<Longrightarrow> zbus_ok len (s\<lparr>recv_escape_data := 1\<rparr>)"
  "zbus_ok len s \<Longrightarrow> zbus_ok len (s\<lparr>zbus_index := 0, bus_blocked := 3\<rparr>)"
  "zbus_ok len s \<Longrightarrow> zbus_ok len (s\<lparr>bus_blocked := 0\<rparr>)"
  "zbus_ok len s \<Longrightarrow> zbus_txlen s = 0 \<Longrightarrow> zbus_ok len (s\<lparr>zbus_rxlen := zbus_index s\<rparr>)"
  by (simp_all add: zbus_ok_def)

text \<open>The reaction to a byte that follows the escape character.\<close>

definition rx_escaped :: "bool \<Rightarrow> u8 \<Rightarrow> zbus \<Rightarrow> zbus" where
  "rx_escaped lock_failed b s =
     (if b = ZBUS_START then
        if lock_failed then s else s\<lparr>zbus_index := 0, bus_blocked := 3\<rparr>
      else if b = ZBUS_STOP then
        let s = (if bus_blocked s \<noteq> 0 then (zbus_rxstop s)\<lparr>zbus_rxlen := zbus_index s\<rparr> else s);
            s = s\<lparr>bus_blocked := 0\<rparr>
        in if zbus_txlen s > 0 then zbus_txstart_go s else s
      else if b = ch_backslash then append_data b s
      else s)"

lemma zbus_ok_stop:
  "zbus_ok len s \<Longrightarrow> zbus_txlen s = 0 \<Longrightarrow> zbus_ok len (s\<lparr>ucsrb := m, zbus_rxlen := zbus_index s, bus_blocked := 0\<rparr>)"
  by (simp add: zbus_ok_def)

lemma zbus_ok_escaped:
  assumes "zbus_ok len s" and "zbus_txlen s = 0"
  shows "zbus_ok len (rx_escaped l b s)"
  using assms zbus_ok_append [OF assms(1)] zbus_ok_stop [OF assms, of Usart_off] zbus_ok_parts [OF assms(1)]
  by (simp add: rx_escaped_def Let_def zbus_rxstop_def)

lemma zbus_ok_rx_isr: "zbus_ok len s \<Longrightarrow> zbus_ok len (zbus_rx_isr flags l b s)"
  unfolding zbus_rx_isr_def Let_def rx_escaped_def [unfolded Let_def, symmetric]
  by (simp add: zbus_ok_escaped zbus_ok_parts zbus_ok_append)

interpretation zbus: guarded_machine zbus_step "zbus_ok len" "zbus_valid len" for len
proof
  fix s e assume "zbus_ok len s" "zbus_valid len e"
  then show "zbus_ok len (zbus_step s e)"
    by (cases e) (auto intro: zbus_ok_txstart zbus_ok_rxstart zbus_ok_periodic zbus_ok_tx_isr zbus_ok_rx_isr)
qed


text \<open>The state after reset.\<close>

definition zbus_reset :: "nat \<Rightarrow> zbus" where
  "zbus_reset len =
     \<lparr>send_escape_data = 0, recv_escape_data = 0, bus_blocked = 0, zbus_index = 0, zbus_txlen = 0,
      zbus_rxlen = 0, zbus_buf = replicate len 0, zbus_rx_frameerror = 0, zbus_rx_overflow = 0,
      zbus_rx_parityerror = 0, zbus_rx_bufferfull = 0, zbus_rx_count = 0, zbus_tx_count = 0,
      ucsrb = Usart_off, sent = [], unlocks = 0\<rparr>"

text \<open>
  C26: after start-up, in every sequence of calls, timer runs, and receive and transmit
  interrupts, with any received bytes and any line errors, the buffer is never accessed out of
  bounds and the driver never holds a packet to send and a received one at once.\<close>

theorem zbus_invariant:
  assumes "len < 65536" and "list_all (zbus_valid len) es"
  shows "zbus_ok len (foldl zbus_step (zbus_core_init (zbus_reset len)) es)"
proof (rule zbus.inv_run [OF _ assms(2)])
  show "zbus_ok len (zbus_core_init (zbus_reset len))"
    using assms(1) by (simp add: zbus_ok_def zbus_core_init_def zbus_reset_def zbus_rxstart_def)
qed

theorem zbus_invariant_witness:
  "zbus_ok 100 (foldl zbus_step (zbus_core_init (zbus_reset 100)) [RxIsr rx_ok False ch_backslash, TxStart 100, TxIsr])"
  by (rule zbus_invariant) simp_all

theorem zbus_send_frame_witness:
  "let s = (zbus_reset 3)\<lparr>zbus_buf := [ch_backslash, 7, 9]\<rparr>;
       wire = [ch_backslash, ch_0, ch_backslash, ch_backslash, 7, ch_backslash, ch_1]
   in zbus_idle s \<and> sent ((zbus_tx_isr ^^ length wire) (zbus_txstart 2 s)) = wire"
proof -
  let ?s = "(zbus_reset 3)\<lparr>zbus_buf := [ch_backslash, 7, 9]\<rparr>"
  have f: "zbus_frame (take (unat (2 :: u16)) (zbus_buf ?s)) =
      [ch_backslash, ch_0, ch_backslash, ch_backslash, 7, ch_backslash, ch_1]"
    by code_simp
  have i: "zbus_idle ?s" "(2 :: u16) \<noteq> 0" "unat (2 :: u16) \<le> length (zbus_buf ?s)" "sent ?s = []"
    by (simp_all add: zbus_idle_def zbus_reset_def)
  show ?thesis
    using zbus_send_frame [OF i(1-3)] i(1) unfolding f i(4) Let_def by simp
qed

theorem zbus_link_roundtrip_witness:
  "\<exists>k. let wire = sent ((zbus_tx_isr ^^ k) (zbus_txstart 2 (zbus_reset 3)));
          r' = foldl (\<lambda>r b. zbus_rx_isr rx_ok False b r) (zbus_reset 4) wire
      in zbus_rxfinish r' = 2 \<and> take 2 (zbus_buf r') = take 2 (zbus_buf (zbus_reset 3))"
proof -
  have "zbus_idle (zbus_reset 3)" "unat (2 :: u16) \<le> length (zbus_buf (zbus_reset 3))"
    "sent (zbus_reset 3) = []" "zbus_idle (zbus_reset 4)" "recv_escape_data (zbus_reset 4) = 0"
    "unat (2 :: u16) \<le> length (zbus_buf (zbus_reset 4))" "length (zbus_buf (zbus_reset 4)) < 65536"
    by (simp_all add: zbus_reset_def zbus_idle_def)
  then show ?thesis using zbus_link_roundtrip [of "zbus_reset 3" 2 "zbus_reset 4"] by simp
qed

theorem zbus_lost_stop_witness:
  "\<exists>s. receiving 4 [1] s \<and>
     unat (zbus_rxfinish (foldl (\<lambda>s b. zbus_rx_isr rx_ok True b s) s (zbus_frame [2, 3]))) = 3"
proof -
  let ?s = "(zbus_reset 4)\<lparr>bus_blocked := 3, zbus_index := 1, zbus_buf := [1, 0, 0, 0]\<rparr>"
  have r: "receiving 4 [1] ?s" by (simp add: receiving_def zbus_reset_def)
  then show ?thesis using zbus_lost_stop [OF r, of "[2, 3]"] by (intro exI [of _ ?s]) simp
qed

end
