(* ===== verification/E6_Clock.thy ===== *)
theory E6_Clock
  imports E6_Prelude
begin

text \<open>
  The clock of \<^verbatim>\<open>services/clock\<close>: calendar arithmetic, daylight saving time and time stamps of
  \<^verbatim>\<open>clock_lib.c\<close>, and the running clock of \<^verbatim>\<open>clock.c\<close>, in the build with NTP and the uptime
  counter and without a clock crystal.

  A time stamp is a 32-bit number of seconds since 1970.  The fields of \<^verbatim>\<open>clock_datetime_t\<close>
  are natural numbers (\<^verbatim>\<open>isdst\<close> is an integer), with the truncation of an unsigned type written
  out where the code can exceed it.  The time zone, fixed by the build's configuration, is an
  argument.
\<close>

subsection \<open>Calendar arithmetic\<close>

record clock_datetime_t =
  d_sec :: nat
  d_min :: nat
  d_hour :: nat
  d_day :: nat
  d_month :: nat
  d_dow :: nat
  d_year :: nat
  d_yday :: nat
  d_isdst :: int

definition EPOCH_YEAR :: nat where "EPOCH_YEAR = 1970"
definition EPOCH_CENTURY :: nat where "EPOCH_CENTURY = 1900"
definition EPOCH_DOW :: nat where "EPOCH_DOW = 4"

definition IS_LEAP_YEAR :: "nat \<Rightarrow> bool" where
  "IS_LEAP_YEAR y \<longleftrightarrow> y mod 4 = 0 \<and> (y mod 100 \<noteq> 0 \<or> y mod 400 = 0)"

definition clock_monthdays :: "nat list" where
  "clock_monthdays = [31, 28, 31, 30, 31, 30, 31, 31, 30, 31, 30, 31]"

definition clock_monthydays :: "bool \<Rightarrow> nat list" where
  "clock_monthydays leap =
     (if leap then [0, 31, 60, 91, 121, 152, 182, 213, 244, 274, 305, 335, 366]
      else [0, 31, 59, 90, 120, 151, 181, 212, 243, 273, 304, 334, 365])"

definition clock_month_days :: "nat \<Rightarrow> nat" where
  "clock_month_days m = clock_monthdays ! (m - 1)"

function year_loop :: "nat \<Rightarrow> nat \<Rightarrow> nat \<times> nat" where
  "year_loop days year =
     (if days \<ge> 365 then
        if IS_LEAP_YEAR year then
          if days = 365 then (days, year)
          else year_loop (days - 1 - 365) (year + 1)
        else year_loop (days - 365) (year + 1)
      else (days, year))"
  by pat_completeness auto

termination
  by (relation "measure fst") auto

declare year_loop.simps [simp del]

text \<open>\<open>None\<close>: a read behind the table of month lengths.\<close>

function month_loop :: "nat \<Rightarrow> nat \<Rightarrow> nat \<Rightarrow> (nat \<times> nat) option" where
  "month_loop days month year =
     (if month \<ge> 12 then None
      else
        let monthdays = clock_month_days (month + 1) + (if month = 1 \<and> IS_LEAP_YEAR year then 1 else 0)
        in if days < monthdays then Some (days, month)
           else month_loop (days - monthdays) (month + 1) year)"
  by pat_completeness auto

termination
  by (relation "measure (\<lambda>(days, month, year). 12 - month)") auto

declare month_loop.simps [simp del]

definition clock_datetime :: "u32 \<Rightarrow> clock_datetime_t option" where
  "clock_datetime t =
     (let t = unat t;
          sec = t mod 60; t = t div 60;
          minute = t mod 60; t = t div 60;
          hour = t mod 24; t = t div 24;
          days = t mod 0x10000;
          dow = (days + EPOCH_DOW) mod 7;
          (days, year) = year_loop days EPOCH_YEAR
      in case month_loop days 0 year of
           None \<Rightarrow> None
         | Some (rest, month) \<Rightarrow>
             Some \<lparr>d_sec = sec, d_min = minute, d_hour = hour, d_day = rest + 1, d_month = month + 1,
                   d_dow = dow, d_year = (year - 1900) mod 0x100, d_yday = days, d_isdst = 0\<rparr>)"

definition clock_dow :: "nat \<Rightarrow> nat \<Rightarrow> nat \<Rightarrow> nat" where
  "clock_dow day month year =
     (let y = int (year + EPOCH_CENTURY);
          m = int month - 2;
          (m, y) = (if m \<le> 0 then (m + 12, y - 1) else (m, y))
      in nat ((83 * m div 32 + int day + y + y div 4 - y div 100 + y div 400) mod 7))"

definition clock_yday :: "nat \<Rightarrow> nat \<Rightarrow> nat \<Rightarrow> nat" where
  "clock_yday day month year =
     nat ((int (clock_monthydays (IS_LEAP_YEAR year) ! (month - 1)) + int day - 1) mod 0x10000)"

definition jan_1_offset :: "nat \<Rightarrow> int" where
  "jan_1_offset year =
     (let w = int (clock_dow 1 1 year) - 1 in if w \<ge> 4 then w - 7 else w)"

lemma clock_yday_dec31: "clock_yday 31 12 year \<ge> 364"
  by (simp add: clock_yday_def clock_monthydays_def)

lemma clock_dow_less: "clock_dow day month year < 7"
proof -
  have "nat (x mod 7) < 7" for x :: int
    using pos_mod_bound [of 7 x] by linarith
  then show ?thesis by (simp add: clock_dow_def Let_def split: prod.split)
qed

lemma jan_1_offset_bounds: "-3 \<le> jan_1_offset year \<and> jan_1_offset year \<le> 3"
  using clock_dow_less [of 1 1 year] by (auto simp: jan_1_offset_def Let_def)

function clock_woy :: "nat \<Rightarrow> nat \<Rightarrow> nat \<Rightarrow> nat" where
  "clock_woy day month year =
     (let yday = int (clock_yday day month year);
          off = jan_1_offset year
      in if yday + off \<le> 0 then clock_woy 31 12 ((year + 255) mod 256)
         else
           let week = nat ((yday + off) div 7 + 1) in
           if week = 53 then
             if off = 3 \<or> off = 2 \<and> IS_LEAP_YEAR year then week else 1
           else week)"
  by pat_completeness auto

termination
proof (relation "measure (\<lambda>(day, month, year). if day = 31 \<and> month = 12 then 0 else 1)")
  fix day month year :: nat and yday off :: int
  assume "yday = int (clock_yday day month year)" "off = jan_1_offset year" "yday + off \<le> 0"
  then have "\<not> (day = 31 \<and> month = 12)"
    using clock_yday_dec31 [of year] jan_1_offset_bounds [of year] by auto
  then show "((31, 12, (year + 255) mod 256), (day, month, year))
      \<in> measure (\<lambda>(day, month, year). if day = 31 \<and> month = 12 then 0 else 1)"
    by auto
qed simp

declare clock_woy.simps [simp del]

text \<open>The loop from month index 12 down to 0; the result is \<^verbatim>\<open>(*day, *month)\<close>.\<close>

definition clock_yday2date :: "nat \<Rightarrow> nat \<Rightarrow> nat \<times> nat" where
  "clock_yday2date yday year =
     (let p = clock_monthydays (IS_LEAP_YEAR year) in
      case find (\<lambda>m. p ! m \<le> yday) (rev [0..<13]) of
        Some m \<Rightarrow> ((1 + yday - p ! m) mod 256, m + 1)
      | None \<Rightarrow> (0, 0))"

definition date_days :: "nat \<Rightarrow> nat \<Rightarrow> nat \<Rightarrow> nat" where
  "date_days day month year =
     (let y = int (year + EPOCH_CENTURY);
          days = (y - int EPOCH_YEAR) * 365 + ((y - 1) div 4 - int EPOCH_YEAR div 4)
      in nat ((days + int (clock_yday day month year)) mod 0x10000))"

definition clock_date_to_timestamp :: "nat \<Rightarrow> nat \<Rightarrow> nat \<Rightarrow> u32" where
  "clock_date_to_timestamp day month year = of_nat (date_days day month year) * 86400"

subsection \<open>Daylight saving time\<close>

record clock_dst_t =
  dst_month :: nat
  dst_week :: nat
  dst_dow :: nat
  dst_hour :: nat

record clock_timezone_t =
  utctime :: u32
  dsttime :: u32
  dstbegin :: clock_dst_t
  dstend :: clock_dst_t

text \<open>The cached change; \<^verbatim>\<open>year\<close> is an \<^verbatim>\<open>int8_t\<close>.\<close>

record dst_change_t =
  chg_when :: u32
  chg_year :: int

fun week_loop :: "nat \<Rightarrow> int \<Rightarrow> int \<Rightarrow> int" where
  "week_loop 0 day monthdays = day"
| "week_loop (Suc n) day monthdays =
     (if day + 7 \<ge> monthdays then day else week_loop n (day + 7) monthdays)"

definition change_day :: "clock_dst_t \<Rightarrow> nat \<Rightarrow> nat" where
  "change_day dst year =
     (let day = int (dst_dow dst) - int (clock_dow 1 (dst_month dst) year);
          day = (if day < 0 then day + 7 else day);
          day = week_loop (dst_week dst - 1) day (int (clock_month_days (dst_month dst)))
      in nat (day + 1))"

definition clock_compute_change ::
    "u32 \<Rightarrow> clock_dst_t \<Rightarrow> nat \<Rightarrow> dst_change_t \<Rightarrow> bool \<times> dst_change_t" where
  "clock_compute_change utc dst year change =
     (if chg_year change = int year then (False, change)
      else
        let t = clock_date_to_timestamp (change_day dst year) (dst_month dst) year;
            t = t - utc;
            t = t + of_nat (dst_hour dst) * 3600
        in (True, \<lparr>chg_when = t, chg_year = (if year \<ge> 128 then int year - 256 else int year)\<rparr>))"

type_synonym dst_cache = "dst_change_t \<times> dst_change_t"

definition clock_tz_compute :: "clock_timezone_t \<Rightarrow> nat \<Rightarrow> dst_cache \<Rightarrow> dst_cache" where
  "clock_tz_compute tz year c =
     (let (_, c0) = clock_compute_change (utctime tz) (dstbegin tz) year (fst c);
          (fresh, c1) = clock_compute_change (utctime tz) (dstend tz) year (snd c)
      in (c0, if fresh then c1\<lparr>chg_when := chg_when c1 - dsttime tz\<rparr> else c1))"

definition clock_is_dst :: "clock_timezone_t \<Rightarrow> dst_cache \<Rightarrow> u32 \<Rightarrow> bool" where
  "clock_is_dst tz c t =
     (if dsttime tz = 0 then False
      else if chg_when (fst c) > chg_when (snd c) then t < chg_when (snd c) \<or> t \<ge> chg_when (fst c)
      else t \<ge> chg_when (fst c) \<and> t < chg_when (snd c))"

definition clock_reset_dst_change :: "dst_cache \<Rightarrow> dst_cache" where
  "clock_reset_dst_change c = ((fst c)\<lparr>chg_year := -1\<rparr>, (snd c)\<lparr>chg_year := -1\<rparr>)"

definition clock_localtime ::
    "clock_timezone_t \<Rightarrow> u32 \<Rightarrow> dst_cache \<Rightarrow> clock_datetime_t option \<times> dst_cache" where
  "clock_localtime tz t c =
     (let local = t + utctime tz in
      case clock_datetime local of
        None \<Rightarrow> (None, c)
      | Some d \<Rightarrow>
          let c = clock_tz_compute tz (d_year d) c in
          if clock_is_dst tz c t then
            (map_option (\<lambda>d. d\<lparr>d_isdst := 1\<rparr>) (clock_datetime (local + dsttime tz)), c)
          else (Some d, c))"

definition clock_mktime ::
    "clock_timezone_t \<Rightarrow> bool \<Rightarrow> clock_datetime_t \<Rightarrow> dst_cache \<Rightarrow> u32 \<times> clock_datetime_t \<times> dst_cache" where
  "clock_mktime tz islocal d c =
     (let t = clock_date_to_timestamp (d_day d) (d_month d) (d_year d);
          t = t + 3600 * of_nat (d_hour d);
          t = t + 60 * of_nat (d_min d);
          t = t + of_nat (d_sec d);
          (t, d, c) =
            (if islocal then
               let t = t - utctime tz;
                   (d, c) =
                     (if d_isdst d < 0 then
                        let c = clock_tz_compute tz (d_year d) c
                        in (d\<lparr>d_isdst := (if clock_is_dst tz c t then 1 else 0)\<rparr>, c)
                      else (d, c))
               in (if d_isdst d > 0 then t - dsttime tz else t, d, c)
             else (t, d, c))
      in (t, d\<lparr>d_dow := clock_dow (d_day d) (d_month d) (d_year d)\<rparr>, c))"

subsection \<open>The running clock\<close>

text \<open>
  The variables of \<^verbatim>\<open>clock.c\<close> and the cache of \<^verbatim>\<open>clock_lib.c\<close>; \<open>ntp_packets\<close> counts the calls of
  \<^verbatim>\<open>ntp_send_packet\<close>.
\<close>

record clock_state =
  clock_timestamp :: u32
  ticks :: u8
  sync_timestamp :: u32
  n_sync_timestamp :: u32
  n_sync_tick :: u32
  delta :: u16
  ntp_count :: u16
  dcf_count :: u16
  ntp_timer :: u16
  uptime_timestamp :: u32
  dst_change :: dst_cache
  ntp_packets :: nat

definition clock_init :: "clock_state \<Rightarrow> clock_state" where
  "clock_init s = s\<lparr>dcf_count := 0\<rparr>"

definition clock_periodic :: "clock_state \<Rightarrow> clock_state" where
  "clock_periodic s =
     (if ntp_timer s \<noteq> 0 then s\<lparr>ntp_timer := ntp_timer s - 1\<rparr>
      else s\<lparr>ntp_timer := 10, ntp_packets := ntp_packets s + 1\<rparr>)"

text \<open>The body of \<^verbatim>\<open>clock_tick\<close> that runs once a second.\<close>

definition clock_second :: "clock_state \<Rightarrow> clock_state" where
  "clock_second s =
     (let s = (if sync_timestamp s = 0 \<or> sync_timestamp s = clock_timestamp s
               then s\<lparr>clock_timestamp := clock_timestamp s + 1,
                      uptime_timestamp := uptime_timestamp s + 1\<rparr>
               else s)
      in if sync_timestamp s \<noteq> 0 then s\<lparr>sync_timestamp := sync_timestamp s + 1\<rparr> else s)"

definition clock_tick :: "u8 \<Rightarrow> clock_state \<Rightarrow> clock_state" where
  "clock_tick HZ s =
     (let s = s\<lparr>ticks := ticks s + 1\<rparr> in
      if ticks s \<ge> HZ then
        let s = clock_second s in s\<lparr>ticks := ticks s - HZ\<rparr>
      else s)"

definition clock_set_time_raw :: "u32 \<Rightarrow> clock_state \<Rightarrow> clock_state" where
  "clock_set_time_raw t s = s\<lparr>clock_timestamp := t\<rparr>"

definition clock_set_time_raw_hr :: "u32 \<Rightarrow> u8 \<Rightarrow> clock_state \<Rightarrow> clock_state" where
  "clock_set_time_raw_hr t new_ticks s = s\<lparr>clock_timestamp := t, ticks := new_ticks\<rparr>"

definition clock_get_ticks :: "clock_state \<Rightarrow> u8" where
  "clock_get_ticks s = ticks s"

definition clock_set_time :: "u16 \<Rightarrow> u32 \<Rightarrow> clock_state \<Rightarrow> clock_state" where
  "clock_set_time NTP_RESYNC_PERIOD t s =
     (let s = (if sync_timestamp s \<noteq> 0 then s\<lparr>delta := ucast (t - sync_timestamp s)\<rparr> else s);
          s = s\<lparr>sync_timestamp := t, n_sync_timestamp := t, n_sync_tick := ucast (ticks s),
                dst_change := clock_reset_dst_change (dst_change s)\<rparr>;
          s = (if sync_timestamp s > clock_timestamp s
                  \<or> clock_timestamp s - sync_timestamp s > 300
               then s\<lparr>clock_timestamp := sync_timestamp s\<rparr> else s)
      in s\<lparr>ntp_timer := NTP_RESYNC_PERIOD\<rparr>)"

definition clock_get_time :: "clock_state \<Rightarrow> u32" where
  "clock_get_time s = clock_timestamp s"

definition clock_last_sync :: "clock_state \<Rightarrow> u32" where
  "clock_last_sync s = n_sync_timestamp s"

definition clock_last_sync_tick :: "clock_state \<Rightarrow> u32" where
  "clock_last_sync_tick s = n_sync_tick s"

definition clock_last_delta :: "clock_state \<Rightarrow> int" where
  "clock_last_delta s = sint (delta s)"

definition set_dcf_count :: "u16 \<Rightarrow> clock_state \<Rightarrow> clock_state" where
  "set_dcf_count n s = s\<lparr>dcf_count := (if n = 0 then 0 else dcf_count s + n)\<rparr>"

definition set_ntp_count :: "u16 \<Rightarrow> clock_state \<Rightarrow> clock_state" where
  "set_ntp_count n s = s\<lparr>ntp_count := (if n = 0 then 0 else ntp_count s + n)\<rparr>"

definition clock_get_uptime :: "clock_state \<Rightarrow> u32" where
  "clock_get_uptime s = uptime_timestamp s"

subsection \<open>The Gregorian calendar\<close>

text \<open>
  The specification: lengths of years and months, and the number of days since the epoch of a date.
  Here \<open>IS_LEAP_YEAR\<close> is applied to a full year, where it is the Gregorian rule.
\<close>

definition year_days :: "nat \<Rightarrow> nat" where
  "year_days y = (if IS_LEAP_YEAR y then 366 else 365)"

definition month_days :: "nat \<Rightarrow> nat \<Rightarrow> nat" where
  "month_days y m = clock_month_days m + (if m = 2 \<and> IS_LEAP_YEAR y then 1 else 0)"

definition greg_days :: "nat \<Rightarrow> nat \<Rightarrow> nat \<Rightarrow> nat" where
  "greg_days y m d =
     sum_list (map year_days [EPOCH_YEAR..<y]) + sum_list (map (month_days y) [1..<m]) + (d - 1)"

definition valid_date :: "nat \<Rightarrow> nat \<Rightarrow> nat \<Rightarrow> bool" where
  "valid_date y m d \<longleftrightarrow> 1 \<le> m \<and> m \<le> 12 \<and> 1 \<le> d \<and> d \<le> month_days y m"

lemma year_loop_spec:
  "year_loop days y = (r, y') \<Longrightarrow>
   y \<le> y' \<and> r < year_days y' \<and> days = r + sum_list (map year_days [y..<y'])"
proof (induction days y rule: year_loop.induct)
  case (1 days y)
  have step: "z < z' \<Longrightarrow> sum_list (map year_days [z..<z']) = year_days z + sum_list (map year_days [Suc z..<z'])" for z z'
    by (simp add: upt_conv_Cons)
  show ?case
  proof (cases "days < year_days y")
    case True
    then show ?thesis using "1.prems" by (subst (asm) year_loop.simps) (auto simp: year_days_def split: if_splits)
  next
    case False
    then have "year_loop (days - year_days y) (y + 1) = (r, y')"
      using "1.prems" by (subst (asm) year_loop.simps) (auto simp: year_days_def split: if_splits)
    moreover have "y + 1 \<le> y' \<and> r < year_days y' \<and> days - year_days y = r + sum_list (map year_days [y + 1..<y'])"
    proof (cases "IS_LEAP_YEAR y")
      case True
      then have yd: "year_days y = 366" by (simp add: year_days_def)
      show ?thesis using "1.IH"(1) True False calculation unfolding yd by simp
    next
      case nl: False
      then have yd: "year_days y = 365" by (simp add: year_days_def)
      show ?thesis using "1.IH"(2) nl False calculation unfolding yd by simp
    qed
    ultimately show ?thesis using False step [of y y'] by auto
  qed
qed

lemma upt_1_13: "[1..<13] = [1, 2, 3, 4, 5, 6, 7, 8, 9, 10, 11, 12 :: nat]"
  by (simp add: upt_rec)

lemma month_days_total: "sum_list (map (month_days y) [1..<13]) = year_days y"
  unfolding upt_1_13 by (simp add: month_days_def year_days_def clock_month_days_def clock_monthdays_def)

lemma month_loop_spec:
  "days < sum_list (map (month_days y) [Suc m..<13]) \<Longrightarrow>
   \<exists>r m'. month_loop days m y = Some (r, m') \<and> m \<le> m' \<and> m' < 12 \<and> r < month_days y (Suc m')
     \<and> days = r + sum_list (map (month_days y) [Suc m..<Suc m'])"
proof (induction days m y rule: month_loop.induct)
  case (1 days m y)
  have m: "m < 12" using "1.prems" by (cases "m < 12") auto
  have md: "clock_month_days (m + 1) + (if m = 1 \<and> IS_LEAP_YEAR y then 1 else 0) = month_days y (Suc m)"
    by (simp add: month_days_def)
  have step: "m < k \<Longrightarrow> sum_list (map (month_days y) [Suc m..<Suc k]) = month_days y (Suc m) + sum_list (map (month_days y) [Suc (Suc m)..<Suc k])" for k
    by (subst upt_conv_Cons) auto
  show ?case
  proof (cases "days < month_days y (Suc m)")
    case True
    then show ?thesis using m md by (subst month_loop.simps) (auto simp: Let_def)
  next
    case False
    have "days - month_days y (Suc m) < sum_list (map (month_days y) [Suc (Suc m)..<13])"
      using "1.prems" False step [of 12] m by simp
    then obtain r m' where *: "month_loop (days - month_days y (Suc m)) (m + 1) y = Some (r, m')" "m + 1 \<le> m'" "m' < 12"
      "r < month_days y (Suc m')" "days - month_days y (Suc m) = r + sum_list (map (month_days y) [Suc (Suc m)..<Suc m'])"
      using "1.IH" [OF _ refl] m md False by (auto simp: Let_def)
    then have "month_loop days m y = Some (r, m')"
      using m md False by (subst month_loop.simps) (simp add: Let_def)
    then show ?thesis using * step [of m'] False by auto
  qed
qed

lemma year_loop_bound:
  assumes "year_loop days y = (r, y')" shows "365 * (y' - y) \<le> days"
proof -
  have "365 * length xs \<le> sum_list (map year_days xs)" for xs
    by (induction xs) (auto simp: year_days_def)
  from this [of "[y..<y']"] show ?thesis using year_loop_spec [OF assms] by simp
qed

lemma hms:
  fixes t :: nat
  shows "t = ((t div 60 div 60 div 24 * 24 + t div 60 div 60 mod 24) * 60 + t div 60 mod 60) * 60 + t mod 60"
  by simp

lemma datetime_correct:
  "\<exists>d. clock_datetime t = Some d
    \<and> valid_date (1900 + d_year d) (d_month d) (d_day d) \<and> d_hour d < 24 \<and> d_min d < 60 \<and> d_sec d < 60
    \<and> 70 \<le> d_year d \<and> d_year d \<le> 206
    \<and> unat t = ((greg_days (1900 + d_year d) (d_month d) (d_day d) * 24 + d_hour d) * 60 + d_min d) * 60 + d_sec d
    \<and> d_dow d = (greg_days (1900 + d_year d) (d_month d) (d_day d) + 4) mod 7
    \<and> d_yday d = sum_list (map (month_days (1900 + d_year d)) [1..<d_month d]) + (d_day d - 1)"
proof -
  define days where "days = unat t div 60 div 60 div 24"
  have "unat t < 2 ^ 32" using unsigned_less [of t, where ?'a = nat] by simp
  then have lt: "days < 49711" by (simp add: days_def)
  then have dm: "days mod 0x10000 = days" by simp
  obtain r y where yl: "year_loop days EPOCH_YEAR = (r, y)" by (cases "year_loop days EPOCH_YEAR")
  note ys = year_loop_spec [OF yl]
  have "365 * (y - 1970) \<le> days" using year_loop_bound [OF yl] by (simp add: EPOCH_YEAR_def)
  then have "y \<le> 2106" "1970 \<le> y" using lt ys by (auto simp: EPOCH_YEAR_def)
  then have y: "(y - 1900) mod 0x100 = y - 1900" "1900 + (y - 1900) = y" by auto
  have "r < sum_list (map (month_days y) [Suc 0..<13])" using ys month_days_total [of y] by simp
  from month_loop_spec [OF this] obtain k m where ml: "month_loop r 0 y = Some (k, m)" "m < 12" "k < month_days y (Suc m)"
    "r = k + sum_list (map (month_days y) [Suc 0..<Suc m])" by auto
  let ?d = "\<lparr>d_sec = unat t mod 60, d_min = unat t div 60 mod 60, d_hour = unat t div 60 div 60 mod 24, d_day = k + 1,
     d_month = m + 1, d_dow = (days + EPOCH_DOW) mod 7, d_year = y - 1900, d_yday = r, d_isdst = 0\<rparr>"
  have cd: "clock_datetime t = Some ?d"
    unfolding clock_datetime_def Let_def days_def [symmetric] by (simp add: dm yl ml(1) y)
  have gd: "greg_days y (Suc m) (Suc k) = days" using ys ml by (simp add: greg_days_def)
  have ht: "unat t = ((days * 24 + unat t div 60 div 60 mod 24) * 60 + unat t div 60 mod 60) * 60 + unat t mod 60"
    unfolding days_def by (rule hms)
  have yr: "70 \<le> y - 1900" "y - 1900 \<le> 206" using \<open>1970 \<le> y\<close> \<open>y \<le> 2106\<close> by auto
  show ?thesis
  proof (intro exI [of _ ?d] conjI)
    show "unat t = ((greg_days (1900 + d_year ?d) (d_month ?d) (d_day ?d) * 24 + d_hour ?d) * 60 + d_min ?d) * 60 + d_sec ?d"
      using ht by (simp only: clock_datetime_t.simps y gd Suc_eq_plus1 [symmetric])
  qed (use ml yr in \<open>simp_all add: cd y gd valid_date_def EPOCH_DOW_def\<close>)
qed

text \<open>
  C8: the calendar date of a time stamp is right for every time stamp.  The month loop never
  reads behind its table; year, month and day form a valid Gregorian date between 1970 and 2106
  whose distance from the epoch, with the time of day, is the time stamp; weekday and day of the
  year belong to that date.\<close>

theorem clock_datetime_correct:
  "\<exists>d. clock_datetime t = Some d
    \<and> valid_date (1900 + d_year d) (d_month d) (d_day d)
    \<and> d_hour d < 24 \<and> d_min d < 60 \<and> d_sec d < 60
    \<and> 70 \<le> d_year d \<and> d_year d \<le> 206
    \<and> unat t = ((greg_days (1900 + d_year d) (d_month d) (d_day d) * 24 + d_hour d) * 60
                  + d_min d) * 60 + d_sec d
    \<and> d_dow d = (greg_days (1900 + d_year d) (d_month d) (d_day d) + 4) mod 7
    \<and> d_yday d = sum_list (map (month_days (1900 + d_year d)) [1..<d_month d]) + (d_day d - 1)"
  by (rule datetime_correct)

text \<open>The number of leap days before the year \<open>y\<close>, in closed form.\<close>

definition leaps :: "nat \<Rightarrow> int" where
  "leaps y = int ((y - 1) div 4) - int ((y - 1) div 100) + int ((y - 1) div 400)"

lemma leaps_Suc:
  assumes "0 < y"
  shows "leaps (Suc y) = leaps y + (if IS_LEAP_YEAR y then 1 else 0)"
proof -
  obtain x where y: "y = Suc x" using assms by (cases y) auto
  have "400 dvd y \<Longrightarrow> 100 dvd y" "100 dvd y \<Longrightarrow> 4 dvd y"
    by (auto intro: dvd_trans [of 100 400] dvd_trans [of 4 100])
  then have "Suc x mod 400 = 0 \<Longrightarrow> Suc x mod 100 = 0" "Suc x mod 100 = 0 \<Longrightarrow> Suc x mod 4 = 0"
    by (simp_all add: y dvd_eq_mod_eq_0)
  then show ?thesis
    by (auto simp: y leaps_def IS_LEAP_YEAR_def div_Suc)
qed

lemma days_to_year:
  "1970 \<le> y \<Longrightarrow>
   int (sum_list (map year_days [EPOCH_YEAR..<y])) = 365 * (int y - 1970) + leaps y - 477"
proof (induction y rule: dec_induct)
  case base
  then show ?case by (simp add: EPOCH_YEAR_def leaps_def)
next
  case (step y)
  then have "[EPOCH_YEAR..<Suc y] = [EPOCH_YEAR..<y] @ [y]" by (simp add: EPOCH_YEAR_def)
  then show ?case using step leaps_Suc [of y] by (simp add: year_days_def)
qed

lemma month_cases:
  assumes "1 \<le> m" and "m \<le> (12::nat)"
  shows "m = 1 \<or> m = 2 \<or> m = 3 \<or> m = 4 \<or> m = 5 \<or> m = 6 \<or> m = 7 \<or> m = 8 \<or> m = 9 \<or> m = 10 \<or> m = 11 \<or> m = 12"
  using assms by presburger

lemma days_to_month:
  assumes "1 \<le> m" and "m \<le> 12"
  shows "sum_list (map (month_days y) [1..<m]) = clock_monthydays (IS_LEAP_YEAR y) ! (m - 1)"
  using month_cases [OF assms]
  by (elim disjE) (simp_all add: upt_rec [of "Suc 0"] month_days_def clock_month_days_def clock_monthdays_def
      clock_monthydays_def flip: numeral_2_eq_2)

lemma greg_days_int:
  assumes "1970 \<le> y" and "1 \<le> m" and "m \<le> 12" and "1 \<le> d"
  shows "int (greg_days y m d) =
    365 * (int y - 1970) + leaps y - 477 + int (clock_monthydays (IS_LEAP_YEAR y) ! (m - 1)) + int d - 1"
  using assms(4) days_to_year [OF assms(1)] days_to_month [OF assms(2,3), of y]
  by (simp add: greg_days_def)

lemma leaps_full: "0 < y \<Longrightarrow> int y div 4 - int y div 100 + int y div 400 = leaps (Suc y)"
  by (simp add: leaps_def zdiv_int)

lemma clock_dow_greg:
  assumes "70 \<le> year" and "1 \<le> m" and "m \<le> 12" and "1 \<le> d"
  shows "clock_dow d m year = (greg_days (1900 + year) m d + 4) mod 7"
proof -
  define y where "y = 1900 + year"
  have y: "1970 \<le> y" using assms(1) by (simp add: y_def)
  define z where "z = (if m \<le> 2 then int y - 1 + leaps y + int ((83 * (m + 10)) div 32) else int y + leaps (Suc y) + int ((83 * (m - 2)) div 32)) + int d"
  have dow: "clock_dow d m year = nat (z mod 7)"
  proof (cases "m \<le> 2")
    case True
    have e: "int (year + EPOCH_CENTURY) - 1 = int (y - 1)" "int m - 2 + 12 = int (m + 10)"
      using y by (simp_all add: y_def EPOCH_CENTURY_def)
    have "83 * int (m + 10) div 32 = int (83 * (m + 10) div 32)" by (simp add: zdiv_int)
    then have "83 * int (m + 10) div 32 + int d + int (y - 1) + int (y - 1) div 4
        - int (y - 1) div 100 + int (y - 1) div 400 = z"
      unfolding z_def using True leaps_full [of "y - 1"] y by simp
    then show ?thesis using True unfolding clock_dow_def Let_def e by simp
  next
    case False
    have e: "int (year + EPOCH_CENTURY) = int y" "int m - 2 = int (m - 2)"
      using False by (simp_all add: y_def EPOCH_CENTURY_def)
    have "83 * int (m - 2) div 32 = int (83 * (m - 2) div 32)" by (simp add: zdiv_int)
    then have "83 * int (m - 2) div 32 + int d + int y + int y div 4 - int y div 100 + int y div 400 = z"
      unfolding z_def using False leaps_full [of y] y by simp
    then show ?thesis using False unfolding clock_dow_def Let_def e by simp
  qed
  define L where "L = leaps y"
  define Y where "Y = int y"
  have zc: "z = Y + L + (if m \<le> 2 then int ((83 * (m + 10)) div 32) - 1
                     else int ((83 * (m - 2)) div 32) + (if IS_LEAP_YEAR y then 1 else 0)) + int d"
    using leaps_Suc [of y] y by (simp add: z_def L_def Y_def)
  have gc: "int (greg_days y m d) + 4 = 365 * Y + L + (int (clock_monthydays (IS_LEAP_YEAR y) ! (m - 1)) - 719524) + int d"
    using greg_days_int [OF y assms(2-4)] by (simp add: L_def Y_def)
  have "7 dvd (int (greg_days y m d) + 4 - z)"
    using month_cases [OF assms(2,3)] unfolding gc zc
    by (elim disjE) (simp_all add: clock_monthydays_def)
  then have "z mod 7 = (int (greg_days y m d) + 4) mod 7"
    by (simp add: mod_eq_dvd_iff dvd_diff_commute)
  also have "\<dots> = int ((greg_days y m d + 4) mod 7)" by (simp add: zmod_int)
  finally show ?thesis using dow y_def by simp
qed

text \<open>
  the weekday formula agrees with the calendar: for every date from 1970 on,
  \<^verbatim>\<open>clock_dow\<close> is the weekday that follows from counting days from the epoch, a Thursday.\<close>

theorem clock_dow_correct:
  assumes "70 \<le> year" and "valid_date (1900 + year) month day"
  shows "clock_dow day month year = (greg_days (1900 + year) month day + 4) mod 7"
  using assms clock_dow_greg by (simp add: valid_date_def)

lemma leap_two_digits:
  assumes "70 \<le> year" and "year \<le> 206"
  shows "IS_LEAP_YEAR year \<longleftrightarrow> IS_LEAP_YEAR (1900 + year) \<and> year \<noteq> 100"
proof -
  have q: "(1900 + year) mod 4 = year mod 4" by presburger
  have c: "(1900 + year) mod 100 = year mod 100"
    using mod_mult_self2 [of year 100 19] by (simp add: add.commute)
  have "year mod 100 = 0 \<longleftrightarrow> year = 100 \<or> year = 200"
    using assms div_mult_mod_eq [of year 100] by auto
  then show ?thesis unfolding IS_LEAP_YEAR_def q c by auto
qed

text \<open>
  The error, in days, of \<^verbatim>\<open>clock_date_to_timestamp\<close>: the table of days is chosen by the two-digit
  year, so 2000 is taken for a common year, and 2100 is counted as a leap year.
\<close>

definition mktime_error :: "nat \<Rightarrow> nat \<Rightarrow> int" where
  "mktime_error year month = (if year = 100 \<and> month > 2 then -1 else if year > 200 then 1 else 0)"

lemma leaps_bounds:
  assumes "70 \<le> year" and "year \<le> 206"
  shows "leaps (1900 + year) = (int (year + 1900) - 1) div 4 - (if year > 200 then 16 else 15)"
proof -
  define x where "x = 1899 + year"
  have d100: "x div 100 = (if year \<le> 100 then 19 else if year \<le> 200 then 20 else 21)"
    using assms by (auto simp: x_def intro!: div_nat_eqI)
  have d400: "x div 400 = (if year \<le> 100 then 4 else 5)"
    using assms by (auto simp: x_def intro!: div_nat_eqI)
  have "int (year + 1900) - 1 = int x" by (simp add: x_def)
  then show ?thesis
    using d100 d400 by (simp add: leaps_def x_def zdiv_int)
qed

lemma date_days_greg:
  assumes "70 \<le> year" and "year \<le> 206" and "valid_date (1900 + year) month day"
  shows "int (date_days day month year) = int (greg_days (1900 + year) month day) + mktime_error year month"
proof -
  note v = assms(3) [unfolded valid_date_def]
  have dlt: "day \<le> 31"
    using month_cases [of month] v by (auto simp: month_days_def clock_month_days_def clock_monthdays_def split: if_splits)
  have tab: "int (clock_monthydays b ! (month - 1)) \<le> 366" for b
    using month_cases [of month] v by (auto simp: clock_monthydays_def)
  then have yd: "int (clock_yday day month year) = int (clock_monthydays (IS_LEAP_YEAR year) ! (month - 1)) + int day - 1"
  proof -
    let ?x = "int (clock_monthydays (IS_LEAP_YEAR year) ! (month - 1)) + int day - 1"
    have "0 \<le> ?x" "?x < 65536" using dlt v tab [of "IS_LEAP_YEAR year"] by linarith+
    then show ?thesis unfolding clock_yday_def by (simp only: mod_pos_pos_trivial int_nat_eq if_True)
  qed
  have tb: "int (clock_monthydays (IS_LEAP_YEAR year) ! (month - 1)) =
      int (clock_monthydays (IS_LEAP_YEAR (1900 + year)) ! (month - 1)) - (if year = 100 \<and> month > 2 then 1 else 0)"
    using month_cases [of month] v leap_two_digits [OF assms(1,2)] 
    by (cases "year = 100") (auto simp: clock_monthydays_def IS_LEAP_YEAR_def)
  define D where "D = (int (year + 1900) - 1970) * 365 + ((int (year + 1900) - 1) div 4 - 492) + int (clock_yday day month year)"
  have g: "int (greg_days (1900 + year) month day) =
    365 * (int (1900 + year) - 1970) + leaps (1900 + year) - 477
      + int (clock_monthydays (IS_LEAP_YEAR (1900 + year)) ! (month - 1)) + int day - 1"
    using assms(1) v by (intro greg_days_int) auto
  have D: "D = int (greg_days (1900 + year) month day) + mktime_error year month"
    unfolding D_def yd tb g leaps_bounds [OF assms(1,2)] mktime_error_def by auto
  have q: "492 \<le> (int (year + 1900) - 1) div 4" "(int (year + 1900) - 1) div 4 \<le> 526"
    using assms(1,2) by linarith+
  have "0 \<le> D \<and> D < 65536"
  proof -
    have "0 \<le> (Y - 1970) * 365 + (Q - 492) + (T + E - 1) \<and> (Y - 1970) * 365 + (Q - 492) + (T + E - 1) < 65536"
      if "1970 \<le> Y" "Y \<le> 2106" "492 \<le> Q" "Q \<le> 526" "0 \<le> T" "T \<le> 366" "1 \<le> E" "E \<le> 31" for Y Q T E :: int
      using that by auto
    then show ?thesis
      unfolding D_def yd using assms(1,2) dlt v tab [of "IS_LEAP_YEAR year"] q by simp
  qed
  then have "int (date_days day month year) = D"
    by (simp add: date_days_def Let_def D_def EPOCH_CENTURY_def EPOCH_YEAR_def)
  then show ?thesis using D by simp
qed

lemma mktime_datetime:
  assumes "clock_datetime t = Some d"
  shows "fst (clock_mktime tz False d c) = t + of_int (86400 * mktime_error (d_year d) (d_month d))"
proof -
  from datetime_correct [of t] obtain d' where "clock_datetime t = Some d'"
    and v': "valid_date (1900 + d_year d') (d_month d') (d_day d')" "70 \<le> d_year d'" "d_year d' \<le> 206"
    and t': "unat t = ((greg_days (1900 + d_year d') (d_month d') (d_day d') * 24 + d_hour d') * 60 + d_min d') * 60 + d_sec d'"
    by blast
  then have [simp]: "d' = d" using assms by simp
  let ?g = "greg_days (1900 + d_year d) (d_month d) (d_day d)"
  have dd: "of_nat (date_days (d_day d) (d_month d) (d_year d)) = (of_int (int ?g + mktime_error (d_year d) (d_month d)) :: u32)"
    using date_days_greg [of "d_year d" "d_month d" "d_day d"] v' by (metis \<open>d' = d\<close> of_int_of_nat_eq)
  have "t = of_nat (unat t)" by simp
  also have "\<dots> = of_nat ?g * 86400 + 3600 * of_nat (d_hour d) + 60 * of_nat (d_min d) + of_nat (d_sec d)"
    unfolding t' by (simp add: algebra_simps)
  finally have t: "t = of_nat ?g * 86400 + 3600 * of_nat (d_hour d) + 60 * of_nat (d_min d) + of_nat (d_sec d)" .
  show ?thesis
    unfolding clock_mktime_def clock_date_to_timestamp_def Let_def dd
    by (subst t) (simp add: algebra_simps)
qed

text \<open>
  C35: up to the year 2100 and except from March to December 2000, \<^verbatim>\<open>clock_mktime\<close> maps the date
  that \<^verbatim>\<open>clock_datetime\<close> computes back to the time stamp, and finds the same weekday.\<close>

theorem clock_mktime_roundtrip:
  assumes "clock_datetime t = Some d" and "d_year d \<le> 200" and "d_year d \<noteq> 100 \<or> d_month d \<le> 2"
  shows "fst (clock_mktime tz False d c) = t \<and> d_dow (fst (snd (clock_mktime tz False d c))) = d_dow d"
proof -
  have "clock_dow (d_day d) (d_month d) (d_year d) = d_dow d"
    using datetime_correct [of t] clock_dow_greg [of "d_year d" "d_month d" "d_day d"] assms(1) by (auto simp: valid_date_def)
  then show ?thesis
    using mktime_datetime [OF assms(1), of tz c] assms(2,3) by (auto simp: mktime_error_def clock_mktime_def Let_def)
qed

text \<open>
  for every date from March to December 2000 \<^verbatim>\<open>clock_mktime\<close> is one day early.\<close>

theorem clock_mktime_2000:
  assumes "clock_datetime t = Some d" and "d_year d = 100" and "d_month d > 2"
  shows "fst (clock_mktime tz False d c) = t - 86400"
  using mktime_datetime [OF assms(1), of tz c] assms(2,3) by (simp add: mktime_error_def)

lemma clock_yday_table:
  assumes "1 \<le> month" and "month \<le> 12" and "1 \<le> day" and "day \<le> 31"
  shows "clock_yday day month year = clock_monthydays (IS_LEAP_YEAR year) ! (month - 1) + day - 1"
  using month_cases [OF assms(1,2)] assms(3,4)
  by (elim disjE) (simp_all add: clock_yday_def clock_monthydays_def nat_diff_distrib nat_add_distrib)

text \<open>
  \<^verbatim>\<open>clock_yday2date\<close> inverts \<^verbatim>\<open>clock_yday\<close> on the dates of a year, with the code's own notion
  of a leap year.\<close>

theorem clock_yday2date_yday:
  assumes "1 \<le> month" and "month \<le> 12" and "1 \<le> day" and "day \<le> month_days year month"
  shows "clock_yday2date (clock_yday day month year) year = (day, month)"
proof -
  have r: "rev [0..<13] = [12, 11, 10, 9, 8, 7, 6, 5, 4, 3, 2, 1, 0 :: nat]" by (simp add: upt_rec)
  have m: "day \<le> 31" using month_cases [OF assms(1,2)] assms(4)
    by (auto simp: month_days_def clock_month_days_def clock_monthdays_def split: if_splits)
  note y = clock_yday_table [OF assms(1-3) m, of year]
  show ?thesis
    using month_cases [OF assms(1,2)] assms(3,4) m unfolding clock_yday2date_def Let_def y r
    by (elim disjE)
      (auto simp: clock_monthydays_def month_days_def clock_month_days_def clock_monthdays_def split: if_splits)
qed

subsection \<open>Changes of daylight saving time\<close>

lemma clock_dow_add: "clock_dow (1 + k) month year = (clock_dow 1 month year + k) mod 7"
proof -
  have "nat ((x + int (1 + k) + y) mod 7) = (nat ((x + int 1 + y) mod 7) + k) mod 7" for x y :: int
  proof -
    have "int (nat ((x + int 1 + y) mod 7)) = (x + 1 + y) mod 7" by simp
    then have "int ((nat ((x + int 1 + y) mod 7) + k) mod 7) = ((x + 1 + y) mod 7 + int k) mod 7"
      by (simp add: zmod_int)
    also have "\<dots> = (x + 1 + y + int k) mod 7" by (rule mod_add_left_eq)
    also have "x + 1 + y + int k = x + int (1 + k) + y" by simp
    finally show ?thesis by simp
  qed
  moreover have "\<exists>x y. \<forall>day. clock_dow day month year = nat ((x + int day + y) mod 7)"
  proof -
    have e: "a + d + y + p - q + r = a + d + (y + p - q + r)" for a d y p q r :: int by simp
    show ?thesis
      unfolding clock_dow_def Let_def by (cases "int month - 2 \<le> 0") (simp_all only: if_True if_False prod.case e, blast+)
  qed
  ultimately show ?thesis by metis
qed

lemma week_loop_spec:
  "a < n \<Longrightarrow> \<exists>j\<le>k. week_loop k a n = a + 7 * int j \<and> a + 7 * int j < n \<and> (j = k \<or> n \<le> a + 7 * int j + 7)"
proof (induction k arbitrary: a)
  case (Suc k)
  show ?case
  proof (cases "a + 7 \<ge> n")
    case True
    then show ?thesis using Suc.prems by (intro exI [of _ 0]) simp
  next
    case False
    then obtain j where "j \<le> k" "week_loop k (a + 7) n = a + 7 + 7 * int j" "a + 7 + 7 * int j < n"
      "j = k \<or> n \<le> a + 7 + 7 * int j + 7" using Suc.IH [of "a + 7"] by auto
    then show ?thesis using False by (intro exI [of _ "Suc j"]) auto
  qed
qed simp

text \<open>
  the day on which daylight saving time changes is the configured weekday of the
  configured week of the month, or the last such weekday when the month has fewer of them.\<close>

theorem clock_change_day:
  assumes "1 \<le> dst_month dst" and "dst_month dst \<le> 12" and "dst_dow dst < 7" and "1 \<le> dst_week dst"
  shows "let day = change_day dst year; n = clock_month_days (dst_month dst)
    in 1 \<le> day \<and> day \<le> n \<and> clock_dow day (dst_month dst) year = dst_dow dst
     \<and> ((day - 1) div 7 + 1 = dst_week dst \<or> (day - 1) div 7 + 1 < dst_week dst \<and> n < day + 7)"
proof -
  define w where "w = clock_dow 1 (dst_month dst) year"
  define n where "n = clock_month_days (dst_month dst)"
  have w: "w < 7" by (simp add: w_def clock_dow_less)
  have n: "28 \<le> n" using month_cases [OF assms(1,2)] by (auto simp: n_def clock_month_days_def clock_monthdays_def)
  define a where "a = (if dst_dow dst < w then dst_dow dst + 7 - w else dst_dow dst - w)"
  have a: "a < 7" "(w + a) mod 7 = dst_dow dst" using assms(3) w by (auto simp: a_def)
  have "(let day = int (dst_dow dst) - int w in if day < 0 then day + 7 else day) = int a"
    using assms(3) w by (auto simp: a_def Let_def)
  then have c: "change_day dst year = nat (week_loop (dst_week dst - 1) (int a) (int n) + 1)"
    by (simp add: change_day_def Let_def w_def n_def)
  obtain j where j: "j \<le> dst_week dst - 1" "week_loop (dst_week dst - 1) (int a) (int n) = int a + 7 * int j"
    "int a + 7 * int j < int n" "j = dst_week dst - 1 \<or> int n \<le> int a + 7 * int j + 7"
    using week_loop_spec [of "int a" "int n" "dst_week dst - 1"] a n by auto
  have d: "change_day dst year = 1 + (a + 7 * j)" unfolding c j(2) by linarith
  have dw: "clock_dow (1 + (a + 7 * j)) (dst_month dst) year = dst_dow dst"
    unfolding clock_dow_add w_def [symmetric] using a by (metis add.assoc mod_mult_self2)
  have "(a + 7 * j) div 7 = j" using a by simp
  then show ?thesis using j dw assms(4) unfolding Let_def d n_def [symmetric] by auto
qed

text \<open>When daylight saving time begins and ends in a year, without the cache.\<close>

definition dst_begin_time :: "clock_timezone_t \<Rightarrow> nat \<Rightarrow> u32" where
  "dst_begin_time tz year =
     chg_when (snd (clock_compute_change (utctime tz) (dstbegin tz) year \<lparr>chg_when = 0, chg_year = -1\<rparr>))"

definition dst_end_time :: "clock_timezone_t \<Rightarrow> nat \<Rightarrow> u32" where
  "dst_end_time tz year =
     chg_when (snd (clock_compute_change (utctime tz) (dstend tz) year \<lparr>chg_when = 0, chg_year = -1\<rparr>)) - dsttime tz"

text \<open>Every valid entry of the cache holds the change of its year.\<close>

definition cache_ok :: "clock_timezone_t \<Rightarrow> dst_cache \<Rightarrow> bool" where
  "cache_ok tz c \<longleftrightarrow>
     (chg_year (fst c) \<ge> 0 \<longrightarrow> chg_when (fst c) = dst_begin_time tz (nat (chg_year (fst c))))
     \<and> (chg_year (snd c) \<ge> 0 \<longrightarrow> chg_when (snd c) = dst_end_time tz (nat (chg_year (snd c))))"

lemma clock_tz_compute_cached:
  assumes "cache_ok tz c" and "year < 256"
  shows "cache_ok tz (clock_tz_compute tz year c)
    \<and> chg_when (fst (clock_tz_compute tz year c)) = dst_begin_time tz year
    \<and> chg_when (snd (clock_tz_compute tz year c)) = dst_end_time tz year"
  using assms
  by (auto simp: cache_ok_def clock_tz_compute_def clock_compute_change_def Let_def dst_begin_time_def dst_end_time_def split: prod.splits if_splits)

lemma clock_reset_cached: "cache_ok tz (clock_reset_dst_change c)"
  by (simp add: cache_ok_def clock_reset_dst_change_def)

lemma datetime_year: "clock_datetime t = Some d \<Longrightarrow> d_year d < 256"
  using datetime_correct [of t] by auto

text \<open>
  C36: the cache of changes is transparent.  With a cache whose entries belong to their years,
  \<^verbatim>\<open>clock_localtime\<close> keeps such a cache and returns what the begin and end of daylight saving
  time in the date's year prescribe, on both hemispheres.\<close>

theorem clock_localtime_spec:
  assumes "cache_ok tz c"
  shows "cache_ok tz (snd (clock_localtime tz t c))
    \<and> (\<exists>d. clock_datetime (t + utctime tz) = Some d
       \<and> fst (clock_localtime tz t c) =
          (let b = dst_begin_time tz (d_year d); e = dst_end_time tz (d_year d)
           in if dsttime tz \<noteq> 0 \<and> (if b > e then t < e \<or> t \<ge> b else t \<ge> b \<and> t < e)
              then map_option (d_isdst_update (\<lambda>_. 1)) (clock_datetime (t + utctime tz + dsttime tz))
              else Some d))"
proof -
  obtain d where d: "clock_datetime (t + utctime tz) = Some d" using datetime_correct by blast
  note cc = clock_tz_compute_cached [OF assms datetime_year [OF d]]
  show ?thesis
    using cc by (auto simp: clock_localtime_def d Let_def clock_is_dst_def)
qed

text \<open>
  converting a time stamp to local time and back with \<^verbatim>\<open>clock_mktime\<close> returns it, in
  standard and in daylight saving time, outside the dates named above.\<close>

theorem clock_local_roundtrip:
  assumes "clock_localtime tz t c = (Some d, c')" and "d_year d \<le> 200" and "d_year d \<noteq> 100 \<or> d_month d \<le> 2"
  shows "fst (clock_mktime tz True d c') = t"
proof -
  obtain d0 where d0: "clock_datetime (t + utctime tz) = Some d0" using datetime_correct by blast
  have z: "d_isdst x = 0" if "clock_datetime u = Some x" for u x
    using that by (auto simp: clock_datetime_def Let_def split: prod.splits option.splits)
  have b: "fst (clock_mktime tz True x c') = fst (clock_mktime tz False x c') - utctime tz - (if d_isdst x > 0 then dsttime tz else 0)"
    if "d_isdst x \<ge> 0" for x using that by (simp add: clock_mktime_def Let_def)
  have u: "fst (clock_mktime tz False (x\<lparr>d_isdst := i\<rparr>) c') = fst (clock_mktime tz False x c')" for x i
    by (simp add: clock_mktime_def Let_def)
  consider (std) "d = d0" | (dst) x where "clock_datetime (t + utctime tz + dsttime tz) = Some x" "d = x\<lparr>d_isdst := 1\<rparr>"
    using assms(1) d0 by (auto simp: clock_localtime_def Let_def split: if_splits)
  then show ?thesis
  proof cases
    case std
    then show ?thesis using mktime_datetime [OF d0, of tz c'] z [OF d0] b [of d0] assms(2,3) by (auto simp: mktime_error_def)
  next
    case dst
    then show ?thesis using mktime_datetime [OF dst(1), of tz c'] b [of d] u assms(2,3) by (auto simp: mktime_error_def)
  qed
qed

subsection \<open>Weeks\<close>

text \<open>The weekday of the first of January, counted from Monday.\<close>

definition jan_1 :: "nat \<Rightarrow> nat" where
  "jan_1 year = (clock_dow 1 1 year + 6) mod 7"

text \<open>
  The week number of ISO 8601: the ordinal, in its own year, of the Thursday of the week a day
  belongs to, divided by seven.
\<close>

definition iso_week :: "nat \<Rightarrow> nat \<Rightarrow> int" where
  "iso_week year yday =
     (let th = int yday - int ((jan_1 year + yday) mod 7) + 3
      in if th < 0 then (th + int (year_days (1900 + year - 1))) div 7 + 1
         else if th \<ge> int (year_days (1900 + year)) then 1
         else th div 7 + 1)"

lemma jan_1_offset_jan_1: "jan_1_offset year = (if jan_1 year \<le> 3 then int (jan_1 year) else int (jan_1 year) - 7)"
proof -
  have "clock_dow 1 1 year < 7" by (rule clock_dow_less)
  then have "clock_dow 1 1 year = 0 \<or> clock_dow 1 1 year = 1 \<or> clock_dow 1 1 year = 2 \<or> clock_dow 1 1 year = 3
    \<or> clock_dow 1 1 year = 4 \<or> clock_dow 1 1 year = 5 \<or> clock_dow 1 1 year = 6" by presburger
  then show ?thesis by (elim disjE) (simp_all add: jan_1_offset_def jan_1_def Let_def)
qed

lemma jan_1_less: "jan_1 year < 7" by (simp add: jan_1_def)

lemma jan_1_Suc:
  assumes "70 \<le> year"
  shows "jan_1 (Suc year) = (jan_1 year + year_days (1900 + year)) mod 7"
proof -
  have g: "greg_days (1900 + Suc year) 1 1 = greg_days (1900 + year) 1 1 + year_days (1900 + year)"
    using assms upt_Suc_append [of 1970 "1900 + year"] by (simp add: greg_days_def EPOCH_YEAR_def)
  have "jan_1 y = (greg_days (1900 + y) 1 1 + 10) mod 7" if "70 \<le> y" for y
    unfolding jan_1_def using that by (subst clock_dow_greg, simp_all) (subst mod_add_left_eq, simp add: add.commute)
  then have "jan_1 (Suc year) = (greg_days (1900 + year) 1 1 + 10 + year_days (1900 + year)) mod 7"
    and "jan_1 year = (greg_days (1900 + year) 1 1 + 10) mod 7"
    using assms g by (simp_all add: add.assoc add.commute [of 10])
  then show ?thesis by (simp add: mod_add_left_eq)
qed

lemma woy_main:
  fixes j yday N :: nat and off s :: int
  assumes "off = (if j \<le> 3 then int j else int j - 7)" and "j < 7" and "s = int yday + off" and "0 \<le> s"
    and "yday < N" and "N = 365 \<or> N = 366"
  shows "0 \<le> int yday - int ((j + yday) mod 7) + 3
    \<and> (let th = int yday - int ((j + yday) mod 7) + 3 in if th \<ge> int N then 1 else th div 7 + 1) =
     (if s div 7 + 1 = 53 then if off = 3 \<or> off = 2 \<and> N = 366 then s div 7 + 1 else 1 else s div 7 + 1)"
proof -
  have "int ((j + yday) mod 7) = (int j + int yday) mod 7" by (simp add: zmod_int)
  also have "\<dots> = s mod 7"
  proof (cases "j \<le> 3")
    case True
    then show ?thesis using assms(1,3) by (simp add: add.commute)
  next
    case False
    then have "int j + int yday = s + 7" using assms(1,3) by simp
    then show ?thesis by simp
  qed
  finally have m: "int ((j + yday) mod 7) = s mod 7" .
  define q where "q = s div 7"
  have th: "int yday - int ((j + yday) mod 7) + 3 = 7 * q + (3 - off)"
    unfolding m q_def using assms(3) div_mult_mod_eq [of s 7] by linarith
  have o: "0 \<le> 3 - off" "3 - off \<le> 6" using assms(1,2) by auto
  have q0: "0 \<le> q" using assms(4) by (simp add: q_def)
  have d: "(7 * q + (3 - off)) div 7 = q" using o by (simp add: div_pos_pos_trivial)
  have "s < int N + 4" using assms(3,5) o by linarith
  then have "q \<le> 52" using assms(6) by (auto simp: q_def)
  then show ?thesis
    unfolding th Let_def using o q0 d assms(6) by (auto simp: q_def [symmetric])
qed

lemma woy_prev:
  fixes j j' N :: nat and off' s' :: int
  assumes "j' < 7" and "j = (j' + N) mod 7" and "N = 365 \<or> N = 366" and "3 < j \<or> j = 0"
    and "off' = (if j' \<le> 3 then int j' else int j' - 7)" and "s' = int N - 1 + off'"
  shows "0 < s' \<and> (if s' div 7 + 1 = 53 then if off' = 3 \<or> off' = 2 \<and> N = 366 then s' div 7 + 1 else 1 else s' div 7 + 1)
    = (if j = 0 then 52 else (3 - int j + int N) div 7 + 1) \<and> 51 < (3 - int j + int N) div 7 + 1"
proof -
  have "j' = 0 \<or> j' = 1 \<or> j' = 2 \<or> j' = 3 \<or> j' = 4 \<or> j' = 5 \<or> j' = 6" using assms(1) by presburger
  then show ?thesis using assms(3)
    by (elim disjE) (use assms(2,4,5,6) in simp_all)
qed

lemma clock_woy_dec31:
  assumes "70 \<le> year" and "year \<le> 200" and "year \<noteq> 100" and "3 < jan_1 (Suc year) \<or> jan_1 (Suc year) = 0"
  shows "int (clock_woy 31 12 year) =
      (if jan_1 (Suc year) = 0 then 52 else (3 - int (jan_1 (Suc year)) + int (year_days (1900 + year))) div 7 + 1)
    \<and> 52 \<le> clock_woy 31 12 year"
proof -
  let ?N = "year_days (1900 + year)"
  have N: "?N = 365 \<or> ?N = 366" and l: "IS_LEAP_YEAR year \<longleftrightarrow> ?N = 366"
    using leap_two_digits [of year] assms by (auto simp: year_days_def)
  have yd: "int (clock_yday 31 12 year) = int ?N - 1"
    using N l by (auto simp: clock_yday_def clock_monthydays_def)
  define s where "s = int ?N - 1 + jan_1_offset year"
  have w: "0 < s" "(if s div 7 + 1 = 53 then if jan_1_offset year = 3 \<or> jan_1_offset year = 2 \<and> ?N = 366 then s div 7 + 1 else 1 else s div 7 + 1)
    = (if jan_1 (Suc year) = 0 then 52 else (3 - int (jan_1 (Suc year)) + int ?N) div 7 + 1)" "51 < (3 - int (jan_1 (Suc year)) + int ?N) div 7 + 1"
    using woy_prev [OF jan_1_less jan_1_Suc [OF assms(1)] N assms(4) jan_1_offset_jan_1 s_def] by blast+
  have "int (clock_woy 31 12 year) = (if s div 7 + 1 = 53 then if jan_1_offset year = 3 \<or> jan_1_offset year = 2 \<and> ?N = 366 then s div 7 + 1 else 1 else s div 7 + 1)"
    using w(1) l by (subst clock_woy.simps) (auto simp: Let_def yd s_def [symmetric])
  then show ?thesis using w by (auto split: if_splits)
qed

lemma yday_less:
  assumes "valid_date (1900 + year) month day" and "70 \<le> year" and "year \<le> 200" and "year \<noteq> 100"
  shows "clock_yday day month year < year_days (1900 + year)"
proof -
  have l: "IS_LEAP_YEAR year = IS_LEAP_YEAR (1900 + year)" using leap_two_digits [of year] assms by simp
  have m: "day \<le> 31" using month_cases [of month] assms(1)
    by (auto simp: valid_date_def month_days_def clock_month_days_def clock_monthdays_def split: if_splits)
  have y: "clock_yday day month year = clock_monthydays (IS_LEAP_YEAR year) ! (month - 1) + day - 1"
    using assms(1) m by (intro clock_yday_table) (auto simp: valid_date_def)
  show ?thesis
    using month_cases [of month] assms(1) unfolding y l
    by (auto simp: valid_date_def month_days_def clock_month_days_def clock_monthdays_def clock_monthydays_def year_days_def split: if_splits)
qed

text \<open>
  the week number agrees with ISO 8601 except on the Monday of the first week of a year
  that starts on a Friday, Saturday, Sunday or Monday: there the code returns the last week of the
  previous year instead of 1.\<close>

theorem clock_woy_iso:
  assumes "71 \<le> year" and "year \<le> 200" and "year \<noteq> 100" and "year \<noteq> 101" and "valid_date (1900 + year) month day"
  shows "let yday = clock_yday day month year in
    if int yday + jan_1_offset year = 0
    then iso_week year yday = 1 \<and> 52 \<le> clock_woy day month year
    else int (clock_woy day month year) = iso_week year yday"
proof -
  let ?N = "year_days (1900 + year)"
  have N: "?N = 365 \<or> ?N = 366" and l: "IS_LEAP_YEAR year \<longleftrightarrow> ?N = 366"
    using leap_two_digits [of year] assms by (auto simp: year_days_def)
  obtain p where p: "year = Suc p" using assms(1) by (cases year) auto
  define yday where "yday = clock_yday day month year"
  define s where "s = int yday + jan_1_offset year"
  have lt: "yday < ?N" using yday_less assms by (simp add: yday_def)
  note j = jan_1_less [of year]
  have prev: "clock_woy day month year = clock_woy 31 12 p" if "s \<le> 0"
    using that assms(2) p by (subst clock_woy.simps) (simp add: Let_def yday_def s_def)
  have small: "3 < jan_1 year" if "s < 0"
    using that jan_1_offset_jan_1 [of year] by (auto simp: s_def split: if_splits)
  have iso: "iso_week year yday = (let th = int yday - int ((jan_1 year + yday) mod 7) + 3 in
      if th < 0 then (th + int (year_days (1900 + year - 1))) div 7 + 1 else if th \<ge> int ?N then 1 else th div 7 + 1)"
    by (simp add: iso_week_def)
  note main = woy_main [OF jan_1_offset_jan_1 j s_def _ lt N]
  consider "s < 0" | "s = 0" | "0 < s" by linarith
  then show ?thesis
  proof cases
    case 1
    then have jj: "3 < jan_1 year" "yday + jan_1 year < 7"
      using small jan_1_offset_jan_1 [of year] by (auto simp: s_def)
    have "iso_week year yday = (3 - int (jan_1 year) + int (year_days (1900 + p))) div 7 + 1"
    proof -
      have "(jan_1 year + yday) mod 7 = jan_1 year + yday" using jj by simp
      moreover have "1900 + year - 1 = 1900 + p" by (simp add: p)
      ultimately show ?thesis unfolding iso Let_def using jj by simp
    qed
    moreover have "int (clock_woy 31 12 p) = (3 - int (jan_1 year) + int (year_days (1900 + p))) div 7 + 1"
      using clock_woy_dec31 [of p] jj assms p by auto
    ultimately have "int (clock_woy day month year) = iso_week year yday" using prev 1 by simp
    then show ?thesis using 1 unfolding Let_def yday_def [symmetric] s_def [symmetric] by simp
  next
    case 2
    then have "3 < jan_1 year \<or> jan_1 year = 0"
      using jan_1_offset_jan_1 [of year] by (cases "jan_1 year \<le> 3") (auto simp: s_def)
    then have "52 \<le> clock_woy day month year"
      using prev clock_woy_dec31 [of p] 2 assms p by auto
    moreover have "iso_week year yday = 1" using 2 main unfolding iso Let_def by simp
    ultimately show ?thesis using 2 by (simp add: Let_def yday_def [symmetric] s_def [symmetric])
  next
    case 3
    have "int (clock_woy day month year) = (if s div 7 + 1 = 53 then if jan_1_offset year = 3 \<or> jan_1_offset year = 2 \<and> ?N = 366 then s div 7 + 1 else 1 else s div 7 + 1)"
      using 3 l by (subst clock_woy.simps) (auto simp: Let_def s_def yday_def)
    then show ?thesis
      using 3 main unfolding iso Let_def yday_def [symmetric] s_def [symmetric] by simp
  qed
qed

subsection \<open>Setting the clock\<close>

lemma unat_u32_inc: "unat (x :: u32) + 1 < 2 ^ 32 \<Longrightarrow> unat (x + 1) = unat x + 1"
  by (simp add: unat_word_ariths)

lemma seconds:
  assumes "sync_timestamp s \<noteq> 0" and "sync_timestamp s \<le> clock_timestamp s"
    and "unat (sync_timestamp s) + k < 2 ^ 32"
  shows "unat (sync_timestamp ((clock_second ^^ k) s)) = unat (sync_timestamp s) + k
    \<and> unat (clock_timestamp ((clock_second ^^ k) s)) = max (unat (clock_timestamp s)) (unat (sync_timestamp s) + k)"
  using assms(3)
proof (induction k)
  case 0
  then show ?case using assms(2) by (simp add: word_le_nat_alt)
next
  case (Suc k)
  define u where "u = (clock_second ^^ k) s"
  have IH: "unat (sync_timestamp u) = unat (sync_timestamp s) + k"
    "unat (clock_timestamp u) = max (unat (clock_timestamp s)) (unat (sync_timestamp s) + k)"
    using Suc by (simp_all add: u_def)
  have nz: "sync_timestamp u \<noteq> 0" using IH(1) assms(1) by (metis add_is_0 unat_0 unat_eq_zero)
  have inc: "unat (sync_timestamp u + 1) = unat (sync_timestamp s) + Suc k"
    using unat_u32_inc [of "sync_timestamp u"] IH Suc.prems by simp
  have su: "(clock_second ^^ Suc k) s = clock_second u" by (simp add: u_def)
  have f: "sync_timestamp (clock_second u) = sync_timestamp u + 1"
    "clock_timestamp (clock_second u) =
      (if sync_timestamp u = clock_timestamp u then sync_timestamp u + 1 else clock_timestamp u)"
    using nz by (auto simp: clock_second_def Let_def)
  show ?case
  proof (cases "sync_timestamp u = clock_timestamp u")
    case True
    then have "unat (clock_timestamp s) \<le> unat (sync_timestamp s) + k" using IH by simp
    then show ?thesis unfolding su f using True inc by simp
  next
    case False
    then have "unat (sync_timestamp s) + k < unat (clock_timestamp s)"
      using IH by (metis max.absorb2 not_less word_unat_eq_iff)
    then show ?thesis unfolding su f using False inc IH by simp
  qed
qed

text \<open>\<open>n\<close> ticks run the body of a second as often as \<open>HZ\<close> fits into them.\<close>

lemma clock_ticks:
  assumes "HZ \<noteq> 0" and "ticks s < HZ"
  shows "\<exists>r. (clock_tick HZ ^^ n) s = ((clock_second ^^ ((unat (ticks s) + n) div unat HZ)) s)\<lparr>ticks := r\<rparr>
    \<and> unat r = (unat (ticks s) + n) mod unat HZ"
proof (induction n)
  case 0
  then show ?case using assms by (intro exI [of _ "ticks s"]) (simp add: word_less_nat_alt)
next
  case (Suc n)
  define q where "q = (unat (ticks s) + n) div unat HZ"
  obtain r where r: "(clock_tick HZ ^^ n) s = ((clock_second ^^ q) s)\<lparr>ticks := r\<rparr>"
    "unat r = (unat (ticks s) + n) mod unat HZ" using Suc q_def by blast
  have hz: "0 < unat HZ" using assms(1) by (simp add: unat_gt_0)
  then have lt: "unat r < unat HZ" using r(2) by simp
  then have r1: "unat (r + 1) = unat r + 1" using u8_less_256 [of HZ] by (simp add: unat_word_ariths)
  have ts: "clock_second (x\<lparr>ticks := y\<rparr>) = (clock_second x)\<lparr>ticks := y\<rparr>" for x y
    by (simp add: clock_second_def Let_def)
  have tk: "clock_tick HZ (x\<lparr>ticks := r\<rparr>) =
      (if HZ \<le> r + 1 then (clock_second x)\<lparr>ticks := r + 1 - HZ\<rparr> else x\<lparr>ticks := r + 1\<rparr>)" for x
    by (simp add: clock_tick_def Let_def ts)
  have st: "(clock_tick HZ ^^ Suc n) s = clock_tick HZ (((clock_second ^^ q) s)\<lparr>ticks := r\<rparr>)"
    using r(1) by simp
  show ?case
  proof (cases "Suc (unat r) = unat HZ")
    case True
    then have e: "r + 1 = HZ" using r1 by (simp add: word_unat_eq_iff)
    have "Suc (unat (ticks s) + n) div unat HZ = Suc q" "Suc (unat (ticks s) + n) mod unat HZ = 0"
      using True r(2) by (simp_all add: q_def div_Suc mod_Suc)
    then show ?thesis using e unfolding st tk by (intro exI [of _ 0]) simp
  next
    case False
    then have g: "\<not> HZ \<le> r + 1" using r1 lt by (simp add: word_le_nat_alt)
    have "Suc (unat (ticks s) + n) div unat HZ = q" "Suc (unat (ticks s) + n) mod unat HZ = unat r + 1"
      using False r(2) by (simp_all add: q_def div_Suc mod_Suc)
    then show ?thesis using g r1 unfolding st tk by (intro exI [of _ "r + 1"]) simp
  qed
qed

text \<open>
  C31: when the clock is set, it does not go back, except by more than five minutes, and is
  then at most five minutes ahead of the new time \<open>t\<close>.  After \<open>n\<close> further ticks, that is
  \<open>k\<close> full seconds, it shows the maximum of its value and \<open>t + k\<close>: a clock that is ahead
  stands still until the new time has caught up.\<close>

theorem clock_converges:
  assumes "t \<noteq> 0" and "HZ \<noteq> 0" and "ticks s < HZ" 
    and "k = (unat (ticks s) + n) div unat HZ" and "unat t + k < 2 ^ 32"
  shows "let s0 = clock_set_time period t s; s1 = (clock_tick HZ ^^ n) s0 in
     (unat (clock_get_time s) \<le> unat (clock_get_time s0) \<or> clock_get_time s0 = t \<and> unat (clock_get_time s) > unat t + 300)
     \<and> unat (clock_get_time s1) = max (unat (clock_get_time s0)) (unat t + k)
     \<and> unat (clock_get_time s0) \<le> unat t + 300"
proof -
  define s0 where "s0 = clock_set_time period t s"
  have f: "ticks s0 = ticks s" "sync_timestamp s0 = t" by (simp_all add: s0_def clock_set_time_def Let_def)
  have ct: "clock_timestamp s0 = (if t > clock_timestamp s \<or> clock_timestamp s - t > 300 then t else clock_timestamp s)"
    by (simp add: s0_def clock_set_time_def Let_def)
  have le: "t \<le> clock_timestamp s0" and up: "unat (clock_timestamp s0) \<le> unat t + 300"
    and mono: "unat (clock_timestamp s) \<le> unat (clock_timestamp s0) \<or> clock_timestamp s0 = t \<and> unat (clock_timestamp s) > unat t + 300"
    unfolding ct by (auto simp: word_less_nat_alt word_le_nat_alt unat_sub_if' not_less)
  obtain r where "(clock_tick HZ ^^ n) s0 = ((clock_second ^^ k) s0)\<lparr>ticks := r\<rparr>"
    using clock_ticks [OF assms(2), of s0 n] assms(3,4) f by auto
  then show ?thesis
    using seconds [of s0 k] f le up mono assms(1,5) by (simp add: Let_def clock_get_time_def s0_def [symmetric])
qed

subsection \<open>Witnesses\<close>

lemmas clock_eval = clock_datetime_def year_loop.simps month_loop.simps IS_LEAP_YEAR_def
  EPOCH_YEAR_def EPOCH_DOW_def clock_month_days_def clock_monthdays_def Let_def

definition tz_cet :: clock_timezone_t where
  "tz_cet = \<lparr>utctime = 3600, dsttime = 3600,
     dstbegin = \<lparr>dst_month = 3, dst_week = 5, dst_dow = 0, dst_hour = 2\<rparr>,
     dstend = \<lparr>dst_month = 10, dst_week = 5, dst_dow = 0, dst_hour = 3\<rparr>\<rparr>"

definition no_cache :: dst_cache where
  "no_cache = (\<lparr>chg_when = 0, chg_year = -1\<rparr>, \<lparr>chg_when = 0, chg_year = -1\<rparr>)"

lemma datetime_2000_03_01:
  "clock_datetime 951868800 =
     Some \<lparr>d_sec = 0, d_min = 0, d_hour = 0, d_day = 1, d_month = 3, d_dow = 3, d_year = 100,
           d_yday = 60, d_isdst = 0\<rparr>"
  by (simp add: clock_eval)

lemma datetime_1970_01_02:
  "clock_datetime 90061 =
     Some \<lparr>d_sec = 1, d_min = 1, d_hour = 1, d_day = 2, d_month = 1, d_dow = 5, d_year = 70,
           d_yday = 1, d_isdst = 0\<rparr>"
  by (simp add: clock_eval)

theorem clock_dow_correct_witness:
  "valid_date (1900 + 100) 2 29 \<and> clock_dow 29 2 100 = (greg_days (1900 + 100) 2 29 + 4) mod 7"
proof -
  have "valid_date (1900 + 100) 2 29"
    by (simp add: valid_date_def month_days_def clock_month_days_def clock_monthdays_def IS_LEAP_YEAR_def)
  then show ?thesis using clock_dow_correct [of 100 2 29] by simp
qed

theorem clock_mktime_roundtrip_witness:
  "\<exists>d. clock_datetime 90061 = Some d \<and> fst (clock_mktime tz_cet False d no_cache) = 90061"
  using clock_mktime_roundtrip [OF datetime_1970_01_02, of tz_cet no_cache] datetime_1970_01_02
  by auto

theorem clock_mktime_2000_witness:
  "\<exists>d. clock_datetime 951868800 = Some d \<and> fst (clock_mktime tz_cet False d no_cache) = 951782400"
  using clock_mktime_2000 [OF datetime_2000_03_01, of tz_cet no_cache] datetime_2000_03_01
  by auto

theorem clock_yday2date_yday_witness: "clock_yday2date (clock_yday 29 2 96) 96 = (29, 2)"
  by (rule clock_yday2date_yday)
    (simp_all add: month_days_def clock_month_days_def clock_monthdays_def IS_LEAP_YEAR_def)

theorem clock_change_day_witness:
  "clock_dow (change_day (dstbegin tz_cet) 120) 3 120 = 0"
  using clock_change_day [of "dstbegin tz_cet" 120] by (simp add: tz_cet_def Let_def)

theorem clock_localtime_spec_witness:
  "cache_ok tz_cet no_cache \<and> cache_ok tz_cet (snd (clock_localtime tz_cet 90061 no_cache))"
proof -
  have "cache_ok tz_cet no_cache" by (simp add: cache_ok_def no_cache_def)
  then show ?thesis using clock_localtime_spec [of tz_cet no_cache 90061] by simp
qed

theorem clock_local_roundtrip_witness:
  "\<exists>d c. clock_localtime (tz_cet\<lparr>dsttime := 0\<rparr>) 86461 no_cache = (Some d, c) \<and> d_hour d = 1
     \<and> fst (clock_mktime (tz_cet\<lparr>dsttime := 0\<rparr>) True d c) = 86461"
proof -
  let ?tz = "tz_cet\<lparr>dsttime := 0\<rparr>"
  obtain d c where l: "clock_localtime ?tz 86461 no_cache = (Some d, c)"
      and d: "d_year d = 70" "d_hour d = 1"
    using datetime_1970_01_02
    by (auto simp: clock_localtime_def Let_def clock_is_dst_def tz_cet_def)
  then show ?thesis using clock_local_roundtrip [OF l] by auto
qed

theorem clock_woy_iso_witness:
  "valid_date (1900 + 107) 1 1 \<and> iso_week 107 (clock_yday 1 1 107) = 1 \<and> 52 \<le> clock_woy 1 1 107"
proof -
  have v: "valid_date (1900 + 107) 1 1"
    by (simp add: valid_date_def month_days_def clock_month_days_def clock_monthdays_def)
  have "int (clock_yday 1 1 107) + jan_1_offset 107 = 0"
    by (simp add: clock_yday_def clock_monthydays_def jan_1_offset_def clock_dow_def EPOCH_CENTURY_def)
  then show ?thesis using clock_woy_iso [OF _ _ _ _ v] v by (simp add: Let_def)
qed

theorem clock_converges_witness:
  "unat (clock_get_time ((clock_tick 50 ^^ 150)
     (clock_set_time 1800 1000
       \<lparr>clock_timestamp = 1001, ticks = 0, sync_timestamp = 0, n_sync_timestamp = 0, n_sync_tick = 0,
        delta = 0, ntp_count = 0, dcf_count = 0, ntp_timer = 0, uptime_timestamp = 0,
        dst_change = no_cache, ntp_packets = 0\<rparr>))) = 1003"
proof -
  let ?s = "\<lparr>clock_timestamp = 1001, ticks = 0, sync_timestamp = 0, n_sync_timestamp = 0, n_sync_tick = 0,
        delta = 0, ntp_count = 0, dcf_count = 0, ntp_timer = 0, uptime_timestamp = 0,
        dst_change = no_cache, ntp_packets = 0\<rparr> :: clock_state"
  have c: "unat (clock_get_time (clock_set_time 1800 1000 ?s)) = 1001"
    by (simp add: clock_get_time_def clock_set_time_def Let_def)
  have m: "max 1001 (unat (1000 :: u32) + 3) = 1003" by simp
  have h: "(1000 :: u32) \<noteq> 0" "(50 :: u8) \<noteq> 0" "ticks ?s < 50"
      "3 = (unat (ticks ?s) + 150) div unat (50 :: u8)" "unat (1000 :: u32) + 3 < 2 ^ 32"
    by simp_all
  show ?thesis
    using clock_converges [OF h, of 1800] unfolding Let_def c m by blast
qed

end
