(* ===== verification/E6_Cstring.thy ===== *)
theory E6_Cstring
  imports E6_Prelude "HOL-Library.Monad_Syntax"
begin

text \<open>
  The functions of the C library's \<^verbatim>\<open>string.h\<close> that the components above it call, on byte arrays.
  A pointer into an array is the rest of the array from there on, so the length of the list is
  the memory that may be accessed; an access outside of it is undefined behaviour, \<open>None\<close>.
\<close>

text \<open>The characters of a C string: the bytes before the terminating zero.\<close>

definition cstr :: "u8 list \<Rightarrow> u8 list" where
  "cstr b = takeWhile (\<lambda>x. x \<noteq> 0) b"

definition strlen :: "u8 list \<Rightarrow> nat option" where
  "strlen b = (if 0 \<in> set b then Some (length (cstr b)) else None)"

definition memcpy :: "u8 list \<Rightarrow> nat \<Rightarrow> u8 list \<Rightarrow> u8 list option" where
  "memcpy buf dst src =
     (if dst + length src \<le> length buf
      then Some (take dst buf @ src @ drop (dst + length src) buf) else None)"

definition memmove :: "u8 list \<Rightarrow> nat \<Rightarrow> nat \<Rightarrow> nat \<Rightarrow> u8 list option" where
  "memmove buf dst src n =
     (if src + n \<le> length buf then memcpy buf dst (take n (drop src buf)) else None)"

text \<open>\<^verbatim>\<open>strncpy\<close> pads with zeros; it ends with no zero if the source is longer than \<open>n\<close>.\<close>

definition strncpy :: "u8 list \<Rightarrow> nat \<Rightarrow> u8 list" where
  "strncpy src n = (let t = take n (cstr src) in t @ replicate (n - length t) 0)"

text \<open>Reading and writing one element.\<close>

definition peek :: "u8 list \<Rightarrow> nat \<Rightarrow> u8 option" where
  "peek b i = (if i < length b then Some (b ! i) else None)"

definition poke :: "u8 list \<Rightarrow> nat \<Rightarrow> u8 \<Rightarrow> u8 list option" where
  "poke b i x = (if i < length b then Some (b[i := x]) else None)"

subsection \<open>Lemmas\<close>

lemma cstr_append [simp]: "0 \<notin> set t \<Longrightarrow> cstr (t @ 0 # rest) = t"
  unfolding cstr_def by (induction t) auto

lemma cstr_no_zero [simp]: "0 \<notin> set (cstr b)"
  unfolding cstr_def using set_takeWhileD by fastforce

lemma cstr_split: "0 \<in> set b \<Longrightarrow> \<exists>rest. b = cstr b @ 0 # rest"
  unfolding cstr_def
  by (metis (mono_tags, lifting) dropWhile_eq_Cons_conv dropWhile_eq_Nil_conv neq_Nil_conv takeWhile_dropWhile_id)

lemma strlen_append [simp]: "0 \<notin> set t \<Longrightarrow> strlen (t @ 0 # rest) = Some (length t)"
  by (simp add: strlen_def)

lemma strlen_SomeD: "strlen b = Some n \<Longrightarrow> \<exists>t rest. b = t @ 0 # rest \<and> length t = n \<and> 0 \<notin> set t \<and> cstr b = t"
  using cstr_split cstr_no_zero unfolding strlen_def by (metis option.distinct(1) option.inject)

lemma length_strncpy [simp]: "length (strncpy src n) = n"
  by (simp add: strncpy_def Let_def)

lemma memcpy_append:
  "length old = length new \<Longrightarrow> memcpy (xs @ old @ ys) (length xs) new = Some (xs @ new @ ys)"
  by (simp add: memcpy_def)

lemma length_memcpy: "memcpy buf dst src = Some buf' \<Longrightarrow> length buf' = length buf"
  by (auto simp: memcpy_def split: if_splits)

lemma length_memmove: "memmove buf dst src n = Some buf' \<Longrightarrow> length buf' = length buf"
  by (auto simp: memmove_def split: if_splits dest: length_memcpy)

lemma length_poke: "poke b i x = Some b' \<Longrightarrow> length b' = length b"
  by (auto simp: poke_def split: if_splits)

lemmas buffer_lengths = length_memcpy length_memmove length_poke

end
