(* ===== verification/E6_Ecmd.thy ===== *)
theory E6_Ecmd
  imports E6_Cstring
begin

text \<open>
  The command interpreter of \<^verbatim>\<open>protocols/ecmd\<close>: the result codes of \<^verbatim>\<open>ecmd-base.h\<close>, the removal
  of backspaces, the aliases of \<^verbatim>\<open>aliascmd.c\<close> and the dispatch of \<^verbatim>\<open>parser.c\<close>.

  The table of commands and the list of aliases are generated by the build and are arguments.
  A command is a function of the rest of the command line, the output buffer, its length and
  the state of the firmware (type variable \<open>'s\<close>); it may write to the command line, which is how
  the code keeps the state of a command between two calls.  \<open>None\<close> is undefined behaviour: an access
  outside of a buffer.
\<close>

subsection \<open>Results\<close>

definition ECMD_FINAL_OK :: int where "ECMD_FINAL_OK = 0"
definition ECMD_FINAL :: "int \<Rightarrow> int" where "ECMD_FINAL len = len"
definition ECMD_AGAIN_MAGIC :: int where "ECMD_AGAIN_MAGIC = -10"
definition ECMD_AGAIN :: "int \<Rightarrow> int" where "ECMD_AGAIN len = ECMD_AGAIN_MAGIC - len"
definition ECMD_NO_NEWLINE :: u8 where "ECMD_NO_NEWLINE = 0x23"
definition ECMD_ERR_PARSE_ERROR :: int where "ECMD_ERR_PARSE_ERROR = -1"
definition ECMD_ERR_READ_ERROR :: int where "ECMD_ERR_READ_ERROR = -2"
definition ECMD_ERR_WRITE_ERROR :: int where "ECMD_ERR_WRITE_ERROR = -3"
definition is_ECMD_AGAIN :: "int \<Rightarrow> bool" where "is_ECMD_AGAIN len \<longleftrightarrow> len \<le> ECMD_AGAIN_MAGIC"
definition is_ECMD_FINAL :: "int \<Rightarrow> bool" where "is_ECMD_FINAL len \<longleftrightarrow> len \<ge> 0"
definition is_ECMD_ERR :: "int \<Rightarrow> bool" where "is_ECMD_ERR len \<longleftrightarrow> len > ECMD_AGAIN_MAGIC \<and> len < 0"
definition ECMD_STATE_MAGIC :: u8 where "ECMD_STATE_MAGIC = 23"
definition ECMD_INPUTBUF_LENGTH :: nat where "ECMD_INPUTBUF_LENGTH = 50"
definition ECMD_OUTPUTBUF_LENGTH :: nat where "ECMD_OUTPUTBUF_LENGTH = 50"

lemmas ecmd_codes = ECMD_FINAL_OK_def ECMD_FINAL_def ECMD_AGAIN_MAGIC_def ECMD_AGAIN_def
  ECMD_ERR_PARSE_ERROR_def ECMD_ERR_READ_ERROR_def ECMD_ERR_WRITE_ERROR_def
  is_ECMD_AGAIN_def is_ECMD_FINAL_def is_ECMD_ERR_def

subsection \<open>Parser\<close>

text \<open>\<^verbatim>\<open>i\<close> is a \<^verbatim>\<open>uint8_t\<close>; a backspace at position 0 moves the line to before its buffer.\<close>

partial_function (option) backspace_loop :: "u8 \<Rightarrow> u8 list \<Rightarrow> u8 list option" where
  "backspace_loop i cmd =
     do {
       c \<leftarrow> peek cmd (unat i);
       if c \<noteq> 0 \<and> c \<noteq> ECMD_STATE_MAGIC \<and> unat i < ECMD_OUTPUTBUF_LENGTH then
         if c = 8 then
           do {
             cmdlen \<leftarrow> strlen (drop (unat i) cmd);
             cmd \<leftarrow> (if i = 0 then None else memmove cmd (unat i - 1) (unat i + 1) cmdlen);
             backspace_loop (i - 1) cmd
           }
         else backspace_loop (i + 1) cmd
       else Some cmd
     }"

type_synonym aliascmd_t = "u8 list \<times> u8 list"

text \<open>
  The search for the longest alias.  \<^verbatim>\<open>alias_cmp_len\<close> is a \<^verbatim>\<open>uint8_t\<close>, \<^verbatim>\<open>alias_cmp_idx\<close> an \<^verbatim>\<open>int8_t\<close>
  (here a byte in two's complement); the list has fewer than 256 entries, as \<^verbatim>\<open>i\<close> is a byte.
\<close>

fun alias_loop :: "aliascmd_t list \<Rightarrow> u8 \<Rightarrow> u8 list \<Rightarrow> u8 \<Rightarrow> u8 \<Rightarrow> u8 \<times> u8" where
  "alias_loop [] i cmd alias_cmp_len alias_cmp_idx = (alias_cmp_len, alias_cmp_idx)"
| "alias_loop (a # as) i cmd alias_cmp_len alias_cmp_idx =
     (let len = length (fst a) in
      if take len (drop 1 cmd) = fst a \<and> unat alias_cmp_len < len
      then alias_loop as (i + 1) cmd (of_nat len) i
      else alias_loop as (i + 1) cmd alias_cmp_len alias_cmp_idx)"

text \<open>The inner option is the returned pointer: \<open>None\<close> for no alias, otherwise the changed buffer.\<close>

definition aliascmd_decode :: "aliascmd_t list \<Rightarrow> u8 list \<Rightarrow> u8 list option option" where
  "aliascmd_decode aliascmdlist cmd =
     (case alias_loop aliascmdlist 0 cmd 0 (-1) of
        (alias_cmp_len, alias_cmp_idx) \<Rightarrow>
          if alias_cmp_idx \<noteq> -1 then
            if unat alias_cmp_idx < 128 \<and> unat alias_cmp_idx < length aliascmdlist then
              let alias = aliascmdlist ! unat alias_cmp_idx;
                  newlen = of_nat (length (snd alias)) :: u8;
                  src = unat alias_cmp_len + 1
              in do {
                   n \<leftarrow> strlen (drop src cmd);
                   cmd \<leftarrow> memmove cmd (unat newlen) src (n + 1);
                   cmd \<leftarrow> memcpy cmd 0 (take (unat newlen) (snd alias));
                   Some (Some cmd)
                 }
            else None
          else Some None)"

type_synonym 's ecmd_func =
  "u8 list \<Rightarrow> u8 list option \<Rightarrow> u16 \<Rightarrow> 's \<Rightarrow> (int \<times> u8 list \<times> u8 list option \<times> 's) option"

type_synonym 's ecmd_command_t = "u8 list \<times> 's ecmd_func"

text \<open>\<^verbatim>\<open>memcmp_P\<close> against the name of each entry; the list has fewer than 256 entries.\<close>

fun find_cmd :: "'s ecmd_command_t list \<Rightarrow> u8 list \<Rightarrow> 's ecmd_command_t option" where
  "find_cmd [] cmd = None"
| "find_cmd (c # cs) cmd =
     (if take (length (fst c)) cmd = fst c then Some c else find_cmd cs cmd)"

definition parse_error :: "u8 list" where
  "parse_error = map (of_nat \<circ> of_char) ''parse error''"

definition ok_text :: "u8 list" where
  "ok_text = map (of_nat \<circ> of_char) ''OK''"

definition call_cmd :: "'s ecmd_command_t list \<Rightarrow> 's ecmd_func" where
  "call_cmd ecmd_cmds cmd outp len s =
     (case find_cmd ecmd_cmds cmd of
        None \<Rightarrow> Some (-1, cmd, outp, s)
      | Some (text, func) \<Rightarrow>
          do {
            (ret, rest, outp, s) \<leftarrow> func (drop (length text) cmd) outp len s;
            Some (ret, take (length text) cmd @ rest, outp, s)
          })"

definition ecmd_parse_command :: "aliascmd_t list \<Rightarrow> 's ecmd_command_t list \<Rightarrow> 's ecmd_func" where
  "ecmd_parse_command aliascmdlist ecmd_cmds cmd outp len s =
     do {
       cmd \<leftarrow> backspace_loop 0 cmd;
       c \<leftarrow> peek cmd 0;
       cmd \<leftarrow> (if c = ch_dollar then
                do {
                  r \<leftarrow> aliascmd_decode aliascmdlist cmd;
                  Some (case r of Some cmd' \<Rightarrow> cmd' | None \<Rightarrow> cmd)
                }
              else Some cmd);
       n \<leftarrow> strlen cmd;
       if n < 2 then Some (0, cmd, outp, s)
       else
         do {
           (ret, cmd, outp, s) \<leftarrow> call_cmd ecmd_cmds cmd outp len s;
           case outp of
             None \<Rightarrow> Some (ret, cmd, None, s)
           | Some out \<Rightarrow>
               if ret = -1 then
                 do { out \<leftarrow> memcpy out 0 parse_error; Some (11, cmd, Some out, s) }
               else if ret = 0 then
                 do { out \<leftarrow> memcpy out 0 ok_text; Some (2, cmd, Some out, s) }
               else Some (ret, cmd, Some out, s)
         }
     }"

subsection \<open>Commands of the parser itself\<close>

definition parse_cmd_version :: "u8 list \<Rightarrow> 's ecmd_func" where
  "parse_cmd_version version cmd outp len s =
     do {
       out \<leftarrow> outp;
       out \<leftarrow> memcpy out 0 (strncpy version (unat len));
       out \<leftarrow> (if len = 0 then None else poke out (unat len - 1) 0);
       n \<leftarrow> strlen out;
       Some (ECMD_FINAL (int n), cmd, Some out, s)
     }"

text \<open>\<^verbatim>\<open>help\<close> prints one name of the table per call and keeps its position in the command line.\<close>

definition cmd_state :: "u8 list \<Rightarrow> u8 list option" where
  "cmd_state cmd =
     do {
       c \<leftarrow> peek cmd 0;
       if c \<noteq> ECMD_STATE_MAGIC
       then do { cmd \<leftarrow> poke cmd 0 ECMD_STATE_MAGIC; poke cmd 1 0 }
       else Some cmd
     }"

definition parse_cmd_help :: "u8 list list \<Rightarrow> 's ecmd_func" where
  "parse_cmd_help names cmd outp len s =
     do {
       cmd \<leftarrow> cmd_state cmd;
       pos \<leftarrow> peek cmd 1;
       cmd \<leftarrow> poke cmd 1 (pos + 1);
       text \<leftarrow> (if unat pos < length names then Some (names ! unat pos) else None);
       out \<leftarrow> outp;
       let len = (if unat len < length text then unat len else length text) in
       do {
         out \<leftarrow> memcpy out 0 (take len text);
         Some (if unat (pos + 1) < length names then ECMD_AGAIN (int len) else ECMD_FINAL (int len),
               cmd, Some out, s)
       }
     }"

subsection \<open>Backspaces\<close>

text \<open>What the editing means: a backspace takes back the character before it.\<close>

fun edit :: "u8 list \<Rightarrow> u8 list \<Rightarrow> u8 list option" where
  "edit acc [] = Some (rev acc)"
| "edit acc (x # xs) =
     (if x = 8 then (case acc of [] \<Rightarrow> None | a # acc' \<Rightarrow> edit acc' xs) else edit (x # acc) xs)"

definition plain :: "u8 \<Rightarrow> bool" where
  "plain x \<longleftrightarrow> x \<noteq> 0 \<and> x \<noteq> ECMD_STATE_MAGIC"

lemma no_zero: "list_all plain xs \<Longrightarrow> 0 \<notin> set xs"
  by (auto simp: list_all_iff plain_def)

lemma memmove_back:
  assumes "0 \<notin> set xs"
  shows "\<exists>rest'. memmove (rev acc @ a # 8 # xs @ 0 # rest) (length acc) (length acc + 2) (Suc (length xs))
           = Some (rev acc @ xs @ 0 # rest')"
proof -
  have t: "take (Suc (length xs)) (drop (length acc + 2) (rev acc @ a # 8 # xs @ 0 # rest)) = xs @ [0]"
    by simp
  show ?thesis
    unfolding memmove_def t memcpy_def by simp
qed

lemma backspace_back:
  assumes "peek cmd (unat i) = Some 8" "strlen (drop (unat i) cmd) = Some n" "unat i < ECMD_OUTPUTBUF_LENGTH"
      and "i \<noteq> 0" "memmove cmd (unat i - 1) (unat i + 1) n = Some cmd'"
  shows "backspace_loop i cmd = backspace_loop (i - 1) cmd'"
  using assms by (subst backspace_loop.simps) (simp add: ECMD_STATE_MAGIC_def)

lemma backspace_edit:
  assumes "list_all plain xs" "length acc + length xs \<le> ECMD_OUTPUTBUF_LENGTH" "edit acc xs = Some ys"
  shows "\<exists>rest'. backspace_loop (of_nat (length acc)) (rev acc @ xs @ 0 # rest) = Some (ys @ 0 # rest')"
  using assms
proof (induction xs arbitrary: acc rest)
  case Nil
  then have u: "unat (of_nat (length acc) :: u8) = length acc"
    by (simp add: unat_of_nat ECMD_OUTPUTBUF_LENGTH_def)
  have p: "peek (rev acc @ 0 # rest) (length acc) = Some 0"
    by (simp add: peek_def nth_append)
  have "ys = rev acc" using Nil by simp
  then show ?case
    by (subst backspace_loop.simps) (simp add: p u)
next
  case (Cons x xs)
  have u: "unat (of_nat (length acc) :: u8) = length acc" "length acc < 255"
    using Cons.prems(2) by (simp_all add: unat_of_nat ECMD_OUTPUTBUF_LENGTH_def)
  have x: "x \<noteq> 0" "x \<noteq> ECMD_STATE_MAGIC" "list_all plain xs"
    using Cons.prems(1) by (auto simp: plain_def list_all_iff)
  have p: "peek (rev acc @ x # xs @ 0 # rest) (length acc) = Some x"
    by (simp add: peek_def nth_append)
  have l: "length acc < ECMD_OUTPUTBUF_LENGTH" using Cons.prems(2) by simp
  show ?case
  proof (cases "x = 8")
    case False
    then have "\<exists>rest'. backspace_loop (of_nat (length (x # acc))) (rev (x # acc) @ xs @ 0 # rest) = Some (ys @ 0 # rest')"
      using Cons x by (intro Cons.IH) (auto simp: ECMD_OUTPUTBUF_LENGTH_def)
    then show ?thesis
      using False x l by (subst backspace_loop.simps) (simp add: u p add.commute)
  next
    case True
    then obtain a acc' where acc: "acc = a # acc'"
      using Cons.prems(3) by (cases acc) auto
    obtain rest' where m: "memmove (rev acc' @ a # 8 # xs @ 0 # rest) (length acc') (length acc' + 2) (Suc (length xs))
           = Some (rev acc' @ xs @ 0 # rest')"
      using memmove_back [OF no_zero [OF x(3)]] by blast
    have "\<exists>rest''. backspace_loop (of_nat (length acc')) (rev acc' @ xs @ 0 # rest') = Some (ys @ 0 # rest'')"
      using Cons.prems True acc x by (intro Cons.IH) auto
    moreover have "backspace_loop (of_nat (length acc)) (rev acc @ (x # xs) @ 0 # rest)
        = backspace_loop (of_nat (length acc) - 1) (rev acc' @ xs @ 0 # rest')"
    proof (rule backspace_back)
      show "strlen (drop (unat (of_nat (length acc) :: u8)) (rev acc @ (x # xs) @ 0 # rest)) = Some (Suc (length xs))"
        using strlen_append [of "x # xs" rest] no_zero [OF x(3)] x(1) u(1) by simp
      show "(of_nat (length acc) :: u8) \<noteq> 0"
        using u acc by (auto simp: unat_eq_0 [symmetric])
      show "memmove (rev acc @ (x # xs) @ 0 # rest) (unat (of_nat (length acc) :: u8) - 1)
          (unat (of_nat (length acc) :: u8) + 1) (Suc (length xs)) = Some (rev acc' @ xs @ 0 # rest')"
        unfolding u(1) using m True by (simp add: acc)
    qed (use True l u p in simp_all)
    moreover have "(of_nat (length acc) :: u8) - 1 = of_nat (length acc')"
      by (simp add: acc)
    ultimately show ?thesis by simp
  qed
qed

text \<open>
  C38: If a command line of at most 50 characters takes back no character before its start, the
  in-place loop leaves exactly the edited line, terminated, in the buffer.\<close>

theorem backspace_correct:
  assumes "list_all plain line" "length line \<le> ECMD_OUTPUTBUF_LENGTH" "edit [] line = Some ys"
  shows "\<exists>rest'. backspace_loop 0 (line @ 0 # rest) = Some (ys @ 0 # rest')"
  using backspace_edit [of line "[]"] assms by simp

lemma backspace_underflow: "backspace_loop 0 (8 # b) = None"
  by (subst backspace_loop.simps)
     (auto simp: peek_def ECMD_STATE_MAGIC_def ECMD_OUTPUTBUF_LENGTH_def bind_eq_None_conv split: if_splits)

lemma length_backspace: "backspace_loop i cmd = Some cmd' \<Longrightarrow> length cmd' = length cmd"
proof (induction rule: backspace_loop.raw_induct [rotated 1, consumes 1, case_names step])
  case (step loop i cmd cmd')
  show ?case
    using step(2)
    by (auto simp: Option.bind_eq_Some_conv split: if_splits dest!: step(1) length_memmove)
qed

subsection \<open>Aliases\<close>

definition alias_matches :: "u8 list \<Rightarrow> aliascmd_t \<Rightarrow> bool" where
  "alias_matches t a \<longleftrightarrow> take (length (fst a)) t = fst a"

definition aliases_ok :: "aliascmd_t list \<Rightarrow> bool" where
  "aliases_ok as \<longleftrightarrow> length as \<le> 127 \<and> distinct (map fst as) \<and>
     list_all (\<lambda>(name, text). 0 < length name \<and> length name < 256 \<and> length text < 256 \<and>
                0 \<notin> set name \<and> 0 \<notin> set text) as"

lemma alias_loop_spec:
  assumes "\<forall>a\<in>set as. length (fst a) < 256" "alias_loop as (of_nat i) cmd L I = (L', I')"
  shows "(L' = L \<and> I' = I \<and> (\<forall>a\<in>set as. alias_matches (drop 1 cmd) a \<longrightarrow> length (fst a) \<le> unat L)) \<or>
         (\<exists>k<length as. I' = of_nat (i + k) \<and> unat L' = length (fst (as ! k)) \<and>
            alias_matches (drop 1 cmd) (as ! k) \<and> unat L < length (fst (as ! k)) \<and>
            (\<forall>a\<in>set as. alias_matches (drop 1 cmd) a \<longrightarrow> length (fst a) \<le> length (fst (as ! k))))"
    (is "?none as i L I \<or> ?found as i L")
  using assms
proof (induction as arbitrary: i L I)
  case Nil
  then show ?case by simp
next
  case (Cons a as)
  let ?n = "length (fst a)"
  have u: "unat (of_nat ?n :: u8) = ?n" using Cons.prems(1) by (simp add: unat_of_nat)
  have i: "(of_nat i :: u8) + 1 = of_nat (Suc i)" by simp
  have lt: "\<forall>a\<in>set as. length (fst a) < 256" using Cons.prems(1) by simp
  have step: "\<exists>k<length (a # as). I' = of_nat (i + k) \<and> unat L' = length (fst ((a # as) ! k)) \<and>
            alias_matches (drop 1 cmd) ((a # as) ! k) \<and> unat L < length (fst ((a # as) ! k)) \<and>
            (\<forall>b\<in>set (a # as). alias_matches (drop 1 cmd) b \<longrightarrow> length (fst b) \<le> length (fst ((a # as) ! k)))"
    if "k < length as" "I' = of_nat (Suc i + k)" "unat L' = length (fst (as ! k))"
       "alias_matches (drop 1 cmd) (as ! k)" "unat L < length (fst (as ! k))"
       "\<forall>b\<in>set as. alias_matches (drop 1 cmd) b \<longrightarrow> length (fst b) \<le> length (fst (as ! k))"
       "alias_matches (drop 1 cmd) a \<longrightarrow> ?n \<le> length (fst (as ! k))" for k
    using that by (intro exI [of _ "Suc k"]) auto
  show ?case
  proof (cases "alias_matches (drop 1 cmd) a \<and> unat L < ?n")
    case True
    then have "alias_loop as (of_nat (Suc i)) cmd (of_nat ?n) (of_nat i) = (L', I')"
      using Cons.prems(2) by (simp add: alias_matches_def Let_def i)
    from Cons.IH [OF lt this] show ?thesis
    proof
      assume "?none as (Suc i) (of_nat ?n) (of_nat i)"
      then show ?thesis
        using True u by (intro disjI2 exI [of _ 0]) auto
    next
      assume "?found as (Suc i) (of_nat ?n)"
      then obtain k where k: "k < length as" "I' = of_nat (Suc i + k)" "unat L' = length (fst (as ! k))"
         "alias_matches (drop 1 cmd) (as ! k)" "?n < length (fst (as ! k))"
         "\<forall>b\<in>set as. alias_matches (drop 1 cmd) b \<longrightarrow> length (fst b) \<le> length (fst (as ! k))"
        using u by auto
      then show ?thesis
        using True by (intro disjI2 step [of k]) auto
    qed
  next
    case False
    then have "alias_loop as (of_nat (Suc i)) cmd L I = (L', I')"
      using Cons.prems(2) by (auto simp: alias_matches_def Let_def i)
    from Cons.IH [OF lt this] show ?thesis
    proof
      assume "?none as (Suc i) L I"
      then show ?thesis using False by auto
    next
      assume "?found as (Suc i) L"
      then obtain k where "k < length as" "I' = of_nat (Suc i + k)" "unat L' = length (fst (as ! k))"
         "alias_matches (drop 1 cmd) (as ! k)" "unat L < length (fst (as ! k))"
         "\<forall>b\<in>set as. alias_matches (drop 1 cmd) b \<longrightarrow> length (fst b) \<le> length (fst (as ! k))"
        by auto
      then show ?thesis
        using False by (intro disjI2 step [of k]) auto
    qed
  qed
qed

lemma take_append_zero:
  assumes "0 \<notin> set name"
  shows "take (length name) (t @ 0 # rest) = name \<longleftrightarrow> take (length name) t = name"
proof (cases "length name \<le> length t")
  case False
  then have "take (length name) (t @ 0 # rest) = t @ 0 # take (length name - length t - 1) rest"
    by (cases "length name - length t") simp_all
  moreover have "t @ 0 # x \<noteq> name" for x using assms by auto
  moreover have "take (length name) t \<noteq> name" using False by (auto dest: arg_cong [where f = length])
  ultimately show ?thesis by simp
qed simp

text \<open>
  Of the aliases that are prefixes of the text after the dollar sign, the longest one is
  replaced by its command, the rest of the line follows it, if the result fits into the buffer.\<close>

theorem aliascmd_decode_longest:
  assumes "aliases_ok as" "0 \<notin> set t" "(name, text) \<in> set as" "alias_matches t (name, text)"
      and longest: "\<forall>a\<in>set as. alias_matches t a \<longrightarrow> length (fst a) \<le> length name"
      and fits: "length text + (length t - length name) \<le> length t + length rest + 1"
  shows "\<exists>rest'. aliascmd_decode as (ch_dollar # t @ 0 # rest)
           = Some (Some (text @ drop (length name) t @ 0 # rest'))"
proof -
  let ?cmd = "ch_dollar # t @ 0 # rest"
  have ok: "length as \<le> 127" "distinct (map fst as)"
     "\<And>a. a \<in> set as \<Longrightarrow> 0 < length (fst a) \<and> length (fst a) < 256 \<and> length (snd a) < 256 \<and> 0 \<notin> set (fst a)"
    using assms(1) by (auto simp: aliases_ok_def list_all_iff)
  have m: "alias_matches (t @ 0 # rest) a = alias_matches t a" if "a \<in> set as" for a
    unfolding alias_matches_def using ok(3) [OF that] by (intro take_append_zero) blast
  obtain L I where LI: "alias_loop as 0 ?cmd 0 (-1) = (L, I)" by fastforce
  have n: "0 < length name" using ok(3) assms(3) by force
  obtain k where k: "k < length as" "I = of_nat k" "unat L = length (fst (as ! k))"
      "alias_matches (t @ 0 # rest) (as ! k)"
      "\<forall>a\<in>set as. alias_matches (t @ 0 # rest) a \<longrightarrow> length (fst a) \<le> length (fst (as ! k))"
  proof -
    have "\<not> (\<forall>a\<in>set as. alias_matches (drop 1 ?cmd) a \<longrightarrow> length (fst a) \<le> unat (0 :: u8))"
      using assms(3,4) m n by auto
    then show thesis
      using alias_loop_spec [of as 0 ?cmd 0 "-1" L I] ok(3) LI that by auto
  qed
  have len: "length (fst (as ! k)) = length name"
    using k m assms(3,4) longest by (metis fst_conv le_antisym nth_mem)
  have "fst (as ! k) = name"
    using k(4) m [of "as ! k"] k(1) assms(4) len by (simp add: alias_matches_def)
  then have a: "as ! k = (name, text)"
    using ok(2) k(1) assms(3) by (metis eq_key_imp_eq_value nth_mem prod.collapse)
  have I: "unat I = k" "k < 128"
    using k ok(1) by (simp_all add: unat_of_nat)
  have I': "I \<noteq> -1"
  proof
    assume "I = -1"
    then have "unat I = 255" by (simp add: unsigned_minus_1_eq_mask mask_eq_exp_minus_1)
    then show False using I by simp
  qed
  have nl: "unat (of_nat (length text) :: u8) = length text"
    using ok(3) [OF assms(3)] by (simp add: unat_of_nat)
  have nt: "length name \<le> length t" using assms(4) by (simp add: alias_matches_def) (metis length_take min.cobounded1)
  let ?u = "drop (length name) t"
  have d: "drop (length name + 1) ?cmd = ?u @ 0 # rest"
    using nt by simp
  have s: "strlen (?u @ 0 # rest) = Some (length ?u)"
    using assms(2) by (intro strlen_append) (meson in_set_dropD)
  define tail where "tail = drop (length text + Suc (length ?u)) ?cmd"
  have M: "memmove ?cmd (length text) (length name + 1) (length ?u + 1)
          = Some (take (length text) ?cmd @ ?u @ 0 # tail)"
    unfolding memmove_def memcpy_def d tail_def using fits nt by simp
  have t: "length (take (length text) ?cmd) = length text"
    using fits nt by simp
  have "aliascmd_decode as ?cmd =
      do { n \<leftarrow> strlen (drop (length name + 1) ?cmd);
           cmd \<leftarrow> memmove ?cmd (length text) (length name + 1) (n + 1);
           cmd \<leftarrow> memcpy cmd 0 text;
           Some (Some cmd) }"
    unfolding aliascmd_decode_def LI prod.case Let_def k(3) len I(1) a snd_conv nl using I I' k(1)
    by simp
  also have "\<dots> = do { cmd \<leftarrow> memcpy (take (length text) ?cmd @ ?u @ 0 # tail) 0 text; Some (Some cmd) }"
    unfolding d s Option.bind.bind_lunit M ..
  also have "\<dots> = Some (Some (text @ ?u @ 0 # tail))"
    using memcpy_append [of "take (length text) ?cmd" "text" "[]"] t by simp
  finally have "aliascmd_decode as ?cmd = Some (Some (text @ ?u @ 0 # tail))" .
  then show ?thesis by blast
qed

subsection \<open>Dispatch\<close>

lemma find_cmd_append:
  "\<forall>c\<in>set pre. take (length (fst c)) cmd \<noteq> fst c \<Longrightarrow> find_cmd (pre @ cs) cmd = find_cmd cs cmd"
  by (induction pre) auto

lemma find_cmd_first:
  assumes "\<forall>c\<in>set pre. 0 \<notin> set (fst c) \<and> take (length (fst c)) line \<noteq> fst c"
      and "0 \<notin> set name" "take (length name) line = name"
  shows "find_cmd (pre @ (name, f) # post) (line @ 0 # rest) = Some (name, f)"
  using assms take_append_zero [of _ line rest] by (subst find_cmd_append) auto

lemma find_cmd_none:
  assumes "\<forall>c\<in>set cmds. 0 \<notin> set (fst c) \<and> take (length (fst c)) line \<noteq> fst c"
  shows "find_cmd cmds (line @ 0 # rest) = None"
  using find_cmd_append [of cmds "line @ 0 # rest" "[]"] assms take_append_zero [of _ line rest] by auto

text \<open>What \<^verbatim>\<open>ecmd_parse_command\<close> does with the line after editing and replacing an alias.\<close>

definition finish ::
    "(int \<times> u8 list \<times> u8 list option \<times> 's) \<Rightarrow> (int \<times> u8 list \<times> u8 list option \<times> 's) option" where
  "finish r =
     (case r of (ret, cmd, outp, s) \<Rightarrow>
        (case outp of
           None \<Rightarrow> Some (ret, cmd, None, s)
         | Some out \<Rightarrow>
             if ret = -1 then
               do { out \<leftarrow> memcpy out 0 parse_error; Some (11, cmd, Some out, s) }
             else if ret = 0 then
               do { out \<leftarrow> memcpy out 0 ok_text; Some (2, cmd, Some out, s) }
             else Some (ret, cmd, Some out, s)))"

definition prepare :: "aliascmd_t list \<Rightarrow> u8 list \<Rightarrow> u8 list option" where
  "prepare aliases cmd =
     do {
       cmd \<leftarrow> backspace_loop 0 cmd;
       c \<leftarrow> peek cmd 0;
       if c = ch_dollar
       then do { r \<leftarrow> aliascmd_decode aliases cmd; Some (case r of Some cmd' \<Rightarrow> cmd' | None \<Rightarrow> cmd) }
       else Some cmd
     }"

lemma parse_stages:
  "ecmd_parse_command aliases cmds cmd outp len s =
     do {
       cmd \<leftarrow> prepare aliases cmd;
       n \<leftarrow> strlen cmd;
       if n < 2 then Some (0, cmd, outp, s)
       else do { r \<leftarrow> call_cmd cmds cmd outp len s; finish r }
     }"
  unfolding ecmd_parse_command_def prepare_def finish_def by (simp add: split_def)

lemma text_lengths [simp]: "length parse_error = 11" "length ok_text = 2"
  by (simp_all add: parse_error_def ok_text_def)

lemma edit_no_zero: "edit acc xs = Some ys \<Longrightarrow> 0 \<notin> set acc \<Longrightarrow> 0 \<notin> set xs \<Longrightarrow> 0 \<notin> set ys"
  by (induction xs arbitrary: acc) (auto split: if_splits list.splits)

lemma parse_line:
  assumes "list_all plain line" "length line \<le> ECMD_OUTPUTBUF_LENGTH" "edit [] line = Some ys"
      and "2 \<le> length ys" "hd ys \<noteq> ch_dollar"
  shows "\<exists>rest'. \<forall>aliases cmds outp len s.
           ecmd_parse_command aliases cmds (line @ 0 # rest) outp len s
             = do { r \<leftarrow> call_cmd cmds (ys @ 0 # rest') outp len s; finish r }"
proof -
  obtain rest' where b: "backspace_loop 0 (line @ 0 # rest) = Some (ys @ 0 # rest')"
    using backspace_edit [of line "[]" ys rest] assms by auto
  have z: "0 \<notin> set ys" using edit_no_zero assms(3) no_zero [OF assms(1)] by fastforce
  have p: "peek (ys @ 0 # rest') 0 = Some (hd ys)"
    using assms(4) by (cases ys) (auto simp: peek_def)
  show ?thesis
    unfolding ecmd_parse_command_def b finish_def
    using assms(4,5) z p by (intro exI [of _ rest']) (auto simp: split_def)
qed

text \<open>
  C4: A command line is edited and handed to the first entry of the table whose name is a prefix
  of it, with the rest of the line; a result of 0 becomes the text OK, any other result but
  a parse error is returned as it is.\<close>

theorem ecmd_dispatch:
  assumes "list_all plain line" "length line \<le> ECMD_OUTPUTBUF_LENGTH" "edit [] line = Some ys"
      and "2 \<le> length ys" "hd ys \<noteq> ch_dollar"
      and first: "\<forall>c\<in>set pre. 0 \<notin> set (fst c) \<and> take (length (fst c)) ys \<noteq> fst c"
      and "0 \<notin> set name" "ys = name @ arg"
      and f: "\<And>buf. \<exists>buf'. f (arg @ 0 # buf) (Some out) len s = Some (ret, buf', Some out', s')"
      and "ret \<noteq> -1" "2 \<le> length out'"
  shows "\<exists>cmd'. ecmd_parse_command aliases (pre @ (name, f) # post) (line @ 0 # rest) (Some out) len s =
           Some (if ret = 0 then (2, cmd', Some (ok_text @ drop 2 out'), s') else (ret, cmd', Some out', s'))"
proof -
  obtain rest' where p: "ecmd_parse_command aliases (pre @ (name, f) # post) (line @ 0 # rest) (Some out) len s
             = do { r \<leftarrow> call_cmd (pre @ (name, f) # post) (ys @ 0 # rest') (Some out) len s; finish r }"
    using parse_line [OF assms(1-5)] by metis
  obtain buf' where "f (arg @ 0 # rest') (Some out) len s = Some (ret, buf', Some out', s')"
    using f by blast
  moreover have "find_cmd (pre @ (name, f) # post) (ys @ 0 # rest') = Some (name, f)"
    using first assms(7,8) by (intro find_cmd_first) auto
  moreover have "memcpy out' 0 ok_text = Some (ok_text @ drop 2 out')"
    using assms(11) by (simp add: memcpy_def numeral_2_eq_2)
  ultimately show ?thesis
    unfolding p using assms(8,10) by (auto simp: call_cmd_def finish_def)
qed

text \<open>
  A line that no entry of the table is a prefix of leaves the text "parse error" in the output,
  its length as the result, and the state of the firmware unchanged.\<close>

theorem ecmd_unknown_command:
  assumes "list_all plain line" "length line \<le> ECMD_OUTPUTBUF_LENGTH" "edit [] line = Some ys"
      and "2 \<le> length ys" "hd ys \<noteq> ch_dollar"
      and none: "\<forall>c\<in>set cmds. 0 \<notin> set (fst c) \<and> take (length (fst c)) ys \<noteq> fst c"
      and "11 \<le> length out"
  shows "\<exists>cmd'. ecmd_parse_command aliases cmds (line @ 0 # rest) (Some out) len s =
           Some (11, cmd', Some (parse_error @ drop 11 out), s)"
proof -
  obtain rest' where p: "ecmd_parse_command aliases cmds (line @ 0 # rest) (Some out) len s
             = do { r \<leftarrow> call_cmd cmds (ys @ 0 # rest') (Some out) len s; finish r }"
    using parse_line [OF assms(1-5)] by metis
  have "find_cmd cmds (ys @ 0 # rest') = None"
    using none by (rule find_cmd_none)
  moreover have "memcpy out 0 parse_error = Some (parse_error @ drop 11 out)"
    using assms(7) by (simp add: memcpy_def)
  ultimately show ?thesis
    unfolding p by (auto simp: call_cmd_def finish_def)
qed

subsection \<open>The contract of a command function\<close>

text \<open>
  A command keeps the sizes of both buffers and reports no more output than it was given room.
  The parser hands the contract on to whoever calls it.
\<close>

definition reply_ok :: "nat \<Rightarrow> int \<Rightarrow> bool" where
  "reply_ok room r \<longleftrightarrow> nat r \<le> room \<and> (is_ECMD_AGAIN r \<longrightarrow> nat (ECMD_AGAIN r) \<le> room)"

locale ecmd_parser =
  fixes parse :: "'s ecmd_func"
  assumes keeps_buffers: "parse cmd (Some out) len s = Some (r, cmd', outp', s') \<Longrightarrow>
      length cmd' = length cmd \<and> (\<exists>out'. outp' = Some out' \<and> length out' = length out)"
    and reply_fits: "parse cmd (Some out) len s = Some (r, cmd', outp', s') \<Longrightarrow>
      11 \<le> unat len \<Longrightarrow> unat len \<le> length out \<Longrightarrow> reply_ok (unat len) r"

lemma length_prepare: "prepare aliases cmd = Some cmd' \<Longrightarrow> length cmd' = length cmd"
proof -
  have "length d = length c" if "aliascmd_decode aliases c = Some (Some d)" for c d
    using that unfolding aliascmd_decode_def Let_def
    by (auto simp: Option.bind_eq_Some_conv split: prod.splits if_splits dest!: length_memmove length_memcpy)
  then show "prepare aliases cmd = Some cmd' \<Longrightarrow> length cmd' = length cmd"
    unfolding prepare_def
    by (auto simp: Option.bind_eq_Some_conv split: if_splits option.splits dest!: length_backspace)
qed

lemma find_cmd_Some: "find_cmd cmds c = Some (name, f) \<Longrightarrow> (name, f) \<in> set cmds \<and> take (length name) c = name"
  by (induction cmds) (auto split: if_splits)

text \<open>The two parts of the contract as one predicate on a result.\<close>

definition result_ok ::
    "u8 list \<Rightarrow> u8 list \<Rightarrow> u16 \<Rightarrow> int \<times> u8 list \<times> u8 list option \<times> 's \<Rightarrow> bool" where
  "result_ok cmd out len q \<longleftrightarrow>
     (case q of (r, cmd', outp', s') \<Rightarrow>
        length cmd' = length cmd \<and> (\<exists>out'. outp' = Some out' \<and> length out' = length out) \<and>
        (11 \<le> unat len \<longrightarrow> unat len \<le> length out \<longrightarrow> reply_ok (unat len) r))"

lemma ecmd_parser_iff:
  "ecmd_parser f \<longleftrightarrow> (\<forall>cmd out len s q. f cmd (Some out) len s = Some q \<longrightarrow> result_ok cmd out len q)"
  unfolding ecmd_parser_def result_ok_def by (simp add: split_paired_all) blast

lemma call_cmd_ok:
  assumes "\<And>name func. (name, func) \<in> set cmds \<Longrightarrow> ecmd_parser func"
      and "call_cmd cmds c (Some out) len s = Some q"
  shows "result_ok c out len q"
proof (cases "find_cmd cmds c")
  case None
  then show ?thesis using assms(2) by (auto simp: call_cmd_def result_ok_def reply_ok_def ecmd_codes)
next
  case (Some e)
  obtain name func where e: "e = (name, func)" by fastforce
  have m: "(name, func) \<in> set cmds" "take (length name) c = name"
    using find_cmd_Some Some e by metis+
  obtain r rest o' t where f: "func (drop (length name) c) (Some out) len s = Some (r, rest, o', t)"
      "q = (r, take (length name) c @ rest, o', t)"
    using assms(2) Some e by (auto simp: call_cmd_def Option.bind_eq_Some_conv)
  have "result_ok (drop (length name) c) out len (r, rest, o', t)"
    using assms(1) [OF m(1)] f(1) unfolding ecmd_parser_iff by blast
  moreover have "length name \<le> length c" using m(2) by (metis length_take min.cobounded1)
  ultimately show ?thesis by (simp add: result_ok_def f(2))
qed

lemma finish_ok: "result_ok cmd out len q \<Longrightarrow> finish q = Some q' \<Longrightarrow> result_ok cmd out len q'"
  by (cases q) (auto simp: result_ok_def finish_def Option.bind_eq_Some_conv reply_ok_def ecmd_codes
      split: if_splits dest!: length_memcpy)

lemma ecmd_parserI:
  assumes "\<And>name func. (name, func) \<in> set cmds \<Longrightarrow> ecmd_parser func"
  shows "ecmd_parser (ecmd_parse_command aliases cmds)"
  unfolding ecmd_parser_iff
proof (intro allI impI)
  fix cmd out len s q
  assume "ecmd_parse_command aliases cmds cmd (Some out) len s = Some q"
  then obtain c and n :: nat where c: "prepare aliases cmd = Some c"
      "n < 2 \<and> q = (0, c, Some out, s) \<or> (\<exists>r. call_cmd cmds c (Some out) len s = Some r \<and> finish r = Some q)"
    unfolding parse_stages by (auto simp: Option.bind_eq_Some_conv split: if_splits)
  have l: "length c = length cmd" using c(1) by (rule length_prepare)
  from c(2) have "result_ok c out len q"
  proof
    assume "n < 2 \<and> q = (0, c, Some out, s)"
    then show ?thesis by (simp add: result_ok_def reply_ok_def ecmd_codes)
  next
    assume "\<exists>r. call_cmd cmds c (Some out) len s = Some r \<and> finish r = Some q"
    then obtain r where r: "call_cmd cmds c (Some out) len s = Some r" "finish r = Some q" by blast
    have "result_ok c out len r" using assms r(1) by (rule call_cmd_ok)
    then show ?thesis using r(2) by (rule finish_ok)
  qed
  then show "result_ok cmd out len q"
    using l by (auto simp: result_ok_def)
qed

lemma version_ok: "ecmd_parser (parse_cmd_version version)"
  unfolding ecmd_parser_iff
proof (intro allI impI)
  fix cmd out len s q
  assume "parse_cmd_version version cmd (Some out) len s = Some q"
  then obtain o1 o2 n where v: "memcpy out 0 (strncpy version (unat len)) = Some o1" "len \<noteq> 0"
      "poke o1 (unat len - 1) 0 = Some o2" "strlen o2 = Some n" "q = (ECMD_FINAL (int n), cmd, Some o2, s)"
    unfolding parse_cmd_version_def by (auto simp: Option.bind_eq_Some_conv split: if_splits)
  have l: "length o1 = length out" "length o2 = length o1"
    using v(1,3) by (auto dest: buffer_lengths)
  have "0 < unat len" using v(2) by (simp add: unat_gt_0)
  then have z: "o2 ! (unat len - 1) = 0" "unat len - 1 < length o2"
    using v(3) by (auto simp: poke_def split: if_splits)
  have "n \<le> unat len - 1"
  proof (rule ccontr)
    assume "\<not> n \<le> unat len - 1"
    then have "unat len - 1 < length (cstr o2)" using v(4) by (simp add: strlen_def split: if_splits)
    then have "cstr o2 ! (unat len - 1) = 0" "cstr o2 ! (unat len - 1) \<in> set (cstr o2)"
      using z(1) takeWhile_nth [of "unat len - 1" "\<lambda>x. x \<noteq> 0" o2] unfolding cstr_def
      by (simp, blast intro: nth_mem)
    then show False using cstr_no_zero by metis
  qed
  then have "n \<le> unat len" by simp
  then show "result_ok cmd out len q"
    using l v(5) by (simp add: result_ok_def reply_ok_def ecmd_codes)
qed

lemma length_cmd_state: "cmd_state cmd = Some cmd' \<Longrightarrow> length cmd' = length cmd"
  by (auto simp: cmd_state_def Option.bind_eq_Some_conv split: if_splits dest!: length_poke)

lemma help_ok: "ecmd_parser (parse_cmd_help names)"
  unfolding ecmd_parser_iff
proof (intro allI impI)
  fix cmd out len s q
  assume "parse_cmd_help names cmd (Some out) len s = Some q"
  then obtain cmd1 cmd2 pos name out' r where h: "cmd_state cmd = Some cmd1" "poke cmd1 1 (pos + 1) = Some cmd2"
      "memcpy out 0 (take (if unat len < length name then unat len else length name) name) = Some out'"
      "r = int (if unat len < length name then unat len else length name)"
      "q = (if unat (pos + 1) < length names then ECMD_AGAIN r else ECMD_FINAL r, cmd2, Some out', s)"
    unfolding parse_cmd_help_def Option.bind_eq_Some_conv Let_def by blast
  have "length cmd2 = length cmd" "length out' = length out"
    using h by (auto dest!: length_poke length_cmd_state length_memcpy)
  moreover have "0 \<le> r" "nat r \<le> unat len" using h(4) by auto
  ultimately show "result_ok cmd out len q"
    using h(5) by (auto simp: result_ok_def reply_ok_def ecmd_codes)
qed

definition builtin_cmds :: "u8 list \<Rightarrow> u8 list list \<Rightarrow> 's ecmd_command_t list" where
  "builtin_cmds version names =
     [(map (of_nat \<circ> of_char) ''help'', parse_cmd_help names),
      (map (of_nat \<circ> of_char) ''version'', parse_cmd_version version)]"

interpretation builtin: ecmd_parser "ecmd_parse_command aliases (builtin_cmds version names)" for aliases version names
  by (rule ecmd_parserI) (auto simp: builtin_cmds_def version_ok help_ok)

subsection \<open>Witnesses\<close>

theorem backspace_correct_witness:
  "\<exists>rest'. backspace_loop 0 ([97, 98, 8, 99] @ 0 # [7]) = Some ([97, 99] @ 0 # rest')"
  by (rule backspace_correct)
     (simp_all add: plain_def ECMD_STATE_MAGIC_def ECMD_OUTPUTBUF_LENGTH_def)

theorem aliascmd_decode_longest_witness:
  "\<exists>rest'. aliascmd_decode [([97], [120, 121]), ([97, 98], [122])] (ch_dollar # [97, 98, 32, 99] @ 0 # [])
     = Some (Some ([122] @ drop (length [97, 98 :: u8]) [97, 98, 32, 99] @ 0 # rest'))"
  by (rule aliascmd_decode_longest) (simp_all add: aliases_ok_def alias_matches_def)

definition count_cmd :: "nat ecmd_func" where
  "count_cmd cmd outp len n = Some (0, cmd, outp, n + 1)"

theorem ecmd_dispatch_witness:
  "\<exists>cmd'. ecmd_parse_command [] ([([105, 111], count_cmd)] @ ([97, 98], count_cmd) # []) ([97, 99, 8, 98, 32] @ 0 # [5]) (Some (replicate 12 0)) 12 3 =
     Some (if (0 :: int) = 0 then (2, cmd', Some (ok_text @ drop 2 (replicate 12 0)), 4) else (0, cmd', Some (replicate 12 0), 4))"
  by (rule ecmd_dispatch [where ys = "[97, 98, 32]" and arg = "[32]"])
     (simp_all add: plain_def ECMD_STATE_MAGIC_def ECMD_OUTPUTBUF_LENGTH_def count_cmd_def)

theorem ecmd_unknown_command_witness:
  "\<exists>cmd'. ecmd_parse_command [] [([105, 111], count_cmd)] ([97, 98] @ 0 # [5]) (Some (replicate 12 0)) 12 3 =
     Some (11, cmd', Some (parse_error @ drop 11 (replicate 12 0)), 3)"
  by (rule ecmd_unknown_command [where ys = "[97, 98]"])
     (simp_all add: plain_def ECMD_STATE_MAGIC_def ECMD_OUTPUTBUF_LENGTH_def)

end
