(* ===== verification/E6_Uip.thy ===== *)
theory E6_Uip
  imports E6_Prelude
begin

text \<open>
  The interface of the uIP stack to the applications on a TCP connection: what the stack
  reports when it calls one, and what the application asks for.
\<close>

text \<open>The flags of \<^verbatim>\<open>uip_flags\<close> and the received data; what the application asks of uIP.\<close>

record uip_event =
  uip_connected :: bool
  uip_acked :: bool
  uip_newdata :: bool
  uip_rexmit :: bool
  uip_poll :: bool
  uip_appdata :: "u8 list"

datatype uip_action = Uip_send "u8 list" | Uip_close | Uip_nothing

end
