(* ===== verification/E6_EcmdIo.thy ===== *)
theory E6_EcmdIo
  imports E6_Ecmd E6_Uip
begin

text \<open>
  The transports of the command interpreter: a line over TCP (\<^verbatim>\<open>via_tcp/ecmd_net.c\<close>, without
  \<^verbatim>\<open>ECMD_PAM_SUPPORT\<close>), in a UDP packet (\<^verbatim>\<open>via_udp/uecmd_net.c\<close>), over a serial line
  (\<^verbatim>\<open>via_usart/ecmd_usart.c\<close>, with echo) and over I2C (\<^verbatim>\<open>via_i2c/ecmd_i2c.c\<close>).  The parser is the argument
  \<open>parse\<close>; every access to a buffer is checked and \<open>None\<close> if it is outside of it.
\<close>

subsection \<open>TCP\<close>









subsection \<open>UDP\<close>

text \<open>
  \<open>junk\<close> is what the uninitialised array \<^verbatim>\<open>cmd\<close> holds.  \<open>room\<close> is \<^verbatim>\<open>UIP_BUFSIZE - UIP_IPUDPH_LEN\<close>; \<open>buf\<close> is
  the memory from \<^verbatim>\<open>uip_appdata\<close> on and \<open>slen\<close> is \<^verbatim>\<open>uip_slen\<close>.
\<close>

definition uecmd_line :: "u8 list \<Rightarrow> u8 list \<Rightarrow> u8 list" where
  "uecmd_line junk appdata =
     (let l = takeWhile (\<lambda>c. c \<noteq> ch_cr \<and> c \<noteq> ch_nl) appdata
      in l @ 0 # take (length appdata - length l) junk)"

partial_function (option) uecmd_loop ::
    "'s ecmd_func \<Rightarrow> u16 \<Rightarrow> u8 list \<Rightarrow> u8 list \<Rightarrow> u16 \<Rightarrow> 's \<Rightarrow> (u8 list \<times> u16 \<times> 's) option" where
  "uecmd_loop parse room cmd buf slen w =
     (if slen < room then
        do {
          (len, cmd, outp, w) \<leftarrow> parse cmd (Some (drop (unat slen) buf)) (room - slen) w;
          out \<leftarrow> outp;
          let real_len = (if is_ECMD_AGAIN len then ECMD_AGAIN len else len);
              slen' = slen + of_int (real_len + 1)
          in do {
            buf \<leftarrow> poke (take (unat slen) buf @ out) (unat (slen' - 1)) ch_nl;
            if real_len = len \<or> len = 0 then Some (buf, slen', w)
            else uecmd_loop parse room cmd buf slen' w
          }
        }
      else Some (buf, slen, w))"

text \<open>The answer that is sent back; \<open>None\<close> inside: no answer.\<close>

definition uecmd_net_main ::
    "'s ecmd_func \<Rightarrow> u16 \<Rightarrow> u8 list \<Rightarrow> bool \<Rightarrow> u8 list \<Rightarrow> u8 list \<Rightarrow> 's \<Rightarrow> (u8 list option \<times> 's) option" where
  "uecmd_net_main parse room junk is_new appdata behind w =
     (if \<not> is_new then Some (None, w)
      else do {
        (buf, slen, w) \<leftarrow> uecmd_loop parse room (uecmd_line junk appdata) (appdata @ behind) 0 w;
        Some (Some (take (unat slen) buf), w)
      })"

subsection \<open>Serial line\<close>

text \<open>\<open>udr\<close> logs the bytes written to the data register, \<open>txcie\<close> is the transmit interrupt enable.\<close>

record ecmd_usart =
  recv_buffer :: "u8 list"
  write_buffer :: "u8 list"
  recv_len :: u8
  sent :: u8
  write_len :: int
  must_parse :: bool
  txcie :: bool
  udr :: "u8 list"

definition usart_send_line :: "ecmd_usart \<Rightarrow> ecmd_usart option" where
  "usart_send_line u =
     do {
       b \<leftarrow> (if write_len u < 0 then None else poke (write_buffer u) (nat (write_len u)) ch_cr);
       b \<leftarrow> poke b (nat (write_len u) + 1) ch_nl;
       c \<leftarrow> peek b 0;
       Some (u\<lparr>write_buffer := b, write_len := write_len u + 2, sent := 1, udr := udr u @ [c], txcie := True\<rparr>)
     }"

definition ecmd_serial_usart_periodic :: "'s ecmd_func \<Rightarrow> ecmd_usart \<Rightarrow> 's \<Rightarrow> (ecmd_usart \<times> 's) option" where
  "ecmd_serial_usart_periodic parse u w =
     (if must_parse u \<and> write_len u = 0 then
        let u = u\<lparr>must_parse := False\<rparr> in
        if recv_len u \<le> 1 then Some (u\<lparr>recv_len := 0\<rparr>, w)
        else do {
          (l, cmd, outp, w) \<leftarrow> parse (recv_buffer u) (Some (write_buffer u)) (of_nat (length (write_buffer u))) w;
          out \<leftarrow> outp;
          let u = u\<lparr>recv_buffer := cmd, write_buffer := out, write_len := l\<rparr> in
          if is_ECMD_AGAIN l then
            do { u \<leftarrow> usart_send_line (u\<lparr>write_len := ECMD_AGAIN l, must_parse := True\<rparr>); Some (u, w) }
          else if is_ECMD_ERR l then Some (u, w)
          else do { u \<leftarrow> usart_send_line (u\<lparr>recv_len := 0\<rparr>); Some (u, w) }
        }
      else Some (u, w))"

definition usart_rx_isr :: "bool \<Rightarrow> u8 \<Rightarrow> ecmd_usart \<Rightarrow> ecmd_usart option" where
  "usart_rx_isr rx_error data u =
     (if rx_error then Some u
      else if must_parse u then Some u
      else if data = ch_nl \<or> data = ch_cr \<or> unat (recv_len u) = length (recv_buffer u) then
        do {
          b \<leftarrow> poke (recv_buffer u) (unat (recv_len u)) 0;
          Some (u\<lparr>recv_buffer := b, must_parse := True, udr := udr u @ [ch_cr, ch_nl]\<rparr>)
        }
      else
        do {
          b \<leftarrow> poke (recv_buffer u) (unat (recv_len u)) data;
          Some (u\<lparr>udr := udr u @ [data], recv_buffer := b, recv_len := recv_len u + 1\<rparr>)
        })"

definition usart_tx_isr :: "ecmd_usart \<Rightarrow> ecmd_usart option" where
  "usart_tx_isr u =
     (if int (unat (sent u)) < write_len u then
        do {
          c \<leftarrow> peek (write_buffer u) (unat (sent u));
          Some (u\<lparr>udr := udr u @ [c], sent := sent u + 1\<rparr>)
        }
      else Some (u\<lparr>txcie := False, write_len := 0\<rparr>))"

subsection \<open>I2C\<close>

text \<open>
  The slave interface.  \<open>twdr\<close> is the data register and \<open>twi_inits\<close> counts the calls of \<^verbatim>\<open>init_twi\<close>, which
  only writes control registers.  The lengths are \<^verbatim>\<open>int16_t\<close>; the arguments of the interrupt are the
  masked status and the received byte.
\<close>

record ecmd_i2c =
  i2c_recv :: "u8 list"
  i2c_write :: "u8 list"
  i2c_recv_len :: int
  i2c_write_len :: int
  i2c_sent :: int
  i2c_parse :: bool
  twdr :: u8
  twi_inits :: nat

definition init_twi :: "ecmd_i2c \<Rightarrow> ecmd_i2c" where
  "init_twi u = u\<lparr>twi_inits := twi_inits u + 1\<rparr>"

definition ecmd_serial_i2c_init :: "ecmd_i2c \<Rightarrow> ecmd_i2c" where
  "ecmd_serial_i2c_init u =
     init_twi (u\<lparr>i2c_recv_len := 0, i2c_write_len := 0, i2c_sent := 0, i2c_parse := False\<rparr>)"

definition ecmd_serial_i2c_periodic :: "'s ecmd_func \<Rightarrow> u8 \<Rightarrow> ecmd_i2c \<Rightarrow> 's \<Rightarrow> (ecmd_i2c \<times> 's) option" where
  "ecmd_serial_i2c_periodic parse twsr u w =
     (let u = (if twsr AND 0xF8 = 0 then init_twi u else u) in
      if i2c_parse u \<and> i2c_write_len u = 0 then
        if i2c_recv_len u \<le> 1 then Some (u, w)
        else do {
          (l, cmd, outp, w) \<leftarrow> parse (i2c_recv u) (Some (i2c_write u)) (of_nat (length (i2c_write u))) w;
          out \<leftarrow> outp;
          let u = u\<lparr>i2c_recv := cmd, i2c_write := out, i2c_write_len := l, i2c_parse := False\<rparr> in
          Some (if is_ECMD_AGAIN l then u\<lparr>i2c_write_len := ECMD_AGAIN l, i2c_parse := True, i2c_sent := 1\<rparr>
                else if is_ECMD_ERR l then u
                else u\<lparr>i2c_recv_len := 0, i2c_sent := 1\<rparr>, w)
        }
      else Some (u, w))"

definition i2c_answer :: "ecmd_i2c \<Rightarrow> ecmd_i2c option" where
  "i2c_answer u =
     (if i2c_sent u < i2c_write_len u then
        do {
          c \<leftarrow> (if i2c_sent u < 0 then None else peek (i2c_write u) (nat (i2c_sent u)));
          Some (u\<lparr>twdr := c, i2c_sent := i2c_sent u + 1\<rparr>)
        }
      else Some (u\<lparr>twdr := (if i2c_parse u then ch_nl else 0), i2c_write_len := 0\<rparr>))"

definition twi_isr :: "u8 \<Rightarrow> u8 \<Rightarrow> ecmd_i2c \<Rightarrow> ecmd_i2c option" where
  "twi_isr twsr data u =
     (let status = twsr AND 0xF8 in
      if status = 0x80 then
        do {
          u \<leftarrow> (if i2c_recv_len u < int (length (i2c_recv u)) - 1 then
                 do {
                   b \<leftarrow> (if i2c_recv_len u < 0 then None else poke (i2c_recv u) (nat (i2c_recv_len u)) data);
                   Some (u\<lparr>i2c_recv := b, i2c_recv_len := i2c_recv_len u + 1\<rparr>)
                 }
               else Some u);
          c \<leftarrow> (if i2c_recv_len u - 1 < 0 then None else peek (i2c_recv u) (nat (i2c_recv_len u - 1)));
          Some (if c = 0 then u\<lparr>i2c_parse := True\<rparr> else u)
        }
      else if status = 0x60 then Some (u\<lparr>i2c_recv_len := 0\<rparr>)
      else if status = 0xA8 then i2c_answer (u\<lparr>i2c_sent := 0\<rparr>)
      else if status = 0xB8 then i2c_answer u
      else Some u)"

subsection \<open>TCP: the buffers are never overrun\<close>










subsection \<open>Serial line: one transaction\<close>

fun usart_rx_all :: "u8 list \<Rightarrow> ecmd_usart \<Rightarrow> ecmd_usart option" where
  "usart_rx_all [] u = Some u"
| "usart_rx_all (b # bs) u = do { u \<leftarrow> usart_rx_isr False b u; usart_rx_all bs u }"

fun usart_tx_all :: "nat \<Rightarrow> ecmd_usart \<Rightarrow> ecmd_usart option" where
  "usart_tx_all 0 u = Some u"
| "usart_tx_all (Suc n) u = do { u \<leftarrow> usart_tx_isr u; usart_tx_all n u }"

definition usart_idle :: "ecmd_usart \<Rightarrow> bool" where
  "usart_idle u \<longleftrightarrow> write_len u = 0 \<and> \<not> must_parse u \<and> recv_len u = 0 \<and> \<not> txcie u"

lemma usart_rx_line:
  assumes "list_all (\<lambda>b. b \<noteq> ch_nl \<and> b \<noteq> ch_cr) line" "\<not> must_parse u"
      and "unat (recv_len u) + length line \<le> length (recv_buffer u)" "length (recv_buffer u) \<le> 255"
  shows "usart_rx_all line u = Some (u\<lparr>
     recv_buffer := take (unat (recv_len u)) (recv_buffer u) @ line @ drop (unat (recv_len u) + length line) (recv_buffer u),
     recv_len := recv_len u + of_nat (length line), udr := udr u @ line\<rparr>)"
  using assms
proof (induction line arbitrary: u)
  case Nil
  then show ?case by simp
next
  case (Cons b line)
  let ?u = "u\<lparr>udr := udr u @ [b], recv_buffer := (recv_buffer u)[unat (recv_len u) := b], recv_len := recv_len u + 1\<rparr>"
  have s: "usart_rx_isr False b u = Some ?u"
    using Cons.prems by (simp add: usart_rx_isr_def poke_def)
  have l: "unat (recv_len u + 1) = unat (recv_len u) + 1"
    using Cons.prems(3,4) by (simp add: unat_word_ariths)
  have "usart_rx_all line ?u = Some (?u\<lparr>
     recv_buffer := take (unat (recv_len ?u)) (recv_buffer ?u) @ line @ drop (unat (recv_len ?u) + length line) (recv_buffer ?u),
     recv_len := recv_len ?u + of_nat (length line), udr := udr ?u @ line\<rparr>)"
    using Cons.prems l by (intro Cons.IH) auto
  moreover have "take (unat (recv_len u) + 1) ((recv_buffer u)[unat (recv_len u) := b]) = take (unat (recv_len u)) (recv_buffer u) @ [b]"
    using Cons.prems(3) by (simp add: take_Suc_conv_app_nth)
  ultimately show ?case
    using s l by (simp add: add.assoc)
qed

lemma usart_tx_bytes:
  assumes "k + unat (sent u) \<le> nat (write_len u)" "nat (write_len u) \<le> length (write_buffer u)" "length (write_buffer u) \<le> 255"
  shows "usart_tx_all k u = Some (u\<lparr>udr := udr u @ take k (drop (unat (sent u)) (write_buffer u)), sent := sent u + of_nat k\<rparr>)"
  using assms
proof (induction k arbitrary: u)
  case 0
  then show ?case by simp
next
  case (Suc k)
  let ?u = "u\<lparr>udr := udr u @ [write_buffer u ! unat (sent u)], sent := sent u + 1\<rparr>"
  have s: "usart_tx_isr u = Some ?u"
  proof -
    have "int (unat (sent u)) < write_len u" "unat (sent u) < length (write_buffer u)"
      using Suc.prems by linarith+
    then show ?thesis by (simp add: usart_tx_isr_def peek_def del: of_nat_unat)
  qed
  have l: "unat (sent u + 1) = unat (sent u) + 1"
    using Suc.prems by (simp add: unat_word_ariths)
  have "usart_tx_all k ?u = Some (?u\<lparr>udr := udr ?u @ take k (drop (unat (sent ?u)) (write_buffer ?u)), sent := sent ?u + of_nat k\<rparr>)"
    using Suc.prems l by (intro Suc.IH) auto
  then show ?case
    using s l Suc.prems by (simp add: add.assoc Cons_nth_drop_Suc [symmetric, of "unat (sent u)"])
qed

lemma usart_tx_all_add: "usart_tx_all (k + m) u = do { u \<leftarrow> usart_tx_all k u; usart_tx_all m u }"
proof (induction k arbitrary: u)
  case (Suc k)
  then show ?case by (cases "usart_tx_isr u") simp_all
qed simp

lemma usart_rx_all_append: "usart_rx_all (xs @ ys) u = do { u \<leftarrow> usart_rx_all xs u; usart_rx_all ys u }"
proof (induction xs arbitrary: u)
  case (Cons x xs)
  then show ?case by (cases "usart_rx_isr False x u") simp_all
qed simp

lemma usart_send_line_then:
  assumes "write_len u = l" "0 \<le> l" "nat l + 2 \<le> length (write_buffer u)" "length (write_buffer u) \<le> 255"
  shows "\<exists>u'. do { u \<leftarrow> usart_send_line u; usart_tx_all (nat l + 2) u } = Some u' \<and> write_len u' = 0 \<and> \<not> txcie u' \<and>
           must_parse u' = must_parse u \<and> recv_len u' = recv_len u \<and>
           udr u' = udr u @ take (nat l) (write_buffer u) @ [ch_cr, ch_nl]"
proof -
  define b where "b = take (nat l) (write_buffer u) @ [ch_cr, ch_nl] @ drop (nat l + 2) (write_buffer u)"
  have b: "(write_buffer u)[nat l := ch_cr, nat l + 1 := ch_nl] = b"
  proof (rule nth_equalityI)
    have "Suc (Suc (i - 2)) = i" if "\<not> i \<le> Suc (nat l)" for i using that by simp
    then show "(write_buffer u)[nat l := ch_cr, nat l + 1 := ch_nl] ! i = b ! i"
      if "i < length ((write_buffer u)[nat l := ch_cr, nat l + 1 := ch_nl])" for i
      using assms(3) that by (auto simp: b_def nth_append nth_list_update nth_Cons')
  qed (use assms(3) in \<open>simp add: b_def\<close>)
  define u1 where "u1 = u\<lparr>write_buffer := b, write_len := l + 2, sent := 1, udr := udr u @ [b ! 0], txcie := True\<rparr>"
  have lb: "length b = length (write_buffer u)" using b by (metis length_list_update)
  have "b \<noteq> []" by (simp add: b_def)
  then have s: "usart_send_line u = Some u1"
    unfolding usart_send_line_def u1_def using assms b lb by (simp add: poke_def peek_def)
  define u2 where "u2 = u1\<lparr>udr := udr u1 @ take (nat l + 1) (drop 1 b), sent := 1 + of_nat (nat l + 1)\<rparr>"
  have t: "usart_tx_all (nat l + 1) u1 = Some u2"
    using usart_tx_bytes [of "nat l + 1" u1] assms lb by (simp add: u1_def u2_def nat_add_distrib)
  have "unat (sent u2) = nat l + 2"
  proof -
    have "unat (1 + of_nat (n + 1) :: u8) = n + 2" if "n + 2 < 256" for n
      using that by (simp add: unat_word_ariths unat_of_nat)
    then show ?thesis using assms(3,4) unfolding u2_def by (simp del: of_nat_add)
  qed
  then have f: "usart_tx_isr u2 = Some (u2\<lparr>txcie := False, write_len := 0\<rparr>)"
    using assms by (simp add: usart_tx_isr_def u2_def u1_def del: of_nat_unat)
  have "b ! 0 # take (nat l + 1) (drop 1 b) = take (nat l + 2) b"
    using assms(3) lb by (cases b) simp_all
  also have "\<dots> = take (nat l) (write_buffer u) @ [ch_cr, ch_nl]"
    using assms(3) by (simp add: b_def min_absorb2)
  finally have "udr u2 = udr u @ take (nat l) (write_buffer u) @ [ch_cr, ch_nl]"
    by (simp add: u2_def u1_def)
  moreover have "do { u \<leftarrow> usart_send_line u; usart_tx_all (nat l + 2) u } = Some (u2\<lparr>txcie := False, write_len := 0\<rparr>)"
  proof -
    have "usart_tx_all (nat l + 2) u1 = do { u \<leftarrow> usart_tx_all (nat l + 1) u1; usart_tx_all 1 u }"
      using usart_tx_all_add by (metis add.assoc one_add_one)
    then show ?thesis unfolding s Option.bind.bind_lunit t by (simp add: f)
  qed
  ultimately show ?thesis by (simp add: u2_def u1_def)
qed

text \<open>
  C37: A line typed on the idle serial interface is echoed, handed to the parser, and its answer
  is sent followed by a line end; afterwards the interface is idle again.\<close>

theorem usart_transaction:
  assumes "usart_idle u" "list_all (\<lambda>b. b \<noteq> ch_nl \<and> b \<noteq> ch_cr) line" "2 \<le> length line"
      and "length line < length (recv_buffer u)" "length (write_buffer u) \<le> 255" "length (recv_buffer u) \<le> 255"
      and "parse (line @ 0 # drop (length line + 1) (recv_buffer u)) (Some (write_buffer u))
             (of_nat (length (write_buffer u))) w = Some (l, cmd', Some out', w')"
      and "0 \<le> l" "nat l + 2 \<le> length out'" "length out' = length (write_buffer u)"
  shows "\<exists>u'. do { u \<leftarrow> usart_rx_all (line @ [ch_nl]) u;
                (u, w) \<leftarrow> ecmd_serial_usart_periodic parse u w;
                u \<leftarrow> usart_tx_all (nat l + 2) u;
                Some (u, w) } = Some (u', w') \<and> usart_idle u' \<and>
           udr u' = udr u @ line @ [ch_cr, ch_nl] @ take (nat l) out' @ [ch_cr, ch_nl]"
proof -
  define u1 where "u1 = u\<lparr>recv_buffer := line @ 0 # drop (length line + 1) (recv_buffer u),
     recv_len := of_nat (length line), udr := udr u @ line @ [ch_cr, ch_nl], must_parse := True\<rparr>"
  have n: "unat (of_nat (length line) :: u8) = length line"
    using assms(4,6) by (simp add: unat_of_nat)
  have rx: "usart_rx_all (line @ [ch_nl]) u = Some u1"
    using usart_rx_line [of line u] assms(1-6) n
    by (simp add: usart_rx_all_append usart_idle_def usart_rx_isr_def poke_def u1_def list_update_append
        Cons_nth_drop_Suc [symmetric])
  define u2 where "u2 = u1\<lparr>must_parse := False, recv_buffer := cmd', write_buffer := out', write_len := l, recv_len := 0\<rparr>"
  have r: "\<not> recv_len u1 \<le> 1" using n assms(3) by (simp add: u1_def word_le_nat_alt)
  have p: "ecmd_serial_usart_periodic parse u1 w = do { u \<leftarrow> usart_send_line u2; Some (u, w') }"
    using assms(1,7,8) r
    by (simp add: ecmd_serial_usart_periodic_def u1_def u2_def usart_idle_def ecmd_codes)
  obtain u' where u': "do { u \<leftarrow> usart_send_line u2; usart_tx_all (nat l + 2) u } = Some u'" "write_len u' = 0"
      "\<not> txcie u'" "\<not> must_parse u'" "recv_len u' = 0" "udr u' = udr u2 @ take (nat l) out' @ [ch_cr, ch_nl]"
    using usart_send_line_then [of u2 l] assms(5,8-10) by (auto simp: u2_def)
  have "do { u \<leftarrow> usart_rx_all (line @ [ch_nl]) u; (u, w) \<leftarrow> ecmd_serial_usart_periodic parse u w;
             u \<leftarrow> usart_tx_all (nat l + 2) u; Some (u, w) }
      = do { u \<leftarrow> (do { u \<leftarrow> usart_send_line u2; usart_tx_all (nat l + 2) u }); Some (u, w') }"
    unfolding rx Option.bind.bind_lunit p by (simp add: Option.bind_assoc)
  also have "\<dots> = Some (u', w')"
    unfolding u'(1) by simp
  finally show ?thesis
    using u'(2-6) by (intro exI [of _ u']) (simp add: usart_idle_def u2_def u1_def)
qed

subsection \<open>Serial line: errors\<close>

datatype usart_event = Rx bool u8 | Tx | Periodic

text \<open>The transmit interrupt only comes while it is enabled.\<close>

fun usart_step :: "'s ecmd_func \<Rightarrow> (ecmd_usart \<times> 's) option \<Rightarrow> usart_event \<Rightarrow> (ecmd_usart \<times> 's) option" where
  "usart_step parse (Some (u, w)) (Rx e b) = map_option (\<lambda>u. (u, w)) (usart_rx_isr e b u)"
| "usart_step parse (Some (u, w)) Tx = (if txcie u then map_option (\<lambda>u. (u, w)) (usart_tx_isr u) else Some (u, w))"
| "usart_step parse (Some (u, w)) Periodic = ecmd_serial_usart_periodic parse u w"
| "usart_step parse None e = None"

definition usart_stuck :: "'s \<Rightarrow> (ecmd_usart \<times> 's) option \<Rightarrow> bool" where
  "usart_stuck w0 r \<longleftrightarrow> (case r of None \<Rightarrow> True | Some (u, w) \<Rightarrow> write_len u < 0 \<and> \<not> txcie u \<and> w = w0)"

interpretation usart_stuck: machine "usart_step parse" "usart_stuck w0" for parse w0
proof
  fix r and e :: usart_event
  assume s: "usart_stuck w0 r"
  show "usart_stuck w0 (usart_step parse r e)"
  proof (cases r)
    case (Some p)
    obtain u w where p: "p = (u, w)" by fastforce
    have "write_len u < 0" "\<not> txcie u" "w = w0" using s Some p by (auto simp: usart_stuck_def)
    then show ?thesis
      using Some p by (cases e)
        (auto simp: usart_stuck_def usart_rx_isr_def ecmd_serial_usart_periodic_def Option.bind_eq_Some_conv split: option.splits if_splits)
  qed (simp add: usart_stuck_def)
qed

text \<open>
  After a command that reports a read or write error the serial interface never executes a
  command again, whatever is received.\<close>

theorem usart_error_lockup:
  assumes "must_parse u" "write_len u = 0" "\<not> txcie u" "1 < recv_len u"
      and "parse (recv_buffer u) (Some (write_buffer u)) (of_nat (length (write_buffer u))) w = Some (l, cmd', Some out', w')"
      and "l = ECMD_ERR_READ_ERROR \<or> l = ECMD_ERR_WRITE_ERROR"
      and "foldl (usart_step parse) (Some (u, w)) (Periodic # es) = Some (u'', w'')"
  shows "w'' = w' \<and> write_len u'' < 0"
proof -
  have "usart_stuck w' (usart_step parse (Some (u, w)) Periodic)"
    using assms(1-6) by (auto simp: usart_stuck_def ecmd_serial_usart_periodic_def Let_def ecmd_codes)
  from usart_stuck.inv_run [OF this, of parse es] show ?thesis
    using assms(7) by (simp add: usart_stuck_def)
qed

text \<open>
  A line that fills the receive buffer of the serial interface makes the interrupt write
  its terminator behind the buffer.\<close>

lemma usart_line_overflow:
  assumes "usart_idle u" "list_all (\<lambda>b. b \<noteq> ch_nl \<and> b \<noteq> ch_cr) line"
      and "length line = length (recv_buffer u)" "length (recv_buffer u) \<le> 255"
  shows "usart_rx_all (line @ [b]) u = None"
proof -
  have "unat (of_nat (length line) :: u8) = length line"
    using assms(3,4) by (simp add: unat_of_nat)
  then show ?thesis
    using usart_rx_line [of line u] assms
    by (simp add: usart_rx_all_append usart_idle_def usart_rx_isr_def poke_def)
qed

subsection \<open>The listing of all commands over TCP\<close>

definition help_text :: "u8 list" where
  "help_text = map (of_nat \<circ> of_char) ''help''"

lemma help_text_simps: "help_text = [104, 101, 108, 112]"
  by (simp add: help_text_def)





lemma backspace_pass:
  assumes "peek cmd (unat i) = Some c" "plain c" "c \<noteq> 8" "unat i < ECMD_OUTPUTBUF_LENGTH"
  shows "backspace_loop i cmd = backspace_loop (i + 1) cmd"
  using assms by (subst backspace_loop.simps) (simp add: plain_def)

lemma backspace_stop:
  "peek cmd (unat i) = Some c \<Longrightarrow> \<not> plain c \<Longrightarrow> backspace_loop i cmd = Some cmd"
  by (subst backspace_loop.simps) (auto simp: plain_def)

lemma backspace_help:
  assumes "\<not> plain z"
  shows "backspace_loop 0 (help_text @ z # rest) = Some (help_text @ z # rest)"
proof -
  let ?c = "help_text @ z # rest"
  have "backspace_loop 0 ?c = backspace_loop 1 ?c"
    by (subst backspace_pass [where c = 104]) (simp_all add: help_text_simps peek_def plain_def ECMD_STATE_MAGIC_def ECMD_OUTPUTBUF_LENGTH_def)
  also have "\<dots> = backspace_loop 2 ?c"
    by (subst backspace_pass [where c = 101]) (simp_all add: help_text_simps peek_def plain_def ECMD_STATE_MAGIC_def ECMD_OUTPUTBUF_LENGTH_def)
  also have "\<dots> = backspace_loop 3 ?c"
    by (subst backspace_pass [where c = 108]) (simp_all add: help_text_simps peek_def plain_def ECMD_STATE_MAGIC_def ECMD_OUTPUTBUF_LENGTH_def)
  also have "\<dots> = backspace_loop 4 ?c"
    by (subst backspace_pass [where c = 112]) (simp_all add: help_text_simps peek_def plain_def ECMD_STATE_MAGIC_def ECMD_OUTPUTBUF_LENGTH_def)
  also have "\<dots> = Some ?c"
    using assms by (intro backspace_stop [where c = z]) (simp_all add: help_text_simps peek_def)
  finally show ?thesis .
qed

definition has_help :: "'s ecmd_command_t list \<Rightarrow> bool" where
  "has_help cmds \<longleftrightarrow> (\<forall>z. find_cmd cmds (help_text @ z) = Some (help_text, parse_cmd_help (map fst cmds)))"















subsection \<open>Witnesses\<close>


definition usart_fresh :: ecmd_usart where
  "usart_fresh = \<lparr>recv_buffer = replicate 8 0, write_buffer = replicate 10 0, recv_len = 0, sent = 0, write_len = 0,
     must_parse = False, txcie = False, udr = []\<rparr>"

text \<open>A parser that answers every line with two letters and counts the calls.\<close>

definition ok_parser :: "nat ecmd_func" where
  "ok_parser cmd outp len n = Some (2, cmd, map_option (\<lambda>out. [79, 75] @ drop 2 out) outp, n + 1)"

theorem usart_transaction_witness:
  "\<exists>u'. do { u \<leftarrow> usart_rx_all ([105, 111] @ [ch_nl]) usart_fresh;
            (u, w) \<leftarrow> ecmd_serial_usart_periodic ok_parser u 0;
            u \<leftarrow> usart_tx_all (nat 2 + 2) u;
            Some (u, w) } = Some (u', 1) \<and> usart_idle u' \<and>
        udr u' = udr usart_fresh @ [105, 111] @ [ch_cr, ch_nl] @ take (nat 2) ([79, 75] @ replicate 8 0) @ [ch_cr, ch_nl]"
  by (rule usart_transaction [where cmd' = "[105, 111] @ 0 # replicate 5 0"])
     (simp_all add: usart_fresh_def usart_idle_def ok_parser_def)

definition err_parser :: "nat ecmd_func" where
  "err_parser cmd outp len n = Some (ECMD_ERR_READ_ERROR, cmd, outp, n + 1)"

theorem usart_error_lockup_witness:
  "case foldl (usart_step err_parser) (Some (usart_fresh\<lparr>must_parse := True, recv_len := 3\<rparr>, 0)) [Periodic, Rx False 105, Rx False ch_nl, Periodic] of
     Some (u, w) \<Rightarrow> w = 1 \<and> write_len u < 0 | None \<Rightarrow> False"
proof -
  obtain u w where r: "foldl (usart_step err_parser) (Some (usart_fresh\<lparr>must_parse := True, recv_len := 3\<rparr>, 0))
      [Periodic, Rx False 105, Rx False ch_nl, Periodic] = Some (u, w)"
    by (simp add: usart_fresh_def err_parser_def ecmd_serial_usart_periodic_def usart_rx_isr_def poke_def ecmd_codes Let_def word_le_nat_alt)
  have "w = 1 \<and> write_len u < 0"
    by (rule usart_error_lockup [where u = "usart_fresh\<lparr>must_parse := True, recv_len := 3\<rparr>" and w = 0 and parse = err_parser,
          OF _ _ _ _ _ disjI1 r])
       (simp_all add: usart_fresh_def err_parser_def)
  then show ?thesis unfolding r by simp
qed


subsection \<open>UDP: accesses outside of the buffers\<close>

text \<open>A command that continues keeps its state behind its name, which may be behind the array \<^verbatim>\<open>cmd\<close>.\<close>

lemma uecmd_help_overrun:
  assumes "has_help cmds" "0 < room"
  shows "uecmd_net_main (ecmd_parse_command aliases cmds) room junk True help_text behind w = None"
proof -
  have l: "uecmd_line junk help_text = help_text @ [0]"
    by (simp add: uecmd_line_def help_text_simps)
  have p: "prepare aliases (help_text @ [0]) = Some (help_text @ [0])"
    using backspace_help [of 0 "[]"] by (simp add: prepare_def peek_def help_text_simps plain_def)
  have n: "strlen (help_text @ [0]) = Some 4" by (simp add: help_text_simps strlen_def cstr_def)
  have "cmd_state [0] = None" by (simp add: cmd_state_def peek_def poke_def ECMD_STATE_MAGIC_def)
  then have "call_cmd cmds (help_text @ [0]) outp len w = None" for outp len
    using assms(1) by (simp add: call_cmd_def has_help_def parse_cmd_help_def help_text_simps)
  then have "ecmd_parse_command aliases cmds (help_text @ [0]) outp len w = None" for outp len
    unfolding parse_stages p Option.bind.bind_lunit n by simp
  then show ?thesis
    unfolding uecmd_net_main_def l using assms(2) by (subst uecmd_loop.simps) simp
qed

text \<open>A result of a read or write error makes the length of the answer negative.\<close>

lemma uecmd_error_overrun:
  assumes "parse cmd (Some buf) room w = Some (ECMD_ERR_READ_ERROR, cmd', Some out, w')" "0 < room" "length out < 65535"
  shows "uecmd_loop parse room cmd buf 0 w = None"
proof -
  have "unat (0 + of_int (ECMD_ERR_READ_ERROR + 1) - 1 :: u16) = 65534"
    by (simp add: ecmd_codes unsigned_minus_1_eq_mask)
  then have "poke (take (unat (0 :: u16)) buf @ out) (unat (0 + of_int (ECMD_ERR_READ_ERROR + 1) - 1 :: u16)) ch_nl = None"
    using assms(3) by (simp add: poke_def)
  moreover have "\<not> is_ECMD_AGAIN ECMD_ERR_READ_ERROR" by (simp add: ecmd_codes)
  ultimately show ?thesis
    using assms(1,2) by (subst uecmd_loop.simps) simp
qed

end
