(* ===== verification/E6_Eeprom.thy ===== *)
theory E6_Eeprom
  imports E6_Crc
begin

text \<open>
  The EEPROM access of \<^verbatim>\<open>core/eeprom.c\<close> and \<^verbatim>\<open>core/eeprom.h\<close>.  The EEPROM is a function from addresses to
  bytes.  The layout of \<^verbatim>\<open>struct eeprom_config_t\<close> depends on the configuration: the offset of a member and
  the size of the structure are arguments; the checksum is its last byte.
\<close>

fun eeprom_write_block_hack :: "nat \<Rightarrow> u8 list \<Rightarrow> nat \<Rightarrow> (nat \<Rightarrow> u8) \<Rightarrow> nat \<Rightarrow> u8" where
  "eeprom_write_block_hack dst src 0 e = e"
| "eeprom_write_block_hack dst src (Suc n) e = eeprom_write_block_hack dst src n (e(dst + n := src ! n))"

definition EEPROM_CONFIG_BASE :: nat where "EEPROM_CONFIG_BASE = 0"

definition eeprom_save_offset :: "nat \<Rightarrow> nat \<Rightarrow> u8 list \<Rightarrow> (nat \<Rightarrow> u8) \<Rightarrow> nat \<Rightarrow> u8" where
  "eeprom_save_offset dst off bytes e = eeprom_write_block_hack (EEPROM_CONFIG_BASE + dst + off) bytes (length bytes) e"

definition eeprom_restore_offset :: "nat \<Rightarrow> nat \<Rightarrow> nat \<Rightarrow> (nat \<Rightarrow> u8) \<Rightarrow> u8 list" where
  "eeprom_restore_offset dst off len e = map e [EEPROM_CONFIG_BASE + dst + off..<EEPROM_CONFIG_BASE + dst + off + len]"

definition eeprom_update_chksum :: "(u8 \<Rightarrow> u8 \<Rightarrow> u8) \<Rightarrow> nat \<Rightarrow> (nat \<Rightarrow> u8) \<Rightarrow> nat \<Rightarrow> u8" where
  "eeprom_update_chksum upd config_size e =
     eeprom_save_offset (config_size - 1) 0 [eeprom_get_chksum upd e EEPROM_CONFIG_BASE config_size] e"

subsection \<open>Lemmas\<close>

text \<open>The block is written backwards, and every byte once.\<close>

lemma eeprom_write_block_eq:
  "n \<le> length src \<Longrightarrow>
   eeprom_write_block_hack dst src n e = (\<lambda>a. if dst \<le> a \<and> a < dst + n then src ! (a - dst) else e a)"
  by (induction n arbitrary: e) (auto simp: fun_eq_iff less_Suc_eq_le)

lemma eeprom_save_eq:
  "eeprom_save_offset dst off bytes e =
     (\<lambda>a. if dst + off \<le> a \<and> a < dst + off + length bytes then bytes ! (a - (dst + off)) else e a)"
  by (simp add: eeprom_save_offset_def eeprom_write_block_eq EEPROM_CONFIG_BASE_def)

lemma eeprom_restore_save: "eeprom_restore_offset dst off (length bytes) (eeprom_save_offset dst off bytes e) = bytes"
  by (rule nth_equalityI) (simp_all add: eeprom_restore_offset_def eeprom_save_eq EEPROM_CONFIG_BASE_def)

lemma eeprom_restore_frame:
  "off + len \<le> off' \<or> off' + length bytes \<le> off \<Longrightarrow>
   eeprom_restore_offset dst off len (eeprom_save_offset dst off' bytes e) = eeprom_restore_offset dst off len e"
  by (auto simp: eeprom_restore_offset_def eeprom_save_eq EEPROM_CONFIG_BASE_def)

lemma eeprom_chksum_frame:
  "dst + off + len < config_size \<Longrightarrow>
   eeprom_restore_offset dst off len (eeprom_update_chksum upd config_size e) = eeprom_restore_offset dst off len e"
  by (auto simp: eeprom_restore_offset_def eeprom_update_chksum_def eeprom_save_eq EEPROM_CONFIG_BASE_def)

lemma length_eeprom_restore [simp]: "length (eeprom_restore_offset dst off len e) = len"
  by (simp add: eeprom_restore_offset_def)

text \<open>The checksum does not cover itself, so the stored one is that of the block.\<close>

lemma eeprom_chksum_stored:
  assumes "0 < config_size"
  shows "eeprom_update_chksum upd config_size e (config_size - 1)
     = eeprom_get_chksum upd (eeprom_update_chksum upd config_size e) EEPROM_CONFIG_BASE config_size"
proof -
  have "map (\<lambda>i. eeprom_update_chksum upd config_size e (EEPROM_CONFIG_BASE + i)) [0..<config_size - 1]
      = map (\<lambda>i. e (EEPROM_CONFIG_BASE + i)) [0..<config_size - 1]"
    using assms by (auto simp: eeprom_update_chksum_def eeprom_save_eq EEPROM_CONFIG_BASE_def)
  then have "eeprom_get_chksum upd (eeprom_update_chksum upd config_size e) EEPROM_CONFIG_BASE config_size
      = eeprom_get_chksum upd e EEPROM_CONFIG_BASE config_size"
    unfolding eeprom_get_chksum_def by (simp only:)
  then show ?thesis
    using assms by (simp add: eeprom_update_chksum_def [of _ _ e] eeprom_save_eq)
qed

end
