(* ===== verification/E6_Cron.thy ===== *)
theory E6_Cron
  imports E6_Clock E6_Ecmd E6_Eeprom
begin

text \<open>
  The cron daemon of \<^verbatim>\<open>services/cron\<close>: the conditions of \<^verbatim>\<open>cron_shared.c\<close>, the dynamic job list of
  \<^verbatim>\<open>cron.c\<close> with anacron and with its table in the EEPROM, and the static table of
  \<^verbatim>\<open>cron_static.c\<close>.

  Jobs are nodes of a doubly linked list on the heap, a partial map from addresses to nodes; an
  access through a pointer that is null or to freed memory makes an operation undefined (\<open>None\<close>).
  \<^verbatim>\<open>malloc\<close>'s results are arguments.  A job's function or command is external code: the model logs
  its invocation.  Signed 8-bit fields are kept as bytes and read with \<open>sint\<close>; the union at
  the end of \<^verbatim>\<open>struct cron_event\<close> and the extra bytes behind it are the byte list \<open>payload\<close>.
\<close>

subsection \<open>Conditions\<close>

record cron_conditions_t =
  c_minute :: u8
  c_hour :: u8
  c_day :: u8
  c_month :: u8
  c_daysofweek :: u8

definition cond_fields :: "cron_conditions_t \<Rightarrow> u8 list" where
  "cond_fields c = [c_minute c, c_hour c, c_day c, c_month c]"

definition cron_fields :: "clock_datetime_t \<Rightarrow> nat list" where
  "cron_fields d = [d_min d, d_hour d, d_day d, d_month d]"

definition field_matches :: "u8 \<Rightarrow> nat \<Rightarrow> nat \<Rightarrow> bool" where
  "field_matches field cd_value d_value =
     (if sint field = -1 then True
      else if sint field \<ge> 0 \<and> sint field \<noteq> int cd_value then False
      else if sint field < 0 then d_value mod nat (- sint field) = 0
      else True)"

definition cron_check_event ::
    "cron_conditions_t \<Rightarrow> bool \<Rightarrow> clock_datetime_t \<Rightarrow> clock_datetime_t \<Rightarrow> bool" where
  "cron_check_event cond use_utc d ld =
     (let cd = (if use_utc then d else ld) in
      (\<forall>f\<in>{0, 1, 2, 3}. field_matches (cond_fields cond ! f) (cron_fields cd ! f) (cron_fields d ! f))
      \<and> c_daysofweek cond AND push_bit (d_dow cd) 1 \<noteq> 0)"

subsection \<open>The job list\<close>

text \<open>\<^verbatim>\<open>cmd\<close> is a bit field of four bits.\<close>

record cron_event =
  extrasize :: u8
  cond :: cron_conditions_t
  repeat :: u8
  cmd :: "4 word"
  use_utc :: bool
  persistent :: bool
  anacron :: bool
  anacron_pending :: bool
  payload :: "u8 list"

record cron_event_linkedlist =
  next_job :: addr
  prev_job :: addr
  event :: cron_event

type_synonym job_heap = "addr \<Rightarrow> cron_event_linkedlist option"

text \<open>\<open>lt_cache\<close> is the cache of the clock's local time, \<open>executed\<close> the log of the jobs run.\<close>

record cron =
  heap :: job_heap
  head :: addr
  tail :: addr
  last_check :: u32
  lt_cache :: dst_cache
  eeprom :: "nat \<Rightarrow> u8"
  executed :: "cron_event list"

definition CRON_APPEND :: int where "CRON_APPEND = -1"
definition CRON_JUMP :: "4 word" where "CRON_JUMP = 1"
definition CRON_ECMD :: "4 word" where "CRON_ECMD = 2"

text \<open>An assignment to a field of the node at \<open>p\<close>.\<close>

definition upd_job ::
    "addr \<Rightarrow> (cron_event_linkedlist \<Rightarrow> cron_event_linkedlist) \<Rightarrow> cron \<Rightarrow> cron option" where
  "upd_job p f s = do { n \<leftarrow> heap s p; Some (s\<lparr>heap := (heap s)(p \<mapsto> f n)\<rparr>) }"

partial_function (option) jobs_loop :: "job_heap \<Rightarrow> addr \<Rightarrow> u8 \<Rightarrow> u8 option" where
  "jobs_loop h job ss =
     (if job = NULL then Some ss else do { n \<leftarrow> h job; jobs_loop h (next_job n) (ss + 1) })"

definition cron_jobs :: "cron \<Rightarrow> u8 option" where
  "cron_jobs s = jobs_loop (heap s) (head s) 0"

partial_function (option) getjob_loop :: "job_heap \<Rightarrow> addr \<Rightarrow> u8 \<Rightarrow> (addr \<times> u8) option" where
  "getjob_loop h job jobposition =
     (if job = NULL \<or> jobposition = 0 then Some (job, jobposition)
      else do { n \<leftarrow> h job; getjob_loop h (next_job n) (jobposition - 1) })"

definition cron_getjob :: "u8 \<Rightarrow> cron \<Rightarrow> addr option" where
  "cron_getjob jobposition s =
     do {
       (job, jobposition) \<leftarrow> getjob_loop (heap s) (head s) jobposition;
       Some (if jobposition \<noteq> 0 then NULL else job)
     }"

text \<open>The loop of \<^verbatim>\<open>cron_insert\<close> that jumps to a position; \<^verbatim>\<open>ss\<close> is a \<^verbatim>\<open>uint8_t\<close>.\<close>

partial_function (option) position_loop :: "job_heap \<Rightarrow> addr \<Rightarrow> u8 \<Rightarrow> int \<Rightarrow> (addr \<times> u8) option" where
  "position_loop h job ss position =
     (if job = NULL then Some (job, ss)
      else if uint ss = position then Some (job, ss + 1)
      else do { n \<leftarrow> h job; position_loop h (next_job n) (ss + 1) position })"

definition cron_insert :: "addr \<Rightarrow> int \<Rightarrow> cron \<Rightarrow> (u8 \<times> cron) option" where
  "cron_insert newone position s =
     (if head s = NULL then
        do {
          s \<leftarrow> upd_job newone (\<lambda>n. n\<lparr>prev_job := NULL, next_job := NULL\<rparr>) s;
          Some (0, s\<lparr>head := newone, tail := newone\<rparr>)
        }
      else if position > 0 then
        do {
          (job, ss) \<leftarrow> position_loop (heap s) (head s) 0 position;
          j \<leftarrow> heap s job;
          s \<leftarrow> upd_job newone (\<lambda>n. n\<lparr>prev_job := prev_job j\<rparr>) s;
          s \<leftarrow> upd_job job (\<lambda>n. n\<lparr>prev_job := newone\<rparr>) s;
          s \<leftarrow> upd_job newone (\<lambda>n. n\<lparr>next_job := job\<rparr>) s;
          Some (ss, if job = head s then s\<lparr>head := newone\<rparr> else s)
        }
      else
        do {
          s \<leftarrow> upd_job newone (\<lambda>n. n\<lparr>next_job := NULL, prev_job := tail s\<rparr>) s;
          s \<leftarrow> upd_job (tail s) (\<lambda>n. n\<lparr>next_job := newone\<rparr>) s;
          k \<leftarrow> cron_jobs (s\<lparr>tail := newone\<rparr>);
          Some (k - 1, s\<lparr>tail := newone\<rparr>)
        })"

definition cron_jobrm :: "addr \<Rightarrow> cron \<Rightarrow> cron option" where
  "cron_jobrm job s =
     (if job = NULL then Some s
      else do {
        j \<leftarrow> heap s job;
        let s = (if job = head s then s\<lparr>head := next_job j\<rparr> else s) in
        do {
          s \<leftarrow> (if prev_job j \<noteq> NULL then upd_job (prev_job j) (\<lambda>n. n\<lparr>next_job := next_job j\<rparr>) s else Some s);
          j \<leftarrow> heap s job;
          let s = (if job = tail s then s\<lparr>tail := prev_job j\<rparr> else s) in
          do {
            s \<leftarrow> (if next_job j \<noteq> NULL then upd_job (next_job j) (\<lambda>n. n\<lparr>prev_job := prev_job j\<rparr>) s else Some s);
            Some (s\<lparr>heap := (heap s)(job := None)\<rparr>)
          }
        }
      })"

definition new_event :: "cron_conditions_t \<Rightarrow> u8 \<Rightarrow> 4 word \<Rightarrow> u8 \<Rightarrow> u8 list \<Rightarrow> cron_event" where
  "new_event c rep command extra bytes =
     \<lparr>extrasize = extra, cond = c, repeat = rep, cmd = command, use_utc = False, persistent = False,
      anacron = False, anacron_pending = False, payload = bytes\<rparr>"

text \<open>Memory from \<^verbatim>\<open>malloc\<close>, filled with an event.\<close>

definition put_job :: "addr \<Rightarrow> cron_event \<Rightarrow> cron \<Rightarrow> cron" where
  "put_job a e s = s\<lparr>heap := (heap s)(a \<mapsto> \<lparr>next_job = NULL, prev_job = NULL, event = e\<rparr>)\<rparr>"

text \<open>
  \<^verbatim>\<open>CRON_DEFAULT_UTC\<close> is not defined.  The result is the position or -1; \<^verbatim>\<open>extradata\<close> is \<open>None\<close> for a null pointer, and
  copying from it is undefined.
\<close>

definition cron_jobinsert_callback ::
    "addr \<Rightarrow> cron_conditions_t \<Rightarrow> u8 \<Rightarrow> int \<Rightarrow> u16 \<Rightarrow> u8 \<Rightarrow> u8 list option \<Rightarrow> cron \<Rightarrow> (int \<times> cron) option" where
  "cron_jobinsert_callback malloc c rep position handler extra extradata s =
     (if handler = 0 \<or> extra = 0 \<and> extradata \<noteq> None then Some (-1, s)
      else if malloc = NULL then Some (-1, s)
      else do {
        data \<leftarrow> (if extra = 0 then Some [] else do { d \<leftarrow> extradata; Some (strncpy d (unat extra)) });
        (r, s) \<leftarrow> cron_insert malloc position
          (put_job malloc (new_event c rep CRON_JUMP extra ([ucast handler, ucast (drop_bit 8 handler)] @ data @ [0])) s);
        Some (uint r, s)
      })"

definition cron_jobinsert_ecmd ::
    "addr \<Rightarrow> cron_conditions_t \<Rightarrow> u8 \<Rightarrow> int \<Rightarrow> u8 list \<Rightarrow> cron \<Rightarrow> (int \<times> cron) option" where
  "cron_jobinsert_ecmd malloc c rep position ecmd s =
     (if cstr ecmd = [] then Some (-1, s)
      else
        let ecmdsize = of_nat (length (cstr ecmd) + 1) :: u8 in
        if malloc = NULL then Some (-1, s)
        else do {
          (r, s) \<leftarrow> cron_insert malloc position
            (put_job malloc (new_event c rep CRON_ECMD ecmdsize (strncpy ecmd (unat ecmdsize) @ [0, 0, 0])) s);
          Some (uint r, s)
        })"

subsection \<open>Running jobs\<close>


definition set_pending :: "bool \<Rightarrow> cron_event_linkedlist \<Rightarrow> cron_event_linkedlist" where
  "set_pending b n = n\<lparr>event := (event n)\<lparr>anacron_pending := b\<rparr>\<rparr>"








subsection \<open>The table in the EEPROM\<close>

text \<open>
  \<^verbatim>\<open>struct cron_event\<close> as the compiler lays it out (packed structures, bit fields from the lowest bit
  on): eight bytes, then the union of three bytes and the extra bytes, here the payload.
\<close>

definition sizeof_cron_event :: nat where "sizeof_cron_event = 11"

definition event_flags :: "cron_event \<Rightarrow> u8" where
  "event_flags e =
     ucast (cmd e) OR (if use_utc e then 0x10 else 0) OR (if persistent e then 0x20 else 0)
       OR (if anacron e then 0x40 else 0) OR (if anacron_pending e then 0x80 else 0)"

definition event_bytes :: "cron_event \<Rightarrow> u8 list" where
  "event_bytes e =
     [extrasize e, c_minute (cond e), c_hour (cond e), c_day (cond e), c_month (cond e), c_daysofweek (cond e),
      repeat e, event_flags e] @ payload e"

definition bytes_event :: "u8 list \<Rightarrow> cron_event" where
  "bytes_event b =
     \<lparr>extrasize = b ! 0,
      cond = \<lparr>c_minute = b ! 1, c_hour = b ! 2, c_day = b ! 3, c_month = b ! 4, c_daysofweek = b ! 5\<rparr>,
      repeat = b ! 6, cmd = ucast (b ! 7), use_utc = bit (b ! 7) 4, persistent = bit (b ! 7) 5,
      anacron = bit (b ! 7) 6, anacron_pending = bit (b ! 7) 7, payload = drop 8 b\<rparr>"

text \<open>The configuration: offset of \<^verbatim>\<open>crontab\<close>, its size, the size of the structure, and the CRC of the C library.\<close>

record cron_config =
  crontab :: nat
  CRON_EEPROM_SIZE :: u16
  config_size :: nat
  crc_upd :: "u8 \<Rightarrow> u8 \<Rightarrow> u8"

partial_function (option) count_loop :: "job_heap \<Rightarrow> addr \<Rightarrow> u8 \<Rightarrow> u16 \<Rightarrow> (u8 \<times> u16) option" where
  "count_loop h job count filesize =
     (if job = NULL then Some (count, filesize)
      else do {
        n \<leftarrow> h job;
        if persistent (event n)
        then count_loop h (next_job n) (count + 1) (filesize + of_nat sizeof_cron_event + ucast (extrasize (event n)))
        else count_loop h (next_job n) count filesize
      })"

partial_function (option) save_loop ::
    "nat \<Rightarrow> job_heap \<Rightarrow> addr \<Rightarrow> u16 \<Rightarrow> u8 \<Rightarrow> (nat \<Rightarrow> u8) \<Rightarrow> (u8 \<times> (nat \<Rightarrow> u8)) option" where
  "save_loop dst h job filesize saved_count e =
     (if job = NULL then Some (saved_count, e)
      else do {
        n \<leftarrow> h job;
        if persistent (event n)
        then let tempsize = of_nat sizeof_cron_event + ucast (extrasize (event n)) :: u16 in
             save_loop dst h (next_job n) (filesize + tempsize) (saved_count + 1)
               (eeprom_save_offset dst (unat filesize) (take (unat tempsize) (event_bytes (event n))) e)
        else save_loop dst h (next_job n) filesize saved_count e
      })"

definition cron_save :: "cron_config \<Rightarrow> cron \<Rightarrow> (int \<times> cron) option" where
  "cron_save cfg s =
     do {
       (count, filesize) \<leftarrow> count_loop (heap s) (head s) 0 1;
       if filesize \<ge> CRON_EEPROM_SIZE cfg then Some (-1, s)
       else do {
         (saved_count, e) \<leftarrow> save_loop (crontab cfg) (heap s) (head s) 1 0
                               (eeprom_save_offset (crontab cfg) 0 [count] (eeprom s));
         Some (uint saved_count, s\<lparr>eeprom := eeprom_update_chksum (crc_upd cfg) (config_size cfg) e\<rparr>)
       }
     }"

text \<open>\<open>malloc i\<close> is the result of the allocation for the i-th job.\<close>

fun load_loop :: "nat \<Rightarrow> (nat \<Rightarrow> addr) \<Rightarrow> nat \<Rightarrow> nat \<Rightarrow> u16 \<Rightarrow> cron \<Rightarrow> cron option" where
  "load_loop dst malloc i 0 position s = Some s"
| "load_loop dst malloc i (Suc n) position s =
     (let extra = eeprom_restore_offset dst (unat position) 1 (eeprom s) ! 0;
          wsize = of_nat sizeof_cron_event + ucast extra :: u16
      in if malloc i = NULL then Some s
         else do {
           (r, s) \<leftarrow> cron_insert (malloc i) CRON_APPEND
             (put_job (malloc i) (bytes_event (eeprom_restore_offset dst (unat position) (unat wsize) (eeprom s))) s);
           load_loop dst malloc (i + 1) n (position + wsize) s
         })"

definition cron_load :: "cron_config \<Rightarrow> (nat \<Rightarrow> addr) \<Rightarrow> cron \<Rightarrow> cron option" where
  "cron_load cfg malloc s =
     (let count = eeprom_restore_offset (crontab cfg) 0 1 (eeprom s) ! 0;
          count = (if count = 0xFF then 0 else count)
      in load_loop (crontab cfg) malloc 0 (unat count) 1 s)"

definition cron_init :: "cron_config \<Rightarrow> (nat \<Rightarrow> addr) \<Rightarrow> cron \<Rightarrow> cron option" where
  "cron_init cfg malloc s = cron_load cfg malloc (s\<lparr>head := NULL, tail := NULL, last_check := 0\<rparr>)"

subsection \<open>The static table\<close>

text \<open>The handler of an entry is an address, \<^verbatim>\<open>NULL\<close> at the end of the table; \<open>runs\<close> logs the calls.\<close>

record cron_static_event_t =
  st_cond :: cron_conditions_t
  st_handler :: addr
  st_use_utc :: bool

record cron_static =
  st_last_check :: u32
  st_cache :: dst_cache
  runs :: "addr list"

fun static_loop ::
    "cron_static_event_t list \<Rightarrow> clock_datetime_t \<Rightarrow> clock_datetime_t \<Rightarrow> addr list \<Rightarrow> addr list option" where
  "static_loop [] d ld log = None"
| "static_loop (e # es) d ld log =
     (if st_handler e = NULL then Some log
      else static_loop es d ld
             (if cron_check_event (st_cond e) (st_use_utc e) d ld then log @ [st_handler e] else log))"

definition cron_static_periodic ::
    "clock_timezone_t \<Rightarrow> cron_static_event_t list \<Rightarrow> u32 \<Rightarrow> cron_static \<Rightarrow> cron_static option" where
  "cron_static_periodic tz events timestamp s =
     (if timestamp < st_last_check s then
        do { d \<leftarrow> clock_datetime timestamp; Some (s\<lparr>st_last_check := timestamp - of_nat (d_sec d)\<rparr>) }
      else if timestamp - st_last_check s < 60 then Some s
      else
        do {
          d \<leftarrow> clock_datetime timestamp;
          ld \<leftarrow> fst (clock_localtime tz timestamp (st_cache s));
          log \<leftarrow> static_loop events d ld (runs s);
          Some (s\<lparr>st_cache := snd (clock_localtime tz timestamp (st_cache s)), runs := log,
                  st_last_check := timestamp - of_nat (d_sec d)\<rparr>)
        })"

subsection \<open>Commands\<close>

text \<open>
  The commands of \<^verbatim>\<open>cron_ecmd.c\<close>.  What \<^verbatim>\<open>sscanf_P\<close> returned (a \<^verbatim>\<open>uint8_t\<close> there) and left in the
  variables are arguments; the text that \<^verbatim>\<open>snprintf_P\<close> prints is its format and its arguments.
\<close>

datatype cron_reply = Code int | Printed string "int list"

definition cron_flag ::
    "(bool \<Rightarrow> cron_event \<Rightarrow> cron_event) \<Rightarrow> (cron_event \<Rightarrow> bool) \<Rightarrow> string \<Rightarrow> u8 \<Rightarrow> u8 \<Rightarrow> u8 \<Rightarrow> cron \<Rightarrow>
     (cron_reply \<times> cron) option" where
  "cron_flag set_flag get_flag fmt ret jobposition state s =
     do {
       jobll \<leftarrow> (if ret \<ge> 1 then cron_getjob jobposition s else Some NULL);
       if jobll = NULL then Some (Code ECMD_ERR_PARSE_ERROR, s)
       else if ret \<ge> 2 then
         do { s \<leftarrow> upd_job jobll (\<lambda>n. n\<lparr>event := set_flag (odd state) (event n)\<rparr>) s; Some (Code ECMD_FINAL_OK, s) }
       else
         do { n \<leftarrow> heap s jobll; Some (Printed fmt [uint jobposition, of_bool (get_flag (event n))], s) }
     }"

definition parse_cmd_cron_persistent :: "u8 \<Rightarrow> u8 \<Rightarrow> u8 \<Rightarrow> cron \<Rightarrow> (cron_reply \<times> cron) option" where
  "parse_cmd_cron_persistent = cron_flag (\<lambda>b e. e\<lparr>persistent := b\<rparr>) persistent ''cron %d persistent %d''"

definition parse_cmd_cron_anacron :: "u8 \<Rightarrow> u8 \<Rightarrow> u8 \<Rightarrow> cron \<Rightarrow> (cron_reply \<times> cron) option" where
  "parse_cmd_cron_anacron = cron_flag (\<lambda>b e. e\<lparr>anacron := b\<rparr>) anacron ''cron %d anacron %d''"

definition parse_cmd_cron_utc :: "u8 \<Rightarrow> u8 \<Rightarrow> u8 \<Rightarrow> cron \<Rightarrow> (cron_reply \<times> cron) option" where
  "parse_cmd_cron_utc = cron_flag (\<lambda>b e. e\<lparr>use_utc := b\<rparr>) use_utc ''cron %d utc %d''"

partial_function (option) rm_all :: "cron \<Rightarrow> cron option" where
  "rm_all s = (if head s \<noteq> NULL then do { s \<leftarrow> cron_jobrm (head s) s; rm_all s } else Some s)"

definition parse_cmd_cron_rm :: "u8 \<Rightarrow> u8 \<Rightarrow> cron \<Rightarrow> (cron_reply \<times> cron) option" where
  "parse_cmd_cron_rm ret jobposition s =
     (if ret = 1 then
        do {
          jobll \<leftarrow> cron_getjob jobposition s;
          if jobll = NULL then Some (Code ECMD_ERR_PARSE_ERROR, s)
          else do { s \<leftarrow> cron_jobrm jobll s; Some (Printed ''rm cron %u'' [uint jobposition], s) }
        }
      else do { s \<leftarrow> rm_all s; Some (Printed ''rm all cron'' [], s) })"

text \<open>\<open>args\<close> is \<open>None\<close> if not all five numbers were converted, otherwise they and the rest of the line.\<close>

definition parse_cmd_cron_add ::
    "addr \<Rightarrow> (cron_conditions_t \<times> u8 list) option \<Rightarrow> cron \<Rightarrow> (cron_reply \<times> cron) option" where
  "parse_cmd_cron_add malloc args s =
     (case args of
        None \<Rightarrow> Some (Code ECMD_ERR_PARSE_ERROR, s)
      | Some (c, rest) \<Rightarrow>
          do {
            (ret, s) \<leftarrow> cron_jobinsert_ecmd malloc c 0 CRON_APPEND rest s;
            Some (if ret < 0 then Printed ''add cron failed'' [] else Printed ''add cron %d'' [ret], s)
          })"

definition parse_cmd_cron_save :: "cron_config \<Rightarrow> cron \<Rightarrow> (cron_reply \<times> cron) option" where
  "parse_cmd_cron_save cfg s =
     do {
       (ret, s) \<leftarrow> cron_save cfg s;
       Some (if ret < 0 then Printed ''write error'' [] else Printed ''%d jobs saved'' [ret], s)
     }"

subsection \<open>The list invariant\<close>

text \<open>The first node of a list and the last one before it ends.\<close>

fun first :: "addr \<Rightarrow> addr list \<Rightarrow> addr" where
  "first q [] = q"
| "first q (a # as) = a"

fun final :: "addr \<Rightarrow> addr list \<Rightarrow> addr" where
  "final p [] = p"
| "final p (a # as) = final a as"

text \<open>\<open>dll h p as q\<close>: the nodes \<open>as\<close> are linked in both directions, between \<open>p\<close> and \<open>q\<close>.\<close>

fun dll :: "job_heap \<Rightarrow> addr \<Rightarrow> addr list \<Rightarrow> addr \<Rightarrow> bool" where
  "dll h p [] q = True"
| "dll h p (a # as) q =
     (a \<noteq> NULL \<and> (case h a of Some n \<Rightarrow> prev_job n = p \<and> next_job n = first q as | None \<Rightarrow> False) \<and> dll h a as q)"

definition cron_ok :: "cron \<Rightarrow> addr list \<Rightarrow> bool" where
  "cron_ok s as \<longleftrightarrow> dll (heap s) NULL as NULL \<and> distinct as \<and> head s = first NULL as \<and> tail s = final NULL as"

definition jobs_of :: "job_heap \<Rightarrow> addr list \<Rightarrow> cron_event list" where
  "jobs_of h as = map (\<lambda>a. event (the (h a))) as"

lemma first_append [simp]: "first q (xs @ ys) = first (first q ys) xs"
  by (cases xs) auto

lemma final_append [simp]: "final p (xs @ ys) = final (final p xs) ys"
  by (induction xs arbitrary: p) auto

lemma final_in: "as \<noteq> [] \<Longrightarrow> final p as \<in> set as"
  by (induction as arbitrary: p) (auto, metis final.simps(1))

lemma dll_append [simp]:
  "dll h p (xs @ ys) q \<longleftrightarrow> dll h p xs (first q ys) \<and> dll h (final p xs) ys q"
  by (induction xs arbitrary: p) (auto split: option.splits)

lemma dll_frame [simp]: "a \<notin> set as \<Longrightarrow> dll (h(a := v)) p as q = dll h p as q"
  by (induction as arbitrary: p) auto

lemma dll_nonnull: "dll h p as q \<Longrightarrow> NULL \<notin> set as"
  by (induction as arbitrary: p) auto

lemma dll_alloc: "dll h p as q \<Longrightarrow> a \<in> set as \<Longrightarrow> \<exists>n. h a = Some n"
  by (induction as arbitrary: p) (auto split: option.splits)


lemma jobs_of_frame [simp]: "a \<notin> set as \<Longrightarrow> jobs_of (h(a := v)) as = jobs_of h as"
  by (auto simp: jobs_of_def)

lemma jobs_of_simps [simp]:
  "jobs_of h [] = []" "jobs_of h (a # as) = event (the (h a)) # jobs_of h as" "jobs_of h (xs @ ys) = jobs_of h xs @ jobs_of h ys"
  by (simp_all add: jobs_of_def)

lemma length_jobs_of [simp]: "length (jobs_of h as) = length as"
  by (simp add: jobs_of_def)

lemma jobs_of_keep: "h a = Some n \<Longrightarrow> event n' = event n \<Longrightarrow> jobs_of (h(a \<mapsto> n')) as = jobs_of h as"
  by (auto simp: jobs_of_def)

subsection \<open>Counting and finding\<close>

lemma jobs_loop_dll: "dll h p as NULL \<Longrightarrow> jobs_loop h (first NULL as) ss = Some (ss + of_nat (length as))"
proof (induction as arbitrary: p ss)
  case Nil
  then show ?case by (subst jobs_loop.simps) simp
next
  case (Cons a as)
  then show ?case by (subst jobs_loop.simps) (auto split: option.splits simp: add.assoc)
qed

lemma cron_jobs_ok: "cron_ok s as \<Longrightarrow> cron_jobs s = Some (of_nat (length as))"
  using jobs_loop_dll [of "heap s" NULL as 0] by (simp add: cron_jobs_def cron_ok_def)

lemma getjob_loop_dll:
  "dll h p as NULL \<Longrightarrow>
   getjob_loop h (first NULL as) k =
     Some (if unat k < length as then (as ! unat k, 0) else (NULL, k - of_nat (length as)))"
proof (induction as arbitrary: p k)
  case Nil
  then show ?case by (subst getjob_loop.simps) simp
next
  case (Cons a as)
  show ?case
  proof (cases "k = 0")
    case True
    then show ?thesis by (subst getjob_loop.simps) simp
  next
    case False
    then have "unat (k - 1) = unat k - 1" "0 < unat k"
      by (simp_all add: unat_minus_one unat_gt_0)
    then show ?thesis
      using Cons False by (subst getjob_loop.simps) (auto split: option.splits simp: nth_Cons' algebra_simps)
  qed
qed

lemma cron_getjob_ok:
  assumes "cron_ok s as" "length as < 256"
  shows "cron_getjob k s = Some (if unat k < length as then as ! unat k else NULL)"
proof -
  have "k - of_nat (length as) = 0 \<Longrightarrow> unat k = length as"
    using assms(2) by (simp add: unat_of_nat)
  then show ?thesis
    using assms getjob_loop_dll [of "heap s" NULL as k] by (auto simp: cron_getjob_def cron_ok_def)
qed

subsection \<open>Appending\<close>

lemma cron_append_ok:
  assumes "cron_ok s as" "newone \<notin> set as" "newone \<noteq> NULL" "heap s newone = Some n" "position \<le> 0"
  shows "\<exists>h. cron_insert newone position s = Some (of_nat (length as), s\<lparr>heap := h, head := first newone as, tail := newone\<rparr>) \<and>
     cron_ok (s\<lparr>heap := h, head := first newone as, tail := newone\<rparr>) (as @ [newone]) \<and> jobs_of h (as @ [newone]) = jobs_of (heap s) as @ [event n]"
proof (cases "as = []")
  case True
  then show ?thesis
    using assms by (auto simp: cron_insert_def cron_ok_def upd_job_def)
next
  case False
  then obtain bs b where as: "as = bs @ [b]" by (metis append_butlast_last_id)
  have ok: "dll (heap s) NULL bs b" "b \<noteq> NULL" "distinct as" "head s = first b bs" "tail s = b"
    using assms(1) by (auto simp: cron_ok_def as)
  obtain m where m: "heap s b = Some m" "prev_job m = final NULL bs" "next_job m = NULL"
    using assms(1) by (auto simp: cron_ok_def as split: option.splits)
  have h: "head s \<noteq> NULL"
    using assms(1) dll_nonnull [of "heap s" NULL as NULL] False by (cases as) (auto simp: cron_ok_def)
  define h where "h = (heap s)(newone \<mapsto> n\<lparr>next_job := NULL, prev_job := b\<rparr>, b \<mapsto> m\<lparr>next_job := newone\<rparr>)"
  have d: "b \<noteq> newone" "newone \<notin> set bs" "b \<notin> set bs" using assms(2) ok(3) as by auto
  have c: "cron_ok (s\<lparr>heap := h, tail := newone\<rparr>) (as @ [newone])"
    using ok m d assms(2,3) by (auto simp: cron_ok_def as h_def)
  have u1: "upd_job newone (\<lambda>n. n\<lparr>next_job := NULL, prev_job := tail s\<rparr>) s
      = Some (s\<lparr>heap := (heap s)(newone \<mapsto> n\<lparr>next_job := NULL, prev_job := b\<rparr>)\<rparr>)"
    using assms(4) ok(5) by (simp add: upd_job_def)
  have u2: "upd_job b (\<lambda>n. n\<lparr>next_job := newone\<rparr>) (s\<lparr>heap := (heap s)(newone \<mapsto> n\<lparr>next_job := NULL, prev_job := b\<rparr>)\<rparr>)
      = Some (s\<lparr>heap := h\<rparr>)"
    using m(1) d by (simp add: upd_job_def h_def)
  have "cron_insert newone position s = Some (of_nat (length as), s\<lparr>heap := h, tail := newone\<rparr>)"
    unfolding cron_insert_def u1 using h assms(5) u2 ok(5) cron_jobs_ok [OF c] by simp
  moreover have "s\<lparr>heap := h, tail := newone\<rparr> = s\<lparr>heap := h, head := first newone as, tail := newone\<rparr>"
    using ok(4) by (simp add: as)
  moreover have "jobs_of h (as @ [newone]) = jobs_of (heap s) as @ [event n]"
    using m d by (simp add: h_def as)
  ultimately show ?thesis using c by auto
qed

subsection \<open>Removing\<close>

lemma dll_set_next:
  assumes "dll h p (xs @ [b]) q" "distinct (xs @ [b])" "h b = Some m"
  shows "dll (h(b \<mapsto> m\<lparr>next_job := q'\<rparr>)) p (xs @ [b]) q'"
  using assms by auto

lemma dll_set_prev:
  assumes "dll h p (c # ys) q" "distinct (c # ys)" "h c = Some m"
  shows "dll (h(c \<mapsto> m\<lparr>prev_job := p'\<rparr>)) p' (c # ys) q"
  using assms by auto

text \<open>The two halves of \<^verbatim>\<open>cron_jobrm\<close>: the link before and the link behind the job.\<close>

lemma unlink_before:
  assumes "dll h NULL xs j" "distinct xs" "heap s = h"
  shows "\<exists>h'. (if final NULL xs \<noteq> NULL then upd_job (final NULL xs) (\<lambda>n. n\<lparr>next_job := q\<rparr>) s else Some s)
             = Some (s\<lparr>heap := h'\<rparr>) \<and> dll h' NULL xs q \<and> (\<forall>as. jobs_of h' as = jobs_of h as) \<and> (\<forall>a. a \<notin> set xs \<longrightarrow> h' a = h a)"
proof (cases "xs = []")
  case True
  then show ?thesis using assms by (intro exI [of _ h]) auto
next
  case False
  then obtain ys b where xs: "xs = ys @ [b]" by (metis append_butlast_last_id)
  then obtain m where m: "h b = Some m" "b \<noteq> NULL" using assms(1) by (auto split: option.splits)
  let ?h = "h(b \<mapsto> m\<lparr>next_job := q\<rparr>)"
  have "dll ?h NULL xs q" using dll_set_next assms m unfolding xs by blast
  moreover have "jobs_of ?h as = jobs_of h as" for as using m by (simp add: jobs_of_keep)
  ultimately show ?thesis
    using m assms(3) by (intro exI [of _ ?h]) (auto simp: upd_job_def xs)
qed

lemma unlink_behind:
  assumes "dll h j ys NULL" "distinct ys" "heap s = h"
  shows "\<exists>h'. (if first NULL ys \<noteq> NULL then upd_job (first NULL ys) (\<lambda>n. n\<lparr>prev_job := p\<rparr>) s else Some s)
             = Some (s\<lparr>heap := h'\<rparr>) \<and> dll h' p ys NULL \<and> (\<forall>as. jobs_of h' as = jobs_of h as) \<and> (\<forall>a. a \<notin> set ys \<longrightarrow> h' a = h a)"
proof (cases ys)
  case Nil
  then show ?thesis using assms by (intro exI [of _ h]) auto
next
  case (Cons c zs)
  then obtain m where m: "h c = Some m" "c \<noteq> NULL" using assms(1) by (auto split: option.splits)
  let ?h = "h(c \<mapsto> m\<lparr>prev_job := p\<rparr>)"
  have "dll ?h p ys NULL" using dll_set_prev assms m unfolding Cons by blast
  moreover have "jobs_of ?h as = jobs_of h as" for as using m by (simp add: jobs_of_keep)
  ultimately show ?thesis
    using m assms(3) by (intro exI [of _ ?h]) (auto simp: upd_job_def Cons)
qed

lemma dll_cong: "(\<And>a. a \<in> set as \<Longrightarrow> h' a = h a) \<Longrightarrow> dll h' p as q = dll h p as q"
  by (induction as arbitrary: p) auto

lemma cron_jobrm_ok:
  assumes "cron_ok s (xs @ j # ys)"
  shows "\<exists>h. cron_jobrm j s = Some (s\<lparr>heap := h, head := first NULL (xs @ ys), tail := final NULL (xs @ ys)\<rparr>) \<and>
     cron_ok (s\<lparr>heap := h, head := first NULL (xs @ ys), tail := final NULL (xs @ ys)\<rparr>) (xs @ ys) \<and>
     jobs_of h (xs @ ys) = jobs_of (heap s) (xs @ ys) \<and>
     (\<forall>a. a \<notin> set (xs @ j # ys) \<longrightarrow> h a = heap s a)"
proof -
  have d: "dll (heap s) NULL xs j" "dll (heap s) j ys NULL" "j \<noteq> NULL" "distinct xs" "distinct ys"
      "j \<notin> set xs" "j \<notin> set ys" "set xs \<inter> set ys = {}" "head s = first j xs" "tail s = final j ys"
    using assms by (auto simp: cron_ok_def)
  obtain n where n: "heap s j = Some n" "prev_job n = final NULL xs" "next_job n = first NULL ys"
    using assms by (auto simp: cron_ok_def split: option.splits)
  have hd: "j = head s \<longleftrightarrow> xs = []" using d(6,9) by (cases xs) auto
  have tl: "j = tail s \<longleftrightarrow> ys = []" using d(7,10) final_in [of ys j] by (cases "ys = []") auto
  define s1 where "s1 = s\<lparr>head := first NULL (xs @ ys)\<rparr>"
  have s1: "(if j = head s then s\<lparr>head := next_job n\<rparr> else s) = s1"
    using hd n(3) d(9) by (cases xs) (auto simp: s1_def)
  obtain h1 where h1: "(if final NULL xs \<noteq> NULL then upd_job (final NULL xs) (\<lambda>n. n\<lparr>next_job := first NULL ys\<rparr>) s1 else Some s1)
      = Some (s1\<lparr>heap := h1\<rparr>)" "dll h1 NULL xs (first NULL ys)" "\<And>as. jobs_of h1 as = jobs_of (heap s) as"
      "\<And>a. a \<notin> set xs \<Longrightarrow> h1 a = heap s a"
    using unlink_before [of "heap s" xs j s1 "first NULL ys"] d by (auto simp: s1_def)
  have n1: "h1 j = Some n" using h1(4) d(6) n(1) by simp
  define s2 where "s2 = s1\<lparr>heap := h1, tail := final NULL (xs @ ys)\<rparr>"
  have s2: "(if j = tail (s1\<lparr>heap := h1\<rparr>) then (s1\<lparr>heap := h1\<rparr>)\<lparr>tail := prev_job n\<rparr> else s1\<lparr>heap := h1\<rparr>) = s2"
    using tl n(2) d(10) by (cases ys) (auto simp: s1_def s2_def)
  have "dll h1 j ys NULL"
    using d(2) dll_cong [of ys h1 "heap s" j NULL] h1(4) d(8) by blast
  then obtain h2 where h2: "(if first NULL ys \<noteq> NULL then upd_job (first NULL ys) (\<lambda>n. n\<lparr>prev_job := final NULL xs\<rparr>) s2 else Some s2)
      = Some (s2\<lparr>heap := h2\<rparr>)" "dll h2 (final NULL xs) ys NULL" "\<And>as. jobs_of h2 as = jobs_of h1 as"
      "\<And>a. a \<notin> set ys \<Longrightarrow> h2 a = h1 a"
    using unlink_behind [of h1 j ys s2 "final NULL xs"] d(5) by (auto simp: s2_def)
  have "dll h2 NULL xs (first NULL ys)"
    using h1(2) dll_cong [of xs h2 h1 NULL "first NULL ys"] h2(4) d(8) by blast
  then have ok: "dll (h2(j := None)) NULL (xs @ ys) NULL" using h2(2) d(6,7) by simp
  have "cron_jobrm j s = Some (s2\<lparr>heap := h2(j := None)\<rparr>)"
  proof -
    have n2: "heap (s1\<lparr>heap := h1\<rparr>) j = Some n" using n1 by simp
    show ?thesis
      unfolding cron_jobrm_def n(1) Option.bind.bind_lunit Let_def s1
      unfolding n(3) unfolding n(2) h1(1) Option.bind.bind_lunit n2
      unfolding n(2) s2 [unfolded n(2)] n(3) h2(1) using d(3) by simp
  qed
  moreover have "s2\<lparr>heap := h2(j := None)\<rparr> = s\<lparr>heap := h2(j := None), head := first NULL (xs @ ys), tail := final NULL (xs @ ys)\<rparr>"
    by (simp add: s1_def s2_def)
  ultimately show ?thesis
    using ok d h1(3,4) h2(3,4) by (intro exI [of _ "h2(j := None)"]) (auto simp: cron_ok_def)
qed

subsection \<open>Executing\<close>




subsection \<open>The check of a minute\<close>







lemma cron_ok_lt_cache [simp]: "cron_ok (s\<lparr>lt_cache := c\<rparr>) as = cron_ok s as" "cron_ok (s\<lparr>last_check := l\<rparr>) as = cron_ok s as"
  by (auto simp: cron_ok_def)


subsection \<open>Anacron\<close>

lemma set_pending_simps [simp]:
  "next_job (set_pending b n) = next_job n" "prev_job (set_pending b n) = prev_job n"
  "event (set_pending b n) = (event n)\<lparr>anacron_pending := b\<rparr>"
  by (simp_all add: set_pending_def)















subsection \<open>New jobs\<close>

lemma cron_ok_put_job: "a \<notin> set as \<Longrightarrow> cron_ok (put_job a e s) as = cron_ok s as"
  by (simp add: put_job_def cron_ok_def)

lemma append_new_job:
  assumes "cron_ok s as" "a \<notin> set as" "a \<noteq> NULL" "position \<le> 0"
  shows "\<exists>s'. cron_insert a position (put_job a e s) = Some (of_nat (length as), s') \<and> cron_ok s' (as @ [a]) \<and>
     jobs_of (heap s') (as @ [a]) = jobs_of (heap s) as @ [e] \<and> eeprom s' = eeprom s \<and> executed s' = executed s \<and>
     last_check s' = last_check s"
proof -
  let ?s = "put_job a e s"
  have n: "heap ?s a = Some \<lparr>next_job = NULL, prev_job = NULL, event = e\<rparr>" by (simp add: put_job_def)
  have ok: "cron_ok ?s as" using assms(1,2) by (simp add: cron_ok_put_job)
  have "jobs_of (heap ?s) as = jobs_of (heap s) as" using assms(2) by (simp add: put_job_def)
  then show ?thesis
    using cron_append_ok [OF ok assms(2,3) n assms(4)] by (auto simp: put_job_def)
qed

text \<open>
  A command given to cron is appended to the list as a job with its conditions and its text,
  zero-terminated, and its position is returned; without memory or without a command nothing
  changes and the result is -1.\<close>

theorem cron_add_ecmd:
  assumes "cron_ok s as" "length as < 256" "a \<notin> set as" "position \<le> 0" "length (cstr ecmd) < 255"
  shows "\<exists>s'. cron_jobinsert_ecmd a c rep position ecmd s =
       Some (if cstr ecmd = [] \<or> a = NULL then (-1, s) else (int (length as), s')) \<and>
     (cstr ecmd \<noteq> [] \<and> a \<noteq> NULL \<longrightarrow> cron_ok s' (as @ [a]) \<and>
       jobs_of (heap s') (as @ [a]) = jobs_of (heap s) as @
         [new_event c rep CRON_ECMD (of_nat (length (cstr ecmd) + 1)) (cstr ecmd @ [0, 0, 0, 0])])"
proof (cases "cstr ecmd = [] \<or> a = NULL")
  case True
  then show ?thesis by (auto simp: cron_jobinsert_ecmd_def Let_def)
next
  case False
  have u: "unat (of_nat (length (cstr ecmd) + 1) :: u8) = length (cstr ecmd) + 1"
    using assms(5) by (simp add: unat_word_ariths unat_of_nat)
  have "strncpy ecmd (length (cstr ecmd) + 1) = cstr ecmd @ [0]"
    by (simp add: strncpy_def Let_def)
  then have e: "strncpy ecmd (unat (of_nat (length (cstr ecmd) + 1) :: u8)) @ [0, 0, 0] = cstr ecmd @ [0, 0, 0, 0]"
    unfolding u by simp
  obtain s' where s': "cron_insert a position (put_job a (new_event c rep CRON_ECMD (of_nat (length (cstr ecmd) + 1)) (cstr ecmd @ [0, 0, 0, 0])) s)
      = Some (of_nat (length as), s')" "cron_ok s' (as @ [a])"
     "jobs_of (heap s') (as @ [a]) = jobs_of (heap s) as @ [new_event c rep CRON_ECMD (of_nat (length (cstr ecmd) + 1)) (cstr ecmd @ [0, 0, 0, 0])]"
    using append_new_job [OF assms(1,3) _ assms(4)] False by blast
  have "uint (of_nat (length as) :: u8) = int (length as)"
    using assms(2) by (simp add: uint_nat unat_of_nat del: of_nat_unat)
  then have "cron_jobinsert_ecmd a c rep position ecmd s = Some (int (length as), s')"
    unfolding cron_jobinsert_ecmd_def Let_def e s'(1) using False by simp
  then show ?thesis using False s' by auto
qed

subsection \<open>Removing through the command\<close>

lemma rm_all_ok: "cron_ok s as \<Longrightarrow> \<exists>s'. rm_all s = Some s' \<and> cron_ok s' [] \<and> executed s' = executed s"
proof (induction as arbitrary: s)
  case Nil
  then show ?case by (subst rm_all.simps) (auto simp: cron_ok_def)
next
  case (Cons a as)
  have "head s = a" "a \<noteq> NULL" using Cons.prems by (auto simp: cron_ok_def)
  moreover obtain h where h: "cron_jobrm a s = Some (s\<lparr>heap := h, head := first NULL as, tail := final NULL as\<rparr>)"
      "cron_ok (s\<lparr>heap := h, head := first NULL as, tail := final NULL as\<rparr>) as"
    using cron_jobrm_ok [of s "[]" a as] Cons.prems by auto
  ultimately show ?case
    using Cons.IH [OF h(2)] by (subst rm_all.simps) auto
qed

text \<open>
  C39: The command to remove a job removes exactly the job at the given position, reports a parse
  error and changes nothing if there is none, and removes all jobs if no position was read.\<close>

theorem cron_rm_correct:
  assumes "cron_ok s as" "length as < 256"
  shows "\<exists>reply s'. parse_cmd_cron_rm ret k s = Some (reply, s') \<and>
     (if ret \<noteq> 1 then reply = Printed ''rm all cron'' [] \<and> cron_ok s' []
      else if unat k < length as then
        reply = Printed ''rm cron %u'' [uint k] \<and> cron_ok s' (take (unat k) as @ drop (unat k + 1) as) \<and>
        jobs_of (heap s') (take (unat k) as @ drop (unat k + 1) as)
          = take (unat k) (jobs_of (heap s) as) @ drop (unat k + 1) (jobs_of (heap s) as)
      else reply = Code ECMD_ERR_PARSE_ERROR \<and> s' = s)"
proof (cases "ret = 1 \<and> unat k < length as")
  case True
  have as: "as = take (unat k) as @ as ! unat k # drop (unat k + 1) as"
    using True by (simp add: id_take_nth_drop)
  obtain h where h: "cron_jobrm (as ! unat k) s = Some (s\<lparr>heap := h, head := first NULL (take (unat k) as @ drop (unat k + 1) as), tail := final NULL (take (unat k) as @ drop (unat k + 1) as)\<rparr>)"
     "cron_ok (s\<lparr>heap := h, head := first NULL (take (unat k) as @ drop (unat k + 1) as), tail := final NULL (take (unat k) as @ drop (unat k + 1) as)\<rparr>) (take (unat k) as @ drop (unat k + 1) as)"
     "jobs_of h (take (unat k) as @ drop (unat k + 1) as) = jobs_of (heap s) (take (unat k) as @ drop (unat k + 1) as)"
    using cron_jobrm_ok [of s "take (unat k) as" "as ! unat k" "drop (unat k + 1) as"] assms(1) as by metis
  have "as ! unat k \<noteq> NULL"
    using True assms(1) dll_nonnull [of "heap s" NULL as NULL] by (metis cron_ok_def nth_mem)
  then show ?thesis
    using True h cron_getjob_ok [OF assms, of k]
    by (auto simp: parse_cmd_cron_rm_def jobs_of_def take_map drop_map)
next
  case False
  show ?thesis
  proof (cases "ret = 1")
    case True
    then show ?thesis
      using False cron_getjob_ok [OF assms, of k] by (auto simp: parse_cmd_cron_rm_def)
  next
    case all: False
    then show ?thesis
      using rm_all_ok [OF assms(1)] by (auto simp: parse_cmd_cron_rm_def)
  qed
qed

subsection \<open>The table in the EEPROM\<close>

definition event_ok :: "cron_event \<Rightarrow> bool" where
  "event_ok e \<longleftrightarrow> length (payload e) = 3 + unat (extrasize e)"

lemma length_event_bytes: "event_ok e \<Longrightarrow> length (event_bytes e) = sizeof_cron_event + unat (extrasize e)"
  by (simp add: event_bytes_def event_ok_def sizeof_cron_event_def)

lemma flags_bits:
  fixes c :: "4 word"
  defines "f u p a q \<equiv> (ucast c :: u8) OR (if u then 0x10 else 0) OR (if p then 0x20 else 0) OR (if a then 0x40 else 0) OR (if q then 0x80 else 0)"
  shows "ucast (f u p a q) = c" "bit (f u p a q) 4 = u" "bit (f u p a q) 5 = p" "bit (f u p a q) 6 = a" "bit (f u p a q) 7 = q"
proof -
  have c: "\<not> bit c n" if "4 \<le> n" for n using that bit_imp_le_length [of c n] by auto
  have m: "(0x10 :: u8) = push_bit 4 1" "(0x20 :: u8) = push_bit 5 1" "(0x40 :: u8) = push_bit 6 1" "(0x80 :: u8) = push_bit 7 1"
    by simp_all
  have s: "bit (if x then push_bit k 1 else (0 :: u8)) n \<longleftrightarrow> x \<and> n = k" if "k < 8" for x k n
    using that by (auto simp: bit_exp_iff)
  have b: "bit (f u p a q) n \<longleftrightarrow> n < 4 \<and> bit c n \<or> n = 4 \<and> u \<or> n = 5 \<and> p \<or> n = 6 \<and> a \<or> n = 7 \<and> q" for n
    using c [of n] unfolding f_def m bit_or_iff by (auto simp: s bit_ucast_iff)
  show "bit (f u p a q) 4 = u" "bit (f u p a q) 5 = p" "bit (f u p a q) 6 = a" "bit (f u p a q) 7 = q"
    using b by auto
  show "ucast (f u p a q) = c"
    by (rule bit_word_eqI) (simp add: bit_ucast_iff b)
qed

lemma bytes_event_bytes: "bytes_event (event_bytes e) = e"
  using flags_bits [of "cmd e" "use_utc e" "persistent e" "anacron e" "anacron_pending e"]
  by (simp add: bytes_event_def event_bytes_def event_flags_def [symmetric])

definition blob :: "cron_event list \<Rightarrow> u8 list" where
  "blob es = concat (map event_bytes es)"

lemma blob_simps [simp]: "blob [] = []" "blob (e # es) = event_bytes e @ blob es"
  by (simp_all add: blob_def)

lemma eeprom_save_append:
  "eeprom_save_offset dst off (a @ b) e = eeprom_save_offset dst (off + length a) b (eeprom_save_offset dst off a e)"
  by (auto simp: eeprom_save_eq nth_append fun_eq_iff add.assoc)

lemma eeprom_save_Nil [simp]: "eeprom_save_offset dst off [] e = e"
  by (auto simp: eeprom_save_eq fun_eq_iff)

lemma unat_wsize: "unat (of_nat sizeof_cron_event + ucast (x :: u8) :: u16) = sizeof_cron_event + unat x"
proof -
  have "unat (ucast x :: u16) = unat x" using u8_less_256 [of x] by (simp add: unsigned_ucast_eq take_bit_nat_eq_self_iff)
  then show ?thesis using u8_less_256 [of x] by (simp add: sizeof_cron_event_def unat_word_ariths)
qed

lemma wsize_of_nat: "event_ok e \<Longrightarrow> of_nat sizeof_cron_event + ucast (extrasize e) = (of_nat (length (event_bytes e)) :: u16)"
  using unat_wsize [of "extrasize e"] by (simp add: length_event_bytes word_unat_eq_iff unat_of_nat)

lemma count_loop_ok:
  assumes "dll h p ys NULL" "list_all event_ok (jobs_of h ys)"
  shows "count_loop h (first NULL ys) c fs =
     Some (c + of_nat (length (filter persistent (jobs_of h ys))), fs + of_nat (length (blob (filter persistent (jobs_of h ys)))))"
  using assms
proof (induction ys arbitrary: p c fs)
  case Nil
  then show ?case by (subst count_loop.simps) simp
next
  case (Cons y ys)
  obtain n where n: "h y = Some n" "next_job n = first NULL ys" "y \<noteq> NULL" "dll h y ys NULL"
    using Cons.prems by (auto split: option.splits)
  have e: "event_ok (event n)" using Cons.prems n by simp
  show ?case
    using Cons.IH [OF n(4)] Cons.prems(2) n wsize_of_nat [OF e]
    by (subst count_loop.simps) (simp add: add.assoc)
qed

lemma save_loop_ok:
  assumes "dll h p ys NULL" "list_all event_ok (jobs_of h ys)"
      and "unat fs + length (blob (filter persistent (jobs_of h ys))) < 65536"
  shows "save_loop dst h (first NULL ys) fs c e =
     Some (c + of_nat (length (filter persistent (jobs_of h ys))),
           eeprom_save_offset dst (unat fs) (blob (filter persistent (jobs_of h ys))) e)"
  using assms
proof (induction ys arbitrary: p c fs e)
  case Nil
  then show ?case by (subst save_loop.simps) simp
next
  case (Cons y ys)
  obtain n where n: "h y = Some n" "next_job n = first NULL ys" "y \<noteq> NULL" "dll h y ys NULL"
    using Cons.prems by (auto split: option.splits)
  have e: "event_ok (event n)" using Cons.prems n by simp
  show ?case
  proof (cases "persistent (event n)")
    case True
    let ?b = "event_bytes (event n)"
    have lb: "unat fs + length ?b < 65536" using Cons.prems(3) True n(1) by simp
    then have u: "unat (of_nat (length ?b) :: u16) = length ?b" "unat (fs + of_nat (length ?b)) = unat fs + length ?b"
      by (simp_all add: unat_of_nat unat_word_ariths)
    have ih: "save_loop dst h (first NULL ys) (fs + of_nat (length ?b)) (c + 1) (eeprom_save_offset dst (unat fs) ?b e) =
     Some (c + 1 + of_nat (length (filter persistent (jobs_of h ys))),
           eeprom_save_offset dst (unat (fs + of_nat (length ?b))) (blob (filter persistent (jobs_of h ys))) (eeprom_save_offset dst (unat fs) ?b e))"
      using Cons.prems True n u by (intro Cons.IH) (auto simp: add.assoc)
    show ?thesis
      using n True ih u wsize_of_nat [OF e]
      by (subst save_loop.simps) (simp add: Let_def eeprom_save_append add.assoc)
  next
    case False
    then show ?thesis
      using Cons.IH [OF n(4)] Cons.prems n by (subst save_loop.simps) simp
  qed
qed

lemma eeprom_restore_append:
  "eeprom_restore_offset dst off (a + b) e = eeprom_restore_offset dst off a e @ eeprom_restore_offset dst (off + a) b e"
  using upt_add_eq_append [of "EEPROM_CONFIG_BASE + dst + off" "EEPROM_CONFIG_BASE + dst + off + a" b]
  by (simp add: eeprom_restore_offset_def add.assoc)

lemma load_loop_ok:
  assumes "cron_ok s as" "list_all event_ok es" "unat pos + length (blob es) < 65536"
      and "eeprom_restore_offset dst (unat pos) (length (blob es)) (eeprom s) = blob es"
      and "\<And>k. k < length es \<Longrightarrow> malloc (i + k) \<noteq> NULL \<and> malloc (i + k) \<notin> set as"
      and "inj_on (\<lambda>k. malloc (i + k)) {..<length es}"
  shows "\<exists>s' as'. load_loop dst malloc i (length es) pos s = Some s' \<and> cron_ok s' (as @ as') \<and>
     jobs_of (heap s') (as @ as') = jobs_of (heap s) as @ es"
  using assms
proof (induction es arbitrary: i pos s as)
  case Nil
  then show ?case by (auto intro: exI [of _ "[]"])
next
  case (Cons e es)
  let ?b = "event_bytes e"
  have e: "event_ok e" using Cons.prems(2) by simp
  have lb: "length ?b = sizeof_cron_event + unat (extrasize e)" "0 < length ?b" using length_event_bytes [OF e] by (simp_all add: sizeof_cron_event_def)
  have r: "eeprom_restore_offset dst (unat pos) (length ?b) (eeprom s) = ?b"
      "eeprom_restore_offset dst (unat pos + length ?b) (length (blob es)) (eeprom s) = blob es"
    using Cons.prems(4) by (simp_all add: eeprom_restore_append)
  have x: "eeprom_restore_offset dst (unat pos) 1 (eeprom s) ! 0 = extrasize e"
  proof -
    have "length ?b = 1 + (length ?b - 1)" using lb(2) by simp
    then have "?b = eeprom_restore_offset dst (unat pos) 1 (eeprom s) @ eeprom_restore_offset dst (unat pos + 1) (length ?b - 1) (eeprom s)"
      using r(1) eeprom_restore_append [of dst "unat pos" 1 "length ?b - 1" "eeprom s"] by simp
    then have "eeprom_restore_offset dst (unat pos) 1 (eeprom s) ! 0 = ?b ! 0"
      by (metis length_eeprom_restore less_one nth_append)
    then show ?thesis by (simp add: event_bytes_def)
  qed
  have a: "malloc i \<noteq> NULL" "malloc i \<notin> set as" using Cons.prems(5) [of 0] by simp_all
  obtain s1 where s1: "cron_insert (malloc i) CRON_APPEND (put_job (malloc i) e s) = Some (of_nat (length as), s1)"
      "cron_ok s1 (as @ [malloc i])" "jobs_of (heap s1) (as @ [malloc i]) = jobs_of (heap s) as @ [e]" "eeprom s1 = eeprom s"
    using append_new_job [OF Cons.prems(1) a(2,1), of CRON_APPEND e] by (auto simp: CRON_APPEND_def)
  have u: "unat (pos + of_nat (length ?b)) = unat pos + length ?b"
    using Cons.prems(3) by (simp add: unat_of_nat unat_word_ariths)
  have step: "load_loop dst malloc i (length (e # es)) pos s = load_loop dst malloc (i + 1) (length es) (pos + of_nat (length ?b)) s1"
    unfolding list.size(4) Nat.add_0_right add_Suc_right load_loop.simps Let_def x unat_wsize lb(1) [symmetric] r(1)
      bytes_event_bytes s1(1) wsize_of_nat [OF e] using a(1) by simp
  have "\<exists>s' as'. load_loop dst malloc (i + 1) (length es) (pos + of_nat (length ?b)) s1 = Some s' \<and> cron_ok s' ((as @ [malloc i]) @ as') \<and>
     jobs_of (heap s') ((as @ [malloc i]) @ as') = jobs_of (heap s1) (as @ [malloc i]) @ es"
  proof (rule Cons.IH [OF s1(2)])
    show "list_all event_ok es" using Cons.prems(2) by simp
    show "unat (pos + of_nat (length ?b)) + length (blob es) < 65536" using Cons.prems(3) u by simp
    show "eeprom_restore_offset dst (unat (pos + of_nat (length ?b))) (length (blob es)) (eeprom s1) = blob es"
      using r(2) u s1(4) by simp
    show "malloc (i + 1 + k) \<noteq> NULL \<and> malloc (i + 1 + k) \<notin> set (as @ [malloc i])" if "k < length es" for k
      using Cons.prems(5) [of "Suc k"] inj_onD [OF Cons.prems(6), of "Suc k" 0] that by auto
    show "inj_on (\<lambda>k. malloc (i + 1 + k)) {..<length es}"
      using Cons.prems(6) by (auto simp: inj_on_def) (metis Suc_less_eq Suc_inject add_Suc_right lessThan_iff)
  qed
  then show ?case
    unfolding step s1(3) by (metis append_assoc append_Cons append_Nil)
qed

definition saved_jobs :: "cron \<Rightarrow> addr list \<Rightarrow> cron_event list" where
  "saved_jobs s as = filter persistent (jobs_of (heap s) as)"

text \<open>
  C27: The persistent jobs saved to the EEPROM are the jobs of the list after the next start: same
  order, same conditions, flags, counters and data.\<close>

theorem cron_save_load:
  assumes "cron_ok s as" "list_all event_ok (jobs_of (heap s) as)" "length (saved_jobs s as) < 255"
      and "1 + length (blob (saved_jobs s as)) < unat (CRON_EEPROM_SIZE cfg)"
      and "crontab cfg + unat (CRON_EEPROM_SIZE cfg) < config_size cfg"
      and "\<And>i. i < length (saved_jobs s as) \<Longrightarrow> malloc i \<noteq> NULL" "inj_on malloc {..<length (saved_jobs s as)}"
  shows "\<exists>s1. cron_save cfg s = Some (int (length (saved_jobs s as)), s1) \<and>
    (\<forall>s2. eeprom s2 = eeprom s1 \<longrightarrow>
      (\<exists>s3 as3. cron_init cfg malloc s2 = Some s3 \<and> cron_ok s3 as3 \<and> jobs_of (heap s3) as3 = saved_jobs s as))"
proof -
  define n where "n = length (saved_jobs s as)"
  define b where "b = blob (saved_jobs s as)"
  have d: "dll (heap s) NULL as NULL" "head s = first NULL as" using assms(1) by (auto simp: cron_ok_def)
  have sz: "1 + length b < 65536" using assms(4) u16_less_65536 [of "CRON_EEPROM_SIZE cfg"] by (simp add: b_def)
  have u: "unat (1 + of_nat (length b) :: u16) = 1 + length b" using sz by (simp add: unat_of_nat unat_word_ariths)
  have c: "count_loop (heap s) (head s) 0 1 = Some (of_nat n, 1 + of_nat (length b))"
    using count_loop_ok [OF d(1) assms(2), of 0 1] d(2) by (simp add: saved_jobs_def n_def b_def)
  define e1 where "e1 = eeprom_save_offset (crontab cfg) 1 b (eeprom_save_offset (crontab cfg) 0 [of_nat n] (eeprom s))"
  have l: "save_loop (crontab cfg) (heap s) (head s) 1 0 (eeprom_save_offset (crontab cfg) 0 [of_nat n] (eeprom s)) = Some (of_nat n, e1)"
    using save_loop_ok [OF d(1) assms(2), of 1] sz d(2) by (simp add: saved_jobs_def n_def b_def e1_def)
  define s1 where "s1 = s\<lparr>eeprom := eeprom_update_chksum (crc_upd cfg) (config_size cfg) e1\<rparr>"
  have un: "unat (of_nat n :: u8) = n" using assms(3) by (simp add: n_def unat_of_nat)
  have sv: "cron_save cfg s = Some (int n, s1)"
    unfolding cron_save_def c Option.bind.bind_lunit prod.case l
    using assms(4) u un by (simp add: word_le_nat_alt b_def s1_def uint_nat del: of_nat_unat)
  have all: "eeprom_restore_offset (crontab cfg) 0 (1 + length b) (eeprom s1) = of_nat n # b"
  proof -
    have "eeprom_restore_offset (crontab cfg) 0 (1 + length b) (eeprom s1) = eeprom_restore_offset (crontab cfg) 0 (1 + length b) e1"
      using assms(4,5) by (simp add: s1_def b_def eeprom_chksum_frame)
    also have "e1 = eeprom_save_offset (crontab cfg) 0 (of_nat n # b) (eeprom s)"
      using eeprom_save_append [of "crontab cfg" 0 "[of_nat n]" b "eeprom s"] by (simp add: e1_def)
    finally show ?thesis using eeprom_restore_save [of "crontab cfg" 0 "of_nat n # b" "eeprom s"] by simp
  qed
  have parts: "eeprom_restore_offset (crontab cfg) 0 1 (eeprom s1) = [of_nat n]" "eeprom_restore_offset (crontab cfg) 1 (length b) (eeprom s1) = b"
    using all unfolding eeprom_restore_append by (simp_all add: append_eq_append_conv eeprom_restore_offset_def)
  have "\<exists>s3 as3. cron_init cfg malloc s2 = Some s3 \<and> cron_ok s3 as3 \<and> jobs_of (heap s3) as3 = saved_jobs s as"
    if "eeprom s2 = eeprom s1" for s2
  proof -
    let ?s = "s2\<lparr>head := NULL, tail := NULL, last_check := 0\<rparr>"
    have "\<exists>s' as'. load_loop (crontab cfg) malloc 0 (length (saved_jobs s as)) 1 ?s = Some s' \<and> cron_ok s' ([] @ as') \<and>
       jobs_of (heap s') ([] @ as') = jobs_of (heap ?s) [] @ saved_jobs s as"
      using assms(2,6,7) sz that parts(2)
      by (intro load_loop_ok) (auto simp: cron_ok_def b_def saved_jobs_def list_all_iff)
    moreover have "(of_nat n :: u8) \<noteq> 0xFF"
      using un assms(3) by (auto simp: n_def word_unat_eq_iff)
    ultimately show ?thesis
      using that parts(1) un by (simp add: cron_init_def cron_load_def n_def)
  qed
  then show ?thesis using sv by (auto simp: n_def)
qed

subsection \<open>Insertion at a position\<close>

text \<open>The list as the loops see it, which follow \<^verbatim>\<open>next\<close> only.\<close>

fun fwd :: "job_heap \<Rightarrow> addr list \<Rightarrow> bool" where
  "fwd h [] = True"
| "fwd h (a # as) = (a \<noteq> NULL \<and> map_option next_job (h a) = Some (first NULL as) \<and> fwd h as)"

lemma dll_fwd: "dll h p as NULL \<Longrightarrow> fwd h as"
  by (induction as arbitrary: p) (auto split: option.splits)

lemma fwd_cong: "(\<And>a. a \<in> set as \<Longrightarrow> map_option next_job (h' a) = map_option next_job (h a)) \<Longrightarrow> fwd h' as = fwd h as"
  by (induction as) auto

lemma jobs_loop_fwd: "fwd h as \<Longrightarrow> jobs_loop h (first NULL as) ss = Some (ss + of_nat (length as))"
proof (induction as arbitrary: ss)
  case Nil
  then show ?case by (subst jobs_loop.simps) simp
next
  case (Cons a as)
  then obtain n where "h a = Some n" "next_job n = first NULL as" "a \<noteq> NULL" by auto
  then show ?case using Cons by (subst jobs_loop.simps) (auto simp: add.assoc)
qed

lemma position_loop_dll:
  assumes "dll h p as NULL" "uint ss \<le> position" "position < 256" "unat ss + length as < 256"
  shows "position_loop h (first NULL as) ss position =
     Some (if nat position < unat ss + length as then (as ! (nat position - unat ss), of_int (position + 1))
           else (NULL, ss + of_nat (length as)))"
  using assms
proof (induction as arbitrary: p ss)
  case Nil
  have "unat ss \<le> nat position" using nat_mono [OF Nil(2)] by simp
  moreover have "position_loop h (first NULL []) ss position = Some (NULL, ss)"
    by (subst position_loop.simps) simp
  ultimately show ?case by (simp only:) simp
next
  case (Cons a as)
  obtain n where n: "h a = Some n" "next_job n = first NULL as" "a \<noteq> NULL" "dll h a as NULL"
    using Cons.prems by (auto split: option.splits)
  show ?case
  proof (cases "uint ss = position")
    case True
    then have "nat position = unat ss" "of_int (position + 1) = ss + 1" by auto
    then show ?thesis using True n by (subst position_loop.simps) simp
  next
    case False
    have u: "unat (ss + 1) = unat ss + 1" using Cons.prems(4) by (simp add: unat_word_ariths)
    have ui: "uint (ss + 1) = uint ss + 1" using arg_cong [OF u, of int] by simp
    have lt: "unat ss < nat position" using False Cons.prems(2) by (simp add: zless_nat_eq_int_zless)
    then have "nat position - unat ss = Suc (nat position - unat (ss + 1))" using u by simp
    then show ?thesis
      using Cons.IH [OF n(4), of "ss + 1"] False n Cons.prems u ui
      by (subst position_loop.simps) (auto simp: add.assoc)
  qed
qed

text \<open>
  A job inserted at a position other than the end is not linked from its predecessor: the loops
  never see it.  At a position behind the end the loop ends with a null pointer that is
  dereferenced.
\<close>

lemma cron_insert_lost:
  assumes "cron_ok s as" "length as < 256" "0 < position" "nat position < length as"
      and "newone \<notin> set as" "newone \<noteq> NULL" "heap s newone = Some n"
  shows "\<exists>s'. cron_insert newone position s = Some (of_int (position + 1), s') \<and> cron_jobs s' = cron_jobs s"
proof -
  define j where "j = as ! nat position"
  have d: "dll (heap s) NULL as NULL" "distinct as" "head s = first NULL as" using assms(1) by (auto simp: cron_ok_def)
  have p: "position_loop (heap s) (head s) 0 position = Some (j, of_int (position + 1))"
    using position_loop_dll [OF d(1), of 0 position] assms(2-4) d(3) by (simp add: j_def)
  have jin: "j \<in> set as" using assms(4) by (simp add: j_def)
  then obtain m where m: "heap s j = Some m" using dll_alloc [OF d(1)] by blast
  obtain a as' where as: "as = a # as'" using assms(4) by (cases as) auto
  have hd: "head s \<noteq> NULL" using d(1,3) as by auto
  have "as ! 0 \<noteq> j" unfolding j_def using assms(3,4) d(2) by (subst nth_eq_iff_index_eq) auto
  then have jh: "j \<noteq> head s" using d(3) as by simp
  have jn: "j \<noteq> newone" using jin assms(5) by auto
  define h where "h = (heap s)(j \<mapsto> m\<lparr>prev_job := newone\<rparr>, newone \<mapsto> n\<lparr>prev_job := prev_job m, next_job := j\<rparr>)"
  have "cron_insert newone position s = Some (of_int (position + 1), s\<lparr>heap := h\<rparr>)"
    unfolding cron_insert_def using hd assms(3,7) p m jn jh
    by (simp add: upd_job_def h_def fun_upd_twist)
  moreover have "map_option next_job (h a) = map_option next_job (heap s a)" if "a \<in> set as" for a
    using that assms(5) m by (auto simp: h_def)
  then have "fwd h as"
    using dll_fwd [OF d(1)] fwd_cong by blast
  then have "cron_jobs (s\<lparr>heap := h\<rparr>) = cron_jobs s"
    using jobs_loop_fwd dll_fwd [OF d(1)] d(3) by (simp add: cron_jobs_def)
  ultimately show ?thesis by blast
qed

lemma cron_insert_past_end:
  assumes "cron_ok s as" "as \<noteq> []" "length as < 256" "length as \<le> nat position" "position < 256" "heap s NULL = None"
  shows "cron_insert newone position s = None"
proof -
  have d: "dll (heap s) NULL as NULL" "head s = first NULL as" using assms(1) by (auto simp: cron_ok_def)
  then have "head s \<noteq> NULL" using assms(2) by (cases as) auto
  moreover have pos: "0 < position"
    using assms(2,4) by (cases as) auto
  moreover have "position_loop (heap s) (head s) 0 position = Some (NULL, of_nat (length as))"
    using position_loop_dll [OF d(1), of 0 position] assms(3-5) d(2) pos by simp
  ultimately show ?thesis
    using assms(6) by (simp add: cron_insert_def)
qed

text \<open>A step value of a job in local time is tested against the fields of the UTC time.\<close>

lemma cron_step_uses_utc:
  assumes "sint (c_hour c) < -1" "cron_check_event c False d ld"
  shows "d_hour d mod nat (- sint (c_hour c)) = 0"
  using assms by (auto simp: cron_check_event_def Let_def field_matches_def cond_fields_def cron_fields_def split: if_splits)

subsection \<open>Witnesses\<close>

definition every_minute :: cron_conditions_t where
  "every_minute = \<lparr>c_minute = 0xFF, c_hour = 0xFF, c_day = 0xFF, c_month = 0xFF, c_daysofweek = 0xFF\<rparr>"

definition job_once :: cron_event where
  "job_once = (new_event every_minute 1 CRON_ECMD 2 [97, 0, 0, 0, 0])\<lparr>persistent := True\<rparr>"

definition one_job :: cron where
  "one_job = \<lparr>heap = [7 \<mapsto> \<lparr>next_job = NULL, prev_job = NULL, event = job_once\<rparr>], head = 7, tail = 7, last_check = 0,
     lt_cache = no_cache, eeprom = \<lambda>_. 0xFF, executed = []\<rparr>"

lemma one_job_ok: "cron_ok one_job [7]" "jobs_of (heap one_job) [7] = [job_once]"
  by (simp_all add: cron_ok_def one_job_def)






theorem cron_add_ecmd_witness:
  "\<exists>s'. cron_jobinsert_ecmd 9 every_minute 0 CRON_APPEND [97, 98, 0] one_job =
       Some (if cstr [97, 98, 0] = [] \<or> 9 = NULL then (-1, one_job) else (int (length [7 :: addr]), s')) \<and>
     (cstr [97, 98, 0] \<noteq> [] \<and> 9 \<noteq> NULL \<longrightarrow> cron_ok s' ([7] @ [9]) \<and>
       jobs_of (heap s') ([7] @ [9]) = jobs_of (heap one_job) [7] @
         [new_event every_minute 0 CRON_ECMD (of_nat (length (cstr [97, 98, 0]) + 1)) (cstr [97, 98, 0] @ [0, 0, 0, 0])])"
  by (rule cron_add_ecmd) (simp_all add: one_job_ok CRON_APPEND_def cstr_def)

theorem cron_rm_correct_witness:
  "\<exists>reply s'. parse_cmd_cron_rm 1 0 one_job = Some (reply, s') \<and> reply = Printed ''rm cron %u'' [0] \<and> cron_ok s' []"
  using cron_rm_correct [OF one_job_ok(1), of 1 0] by auto

definition cfg0 :: cron_config where
  "cfg0 = \<lparr>crontab = 10, CRON_EEPROM_SIZE = 100, config_size = 200, crc_upd = crc_ibutton_update\<rparr>"

theorem cron_save_load_witness:
  "\<exists>s1 s3 as3. cron_save cfg0 one_job = Some (1, s1) \<and> cron_init cfg0 (\<lambda>i. 20 + i) (s1\<lparr>heap := Map.empty\<rparr>) = Some s3 \<and>
     cron_ok s3 as3 \<and> jobs_of (heap s3) as3 = [job_once]"
proof -
  have sv: "saved_jobs one_job [7] = [job_once]"
    by (simp add: saved_jobs_def one_job_def job_once_def)
  have l: "length (blob [job_once]) = 13"
    by (simp add: job_once_def new_event_def event_bytes_def)
  have e: "list_all event_ok (jobs_of (heap one_job) [7])"
    by (simp add: one_job_def job_once_def new_event_def event_ok_def)
  have c: "unat (CRON_EEPROM_SIZE cfg0) = 100" "crontab cfg0 = 10" "config_size cfg0 = 200"
    by (simp_all add: cfg0_def)
  obtain s1 where s1: "cron_save cfg0 one_job = Some (1, s1)"
      "\<And>s2. eeprom s2 = eeprom s1 \<Longrightarrow> \<exists>s3 as3. cron_init cfg0 (\<lambda>i. 20 + i) s2 = Some s3 \<and> cron_ok s3 as3 \<and> jobs_of (heap s3) as3 = [job_once]"
    using cron_save_load [OF one_job_ok(1) e, of cfg0 "\<lambda>i. 20 + i"] l c by (auto simp: sv)
  then show ?thesis using s1(2) [of "s1\<lparr>heap := Map.empty\<rparr>"] by auto
qed

end
