(* ===== verification/E6_Vfs.thy ===== *)
theory E6_Vfs
  imports E6_Cstring
begin

text \<open>
  The virtual file system of \<^verbatim>\<open>core/vfs/vfs.c\<close> and the helpers of \<^verbatim>\<open>core/vfs/vfs-util.c\<close>.
  Every module that stores files provides a table of functions (\<^verbatim>\<open>struct vfs_func_t\<close>), in which
  an entry may be null.  \<^verbatim>\<open>vfs_open\<close>, \<^verbatim>\<open>vfs_create\<close> and \<^verbatim>\<open>vfs_unlink\<close> ask one module after the
  other; the operations on a handle go to the module the handle belongs to.

  \<open>'u\<close> is the module's part of a handle (the union of \<^verbatim>\<open>struct vfs_file_handle_t\<close>) and \<open>'s\<close> the
  state of all modules.  A handle is passed and returned by value.  An operation gives \<open>None\<close>
  when the C code has undefined behaviour or does not return.  A read returns its result, the
  bytes it stored at the beginning of the buffer, and the handle.

  The locale \<open>vfs_store\<close> is the contract of a table in terms of a map from file names to
  contents.  \<^verbatim>\<open>vfs_file_append\<close> and \<^verbatim>\<open>vfs_copy_file\<close> are proved correct against that contract.
\<close>

subsection \<open>Handles and the table of functions\<close>

record 'u vfs_file_handle_t =
  fh_type :: u8
  fh_u :: 'u

record ('u, 's) vfs_func_t =
  vf_open :: "(u8 list \<Rightarrow> 's \<Rightarrow> ('u vfs_file_handle_t option \<times> 's) option) option"
  vf_close :: "('u vfs_file_handle_t \<Rightarrow> 's \<Rightarrow> 's option) option"
  vf_read :: "('u vfs_file_handle_t \<Rightarrow> u32 \<Rightarrow> 's \<Rightarrow> (u32 \<times> u8 list \<times> 'u vfs_file_handle_t \<times> 's) option) option"
  vf_write :: "('u vfs_file_handle_t \<Rightarrow> u8 list \<Rightarrow> 's \<Rightarrow> (u32 \<times> 'u vfs_file_handle_t \<times> 's) option) option"
  vf_fseek :: "('u vfs_file_handle_t \<Rightarrow> u32 \<Rightarrow> u8 \<Rightarrow> 's \<Rightarrow> (u8 \<times> 'u vfs_file_handle_t \<times> 's) option) option"
  vf_truncate :: "('u vfs_file_handle_t \<Rightarrow> u32 \<Rightarrow> 's \<Rightarrow> (u8 \<times> 'u vfs_file_handle_t \<times> 's) option) option"
  vf_create :: "(u8 list \<Rightarrow> 's \<Rightarrow> ('u vfs_file_handle_t option \<times> 's) option) option"
  vf_unlink :: "(u8 list \<Rightarrow> 's \<Rightarrow> (u8 \<times> 's) option) option"
  vf_size :: "('u vfs_file_handle_t \<Rightarrow> 's \<Rightarrow> u32 option) option"

text \<open>
  The modules of the configuration modelled here: the file system on an I2C EEPROM and the files
  in program memory.  Their parts of a handle are the two members of the union.
\<close>

record vfs_file_handle_eeprom_t =
  ee_file_page :: u16
  ee_offset :: u16

record vfs_file_handle_inline_t =
  il_offset :: u32
  il_pos :: u16
  il_len :: u16

datatype vfs_file_handle_u = U_ee vfs_file_handle_eeprom_t | U_il vfs_file_handle_inline_t

type_synonym handle = "vfs_file_handle_u vfs_file_handle_t"

definition VFS_EEPROM :: u8 where "VFS_EEPROM = 0"
definition VFS_INLINE :: u8 where "VFS_INLINE = 1"

text \<open>
  Handles live on the C heap.  \<open>fh_avail\<close> is the number of handles \<^verbatim>\<open>malloc\<close> can still provide; the
  modules add their own state to this record.
\<close>

record vfs_heap =
  fh_avail :: nat

definition malloc_fh :: "'u vfs_file_handle_t \<Rightarrow> 'a vfs_heap_scheme \<Rightarrow> 'u vfs_file_handle_t option \<times> 'a vfs_heap_scheme" where
  "malloc_fh fh st = (if fh_avail st = 0 then (None, st) else (Some fh, st\<lparr>fh_avail := fh_avail st - 1\<rparr>))"

definition free_fh :: "'a vfs_heap_scheme \<Rightarrow> 'a vfs_heap_scheme" where
  "free_fh st = st\<lparr>fh_avail := fh_avail st + 1\<rparr>"

definition SEEK_SET :: u8 where "SEEK_SET = 0"
definition SEEK_CUR :: u8 where "SEEK_CUR = 1"
definition SEEK_END :: u8 where "SEEK_END = 2"

lemmas seek_defs = SEEK_SET_def SEEK_CUR_def SEEK_END_def

subsection \<open>Dispatch\<close>

text \<open>The loop shared by \<^verbatim>\<open>vfs_open\<close> and \<^verbatim>\<open>vfs_create\<close>: the first module that gives a handle.\<close>

fun vfs_find ::
    "(u8 list \<Rightarrow> 's \<Rightarrow> ('u vfs_file_handle_t option \<times> 's) option) option list
       \<Rightarrow> u8 list \<Rightarrow> 's \<Rightarrow> ('u vfs_file_handle_t option \<times> 's) option" where
  "vfs_find [] filename st = Some (None, st)"
| "vfs_find (None # fs) filename st = vfs_find fs filename st"
| "vfs_find (Some f # fs) filename st =
     do {
       (fh, st) \<leftarrow> f filename st;
       if fh = None then vfs_find fs filename st else Some (fh, st)
     }"

definition vfs_open ::
    "('u, 's) vfs_func_t list \<Rightarrow> u8 list \<Rightarrow> 's \<Rightarrow> ('u vfs_file_handle_t option \<times> 's) option" where
  "vfs_open vfs_funcs filename st = vfs_find (map vf_open vfs_funcs) filename st"

definition vfs_create ::
    "('u, 's) vfs_func_t list \<Rightarrow> u8 list \<Rightarrow> 's \<Rightarrow> ('u vfs_file_handle_t option \<times> 's) option" where
  "vfs_create vfs_funcs filename st = vfs_find (map vf_create vfs_funcs) filename st"

definition vfs_func ::
    "('u, 's) vfs_func_t list \<Rightarrow> 'u vfs_file_handle_t \<Rightarrow> ('u, 's) vfs_func_t option" where
  "vfs_func vfs_funcs handle =
     (if unat (fh_type handle) < length vfs_funcs then Some (vfs_funcs ! unat (fh_type handle)) else None)"

text \<open>
  \<^verbatim>\<open>vfs_read_write_size\<close> with its flag 0, 1 and 2, and \<^verbatim>\<open>vfs_fseek_truncate_close\<close> with 0, 1 and 2;
  the macros \<^verbatim>\<open>vfs_read\<close>, \<^verbatim>\<open>vfs_write\<close>, \<^verbatim>\<open>vfs_size\<close>, \<^verbatim>\<open>vfs_fseek\<close>, \<^verbatim>\<open>vfs_truncate\<close> and
  \<^verbatim>\<open>vfs_close\<close> fix it.
\<close>

definition vfs_read ::
    "('u, 's) vfs_func_t list \<Rightarrow> 'u vfs_file_handle_t \<Rightarrow> u32 \<Rightarrow> 's
       \<Rightarrow> (u32 \<times> u8 list \<times> 'u vfs_file_handle_t \<times> 's) option" where
  "vfs_read vfs_funcs handle len st =
     do {
       funcs \<leftarrow> vfs_func vfs_funcs handle;
       case vf_read funcs of Some f \<Rightarrow> f handle len st | None \<Rightarrow> Some (0, [], handle, st)
     }"

definition vfs_write ::
    "('u, 's) vfs_func_t list \<Rightarrow> 'u vfs_file_handle_t \<Rightarrow> u8 list \<Rightarrow> 's
       \<Rightarrow> (u32 \<times> 'u vfs_file_handle_t \<times> 's) option" where
  "vfs_write vfs_funcs handle data st =
     do {
       funcs \<leftarrow> vfs_func vfs_funcs handle;
       case vf_write funcs of Some f \<Rightarrow> f handle data st | None \<Rightarrow> Some (0, handle, st)
     }"

definition vfs_size ::
    "('u, 's) vfs_func_t list \<Rightarrow> 'u vfs_file_handle_t \<Rightarrow> 's \<Rightarrow> u32 option" where
  "vfs_size vfs_funcs handle st =
     do {
       funcs \<leftarrow> vfs_func vfs_funcs handle;
       case vf_size funcs of Some f \<Rightarrow> f handle st | None \<Rightarrow> Some 0
     }"

definition vfs_fseek ::
    "('u, 's) vfs_func_t list \<Rightarrow> 'u vfs_file_handle_t \<Rightarrow> u32 \<Rightarrow> u8 \<Rightarrow> 's
       \<Rightarrow> (u8 \<times> 'u vfs_file_handle_t \<times> 's) option" where
  "vfs_fseek vfs_funcs handle off whence st =
     do {
       funcs \<leftarrow> vfs_func vfs_funcs handle;
       case vf_fseek funcs of Some f \<Rightarrow> f handle off whence st | None \<Rightarrow> Some (0, handle, st)
     }"

definition vfs_truncate ::
    "('u, 's) vfs_func_t list \<Rightarrow> 'u vfs_file_handle_t \<Rightarrow> u32 \<Rightarrow> 's
       \<Rightarrow> (u8 \<times> 'u vfs_file_handle_t \<times> 's) option" where
  "vfs_truncate vfs_funcs handle len st =
     do {
       funcs \<leftarrow> vfs_func vfs_funcs handle;
       case vf_truncate funcs of Some f \<Rightarrow> f handle len st | None \<Rightarrow> Some (0, handle, st)
     }"

definition vfs_close :: "('u, 's) vfs_func_t list \<Rightarrow> 'u vfs_file_handle_t \<Rightarrow> 's \<Rightarrow> 's option" where
  "vfs_close vfs_funcs handle st =
     do {
       funcs \<leftarrow> vfs_func vfs_funcs handle;
       case vf_close funcs of Some f \<Rightarrow> f handle st | None \<Rightarrow> Some st
     }"

fun vfs_unlink_loop ::
    "(u8 list \<Rightarrow> 's \<Rightarrow> (u8 \<times> 's) option) option list \<Rightarrow> u8 \<Rightarrow> u8 list \<Rightarrow> 's \<Rightarrow> (u8 \<times> 's) option" where
  "vfs_unlink_loop [] retval name st = Some (retval, st)"
| "vfs_unlink_loop (None # fs) retval name st =
     (if retval \<noteq> 0 then vfs_unlink_loop fs retval name st else Some (retval, st))"
| "vfs_unlink_loop (Some f # fs) retval name st =
     (if retval \<noteq> 0 then do { (retval, st) \<leftarrow> f name st; vfs_unlink_loop fs retval name st }
      else Some (retval, st))"

definition vfs_unlink :: "('u, 's) vfs_func_t list \<Rightarrow> u8 list \<Rightarrow> 's \<Rightarrow> (u8 \<times> 's) option" where
  "vfs_unlink vfs_funcs name st = vfs_unlink_loop (map vf_unlink vfs_funcs) 1 name st"

subsection \<open>Helpers on files\<close>

text \<open>
  \<open>bufsize\<close> is \<^verbatim>\<open>sizeof (uip_buf)\<close>.  The results of read and write are truncated to
  \<^verbatim>\<open>uint16_t\<close>; only the bytes read in the round at hand may be written, as the rest of the buffer
  is left from earlier uses.
\<close>

partial_function (option) copy_loop ::
    "('u, 's) vfs_func_t list \<Rightarrow> nat \<Rightarrow> 'u vfs_file_handle_t \<Rightarrow> 'u vfs_file_handle_t \<Rightarrow> 's
       \<Rightarrow> (u8 \<times> 'u vfs_file_handle_t \<times> 'u vfs_file_handle_t \<times> 's) option" where
  "copy_loop vfs_funcs bufsize d s st =
     do {
       (r, bytes, s, st) \<leftarrow> vfs_read vfs_funcs s (of_nat bufsize) st;
       let i = (ucast r :: u16);
       if i = 0 then Some (0, d, s, st)
       else if length bytes < unat i \<or> bufsize < length bytes then None
       else do {
         (w, d, st) \<leftarrow> vfs_write vfs_funcs d (take (unat i) bytes) st;
         if i \<noteq> ucast w then Some (1, d, s, st)
         else if unat i < bufsize then Some (0, d, s, st)
         else copy_loop vfs_funcs bufsize d s st
       }
     }"

declare copy_loop.simps [code]

definition vfs_copy_file ::
    "('u, 's) vfs_func_t list \<Rightarrow> nat \<Rightarrow> u8 list \<Rightarrow> u8 list \<Rightarrow> 's \<Rightarrow> (u8 \<times> 's) option" where
  "vfs_copy_file vfs_funcs bufsize dest src st =
     do {
       (d, st) \<leftarrow> vfs_create vfs_funcs dest st;
       case d of None \<Rightarrow> Some (1, st)
       | Some d \<Rightarrow> do {
           (s, st) \<leftarrow> vfs_open vfs_funcs src st;
           case s of None \<Rightarrow> do { st \<leftarrow> vfs_close vfs_funcs d st; Some (1, st) }
           | Some s \<Rightarrow> do {
               (ret, d, s, st) \<leftarrow> copy_loop vfs_funcs bufsize d s st;
               st \<leftarrow> vfs_close vfs_funcs s st;
               st \<leftarrow> vfs_close vfs_funcs d st;
               Some (ret, st)
             }
         }
     }"

definition vfs_open_or_creat ::
    "('u, 's) vfs_func_t list \<Rightarrow> u8 list \<Rightarrow> 's \<Rightarrow> ('u vfs_file_handle_t option \<times> 's) option" where
  "vfs_open_or_creat vfs_funcs filename st =
     do {
       (fd, st) \<leftarrow> vfs_open vfs_funcs filename st;
       if fd = None then vfs_create vfs_funcs filename st else Some (fd, st)
     }"

definition vfs_file_append ::
    "('u, 's) vfs_func_t list \<Rightarrow> u8 list \<Rightarrow> u8 list \<Rightarrow> 's \<Rightarrow> (u8 \<times> 's) option" where
  "vfs_file_append vfs_funcs filename buf st =
     do {
       (fd, st) \<leftarrow> vfs_open_or_creat vfs_funcs filename st;
       case fd of None \<Rightarrow> Some (0, st)
       | Some fd \<Rightarrow> do {
           (_, fd, st) \<leftarrow> vfs_fseek vfs_funcs fd 0 SEEK_END st;
           (_, fd, st) \<leftarrow> vfs_write vfs_funcs fd buf st;
           st \<leftarrow> vfs_close vfs_funcs fd st;
           Some (1, st)
         }
     }"

subsection \<open>The contract of a file store\<close>

text \<open>
  \<open>g\<close> is what a store knows about its files, \<open>dir g\<close> the map from names to contents it stands for.
  \<open>opened g h n p\<close>: the handle \<open>h\<close> is open on the file \<open>n\<close> at position \<open>p\<close>.  \<open>room g st n m\<close>: the
  file \<open>n\<close>, existing or not, can grow to \<open>m\<close> bytes.  \<open>avail\<close> counts the handles that can be had,
  \<open>valid\<close> are the names that can be created, and \<open>blk\<close> is the alignment reads rely on.
\<close>

locale vfs_store =
  fixes vfs_funcs :: "('u, 's) vfs_func_t list"
    and inv :: "'g \<Rightarrow> 's \<Rightarrow> bool"
    and dir :: "'g \<Rightarrow> u8 list \<Rightarrow> u8 list option"
    and opened :: "'g \<Rightarrow> 'u vfs_file_handle_t \<Rightarrow> u8 list \<Rightarrow> nat \<Rightarrow> bool"
    and room :: "'g \<Rightarrow> 's \<Rightarrow> u8 list \<Rightarrow> nat \<Rightarrow> bool"
    and avail :: "'s \<Rightarrow> nat"
    and valid :: "u8 list \<Rightarrow> bool"
    and blk :: nat
  assumes open_found: "inv g st \<Longrightarrow> dir g (cstr name) \<noteq> None \<Longrightarrow> 0 < avail st \<Longrightarrow>
      \<exists>h st'. vfs_open vfs_funcs name st = Some (Some h, st') \<and> inv g st' \<and> opened g h (cstr name) 0
        \<and> avail st' = avail st - 1 \<and> (\<forall>n m. room g st n m \<longrightarrow> room g st' n m)"
    and open_missing: "inv g st \<Longrightarrow> dir g (cstr name) = None \<Longrightarrow> valid name \<Longrightarrow>
      vfs_open vfs_funcs name st = Some (None, st)"
    and create_ok: "inv g st \<Longrightarrow> valid name \<Longrightarrow> 0 < avail st \<Longrightarrow> room g st (cstr name) m \<Longrightarrow>
      \<exists>g' h st'. vfs_create vfs_funcs name st = Some (Some h, st') \<and> inv g' st' \<and> dir g' = (dir g)(cstr name \<mapsto> [])
        \<and> opened g' h (cstr name) 0 \<and> room g' st' (cstr name) m \<and> avail st' = avail st - 1"
    and write_end: "inv g st \<Longrightarrow> opened g h n (length c) \<Longrightarrow> dir g n = Some c \<Longrightarrow> room g st n m \<Longrightarrow>
      length c + length data \<le> m \<Longrightarrow>
      \<exists>g' h' st'. vfs_write vfs_funcs h data st = Some (of_nat (length data), h', st') \<and> inv g' st'
        \<and> dir g' = (dir g)(n \<mapsto> c @ data) \<and> opened g' h' n (length c + length data) \<and> room g' st' n m
        \<and> avail st' = avail st \<and> (\<forall>h n p. opened g h n p \<longrightarrow> opened g' h n p)"
    and read_ok: "inv g st \<Longrightarrow> opened g h n p \<Longrightarrow> dir g n = Some c \<Longrightarrow> p \<le> length c \<Longrightarrow> blk dvd p \<Longrightarrow>
      r = take (unat k) (drop p c) \<Longrightarrow>
      \<exists>h'. vfs_read vfs_funcs h k st = Some (of_nat (length r), r, h', st) \<and> opened g h' n (p + length r)"
    and seek_end: "inv g st \<Longrightarrow> opened g h n p \<Longrightarrow> dir g n = Some c \<Longrightarrow>
      \<exists>h'. vfs_fseek vfs_funcs h 0 SEEK_END st = Some (0, h', st) \<and> opened g h' n (length c)"
    and close_ok: "inv g st \<Longrightarrow> opened g h n p \<Longrightarrow>
      \<exists>st'. vfs_close vfs_funcs h st = Some st' \<and> inv g st' \<and> avail st' = Suc (avail st)"
begin

lemma open_or_creat:
  assumes "inv g st" and "valid name" and "0 < avail st" and "room g st (cstr name) m"
  shows "\<exists>g' h st'. vfs_open_or_creat vfs_funcs name st = Some (Some h, st') \<and> inv g' st' \<and> opened g' h (cstr name) 0
     \<and> dir g' = (dir g)(cstr name \<mapsto> (case dir g (cstr name) of None \<Rightarrow> [] | Some c \<Rightarrow> c))
     \<and> room g' st' (cstr name) m \<and> avail st' = avail st - 1"
proof (cases "dir g (cstr name)")
  case None
  then show ?thesis
    using open_missing [OF assms(1) None assms(2)] create_ok [OF assms] by (auto simp: vfs_open_or_creat_def)
next
  case (Some c)
  then obtain h st' where "vfs_open vfs_funcs name st = Some (Some h, st')" "inv g st'" "opened g h (cstr name) 0"
      "avail st' = avail st - 1" "room g st' (cstr name) m"
    using open_found [OF assms(1) _ assms(3)] assms(4) by force
  then show ?thesis
    using Some by (intro exI [of _ g]) (auto simp: vfs_open_or_creat_def fun_upd_idem)
qed

text \<open>\<^verbatim>\<open>vfs_file_append\<close> appends to the file, which it creates first if need be, and closes it.\<close>

lemma file_append:
  assumes "inv g st" and "valid name" and "0 < avail st"
    and c: "c = (case dir g (cstr name) of None \<Rightarrow> [] | Some c \<Rightarrow> c)" and "room g st (cstr name) (length c + length data)"
  shows "\<exists>g' st'. vfs_file_append vfs_funcs name data st = Some (1, st') \<and> inv g' st'
     \<and> dir g' = (dir g)(cstr name \<mapsto> c @ data) \<and> avail st' = avail st"
proof -
  obtain g1 h st1 where 1: "vfs_open_or_creat vfs_funcs name st = Some (Some h, st1)" "inv g1 st1"
      "opened g1 h (cstr name) 0" "dir g1 = (dir g)(cstr name \<mapsto> c)" "room g1 st1 (cstr name) (length c + length data)"
      "avail st1 = avail st - 1"
    using open_or_creat [OF assms(1-3,5)] c by metis
  then have dir: "dir g1 (cstr name) = Some c" by simp
  obtain h2 where 2: "vfs_fseek vfs_funcs h 0 SEEK_END st1 = Some (0, h2, st1)" "opened g1 h2 (cstr name) (length c)"
    using seek_end [OF 1(2,3) dir] by metis
  obtain g3 h3 st3 where 3: "vfs_write vfs_funcs h2 data st1 = Some (of_nat (length data), h3, st3)" "inv g3 st3"
      "dir g3 = (dir g1)(cstr name \<mapsto> c @ data)" "opened g3 h3 (cstr name) (length c + length data)" "avail st3 = avail st1"
    using write_end [OF 1(2) 2(2) dir 1(5) order_refl] by metis
  obtain st4 where 4: "vfs_close vfs_funcs h3 st3 = Some st4" "inv g3 st4" "avail st4 = Suc (avail st3)"
    using close_ok [OF 3(2,4)] by metis
  have "vfs_file_append vfs_funcs name data st = Some (1, st4)"
    using 1(1) 2(1) 3(1) 4(1) by (simp add: vfs_file_append_def)
  then show ?thesis using 3(3) 4 1(4,6) 3(5) assms(3) by (intro exI [of _ g3] exI [of _ st4]) auto
qed

text \<open>The loop of \<^verbatim>\<open>vfs_copy_file\<close>, from position \<open>p\<close> on.\<close>

lemma copy_loop_ok:
  assumes "inv g st" and "opened g s src p" and "opened g d dest p" and "src \<noteq> dest" and "dir g src = Some c"
    and "dir g dest = Some (take p c)" and "p \<le> length c" and "room g st dest (length c)"
    and "blk dvd p" and "blk dvd bufsize" and "0 < bufsize" and "bufsize < 2 ^ 16"
  shows "\<exists>g' d' s' st'. copy_loop vfs_funcs bufsize d s st = Some (0, d', s', st') \<and> inv g' st'
     \<and> dir g' = (dir g)(dest \<mapsto> c) \<and> (\<exists>q. opened g' s' src q) \<and> (\<exists>q. opened g' d' dest q) \<and> avail st' = avail st"
  using assms
proof (induction "length c - p" arbitrary: g st s d p rule: less_induct)
  case less
  define r where "r = take bufsize (drop p c)"
  have k: "unat (of_nat bufsize :: u32) = bufsize" using less.prems(12) by (simp add: unat_of_nat)
  obtain s2 where s2: "vfs_read vfs_funcs s (of_nat bufsize) st = Some (of_nat (length r), r, s2, st)" "opened g s2 src (p + length r)"
    using read_ok [OF less.prems(1,2,5,7,9), of r "of_nat bufsize"] k by (auto simp: r_def)
  have lr: "length r \<le> bufsize" "length r < 2 ^ 16" "p + length r \<le> length c"
    using less.prems(7,12) by (auto simp: r_def)
  then have ur: "ucast (of_nat (length r) :: u32) = (of_nat (length r) :: u16)" "unat (of_nat (length r) :: u16) = length r"
    by (simp_all add: word_unat_eq_iff unat_of_nat unsigned_ucast_eq take_bit_nat_eq_self)
  show ?case
  proof (cases "r = []")
    case True
    then have "take p c = c" using less.prems(7,11) by (simp add: r_def)
    moreover have "copy_loop vfs_funcs bufsize d s st = Some (0, d, s2, st)"
      using s2(1) True by (subst copy_loop.simps) simp
    ultimately show ?thesis
      using less.prems(1,3,6) s2(2) by (intro exI [of _ g]) (auto simp: fun_upd_idem)
  next
    case False
    have nz: "(of_nat (length r) :: u16) \<noteq> 0" using False ur(2) by (metis length_0_conv unat_0)
    have len: "length (take p c) = p" using less.prems(7) by simp
    have app: "take p c @ r = take (p + length r) c"
      unfolding r_def by (metis length_take min.commute take_add take_take take_all_iff nle_le)
    obtain g3 d3 st3 where 3: "vfs_write vfs_funcs d r st = Some (of_nat (length r), d3, st3)" "inv g3 st3"
        "dir g3 = (dir g)(dest \<mapsto> take (p + length r) c)" "opened g3 d3 dest (p + length r)" "room g3 st3 dest (length c)"
        "avail st3 = avail st" "\<forall>h n p. opened g h n p \<longrightarrow> opened g3 h n p"
      using write_end [OF less.prems(1) _ less.prems(6,8), of d r] less.prems(3) lr(3) len app by auto
    have step: "copy_loop vfs_funcs bufsize d s st =
        (if length r < bufsize then Some (0, d3, s2, st3) else copy_loop vfs_funcs bufsize d3 s2 st3)"
      using s2(1) 3(1) nz ur lr(1) by (subst copy_loop.simps) simp
    have op: "opened g3 s2 src (p + length r)" using 3(7) s2(2) by blast
    show ?thesis
    proof (cases "length r < bufsize")
      case True
      then have "take (p + length r) c = c" using less.prems(7) by (auto simp: r_def)
      then show ?thesis using step True 3(2-4,6) op by (intro exI [of _ g3]) auto
    next
      case full: False
      then have "p + length r = p + bufsize" using lr(1) by simp
      then have "blk dvd p + length r" using less.prems(9,10) by simp
      moreover have "length c - (p + length r) < length c - p" using False lr(3) by (cases r) auto
      ultimately have "\<exists>g' d' s' st'. copy_loop vfs_funcs bufsize d3 s2 st3 = Some (0, d', s', st') \<and> inv g' st'
          \<and> dir g' = (dir g3)(dest \<mapsto> c) \<and> (\<exists>q. opened g' s' src q) \<and> (\<exists>q. opened g' d' dest q) \<and> avail st' = avail st3"
        using 3(2-5) op less.prems(4,5,10-12) lr(3) by (intro less.hyps) auto
      then show ?thesis using step full 3(3,6) by auto
    qed
  qed
qed

text \<open>
  \<^verbatim>\<open>vfs_copy_file\<close> makes \<open>dest\<close> a copy of \<open>src\<close> and closes both files, provided the buffer is a
  multiple of the store's block size.
\<close>

lemma copy_file:
  assumes "inv g st" and "valid dest" and "2 \<le> avail st" and "cstr src \<noteq> cstr dest" and src: "dir g (cstr src) = Some c"
    and "room g st (cstr dest) (length c)" and "blk dvd bufsize" and "0 < bufsize" and "bufsize < 2 ^ 16"
  shows "\<exists>g' st'. vfs_copy_file vfs_funcs bufsize dest src st = Some (0, st') \<and> inv g' st'
     \<and> dir g' = (dir g)(cstr dest \<mapsto> c) \<and> avail st' = avail st"
proof -
  obtain g1 d st1 where 1: "vfs_create vfs_funcs dest st = Some (Some d, st1)" "inv g1 st1"
      "dir g1 = (dir g)(cstr dest \<mapsto> [])" "opened g1 d (cstr dest) 0" "room g1 st1 (cstr dest) (length c)" "avail st1 = avail st - 1"
    using create_ok [OF assms(1,2) _ assms(6)] assms(3) by auto
  have src1: "dir g1 (cstr src) = Some c" using 1(3) src assms(4) by simp
  have "0 < avail st1" using 1(6) assms(3) by simp
  then obtain s st2 where 2: "vfs_open vfs_funcs src st1 = Some (Some s, st2)" "inv g1 st2" "opened g1 s (cstr src) 0"
      "avail st2 = avail st1 - 1" "room g1 st2 (cstr dest) (length c)"
    using open_found [OF 1(2), of src] src1 1(5) by force
  have "\<exists>g' d' s' st'. copy_loop vfs_funcs bufsize d s st2 = Some (0, d', s', st') \<and> inv g' st'
     \<and> dir g' = (dir g1)(cstr dest \<mapsto> c) \<and> (\<exists>q. opened g' s' (cstr src) q) \<and> (\<exists>q. opened g' d' (cstr dest) q)
     \<and> avail st' = avail st2"
    using 1(3,4) 2 src1 assms(4,7-9) by (intro copy_loop_ok [where p = 0]) auto
  then obtain g3 d3 s3 st3 p q where 3: "copy_loop vfs_funcs bufsize d s st2 = Some (0, d3, s3, st3)" "inv g3 st3"
      "dir g3 = (dir g1)(cstr dest \<mapsto> c)" "opened g3 s3 (cstr src) p" "opened g3 d3 (cstr dest) q" "avail st3 = avail st2"
    by blast
  obtain st4 where 4: "vfs_close vfs_funcs s3 st3 = Some st4" "inv g3 st4" "avail st4 = Suc (avail st3)"
    using close_ok [OF 3(2,4)] by metis
  obtain st5 where 5: "vfs_close vfs_funcs d3 st4 = Some st5" "inv g3 st5" "avail st5 = Suc (avail st4)"
    using close_ok [OF 4(2) 3(5)] by metis
  have "vfs_copy_file vfs_funcs bufsize dest src st = Some (0, st5)"
    using 1(1) 2(1) 3(1) 4(1) 5(1) by (simp add: vfs_copy_file_def)
  then show ?thesis
    using 1(3,6) 2(4) 3(3,6) 4(3) 5(2,3) assms(3) by (intro exI [of _ g3] exI [of _ st5]) auto
qed

text \<open>If \<open>src\<close> does not exist the result is 1, but \<open>dest\<close> has been created or emptied already.\<close>

lemma copy_missing:
  assumes "inv g st" and "valid dest" and "valid src" and "0 < avail st" and "cstr src \<noteq> cstr dest"
    and "dir g (cstr src) = None" and "room g st (cstr dest) 0"
  shows "\<exists>g' st'. vfs_copy_file vfs_funcs bufsize dest src st = Some (1, st') \<and> inv g' st'
     \<and> dir g' = (dir g)(cstr dest \<mapsto> []) \<and> avail st' = avail st"
proof -
  obtain g1 d st1 where 1: "vfs_create vfs_funcs dest st = Some (Some d, st1)" "inv g1 st1"
      "dir g1 = (dir g)(cstr dest \<mapsto> [])" "opened g1 d (cstr dest) 0" "avail st1 = avail st - 1"
    using create_ok [OF assms(1,2,4,7)] by auto
  have "vfs_open vfs_funcs src st1 = Some (None, st1)"
    using 1(3) assms(5,6) by (intro open_missing [OF 1(2) _ assms(3)]) simp
  moreover obtain st2 where "vfs_close vfs_funcs d st1 = Some st2" "inv g1 st2" "avail st2 = Suc (avail st1)"
    using close_ok [OF 1(2,4)] by metis
  ultimately show ?thesis
    using 1 assms(4) by (intro exI [of _ g1] exI [of _ st2]) (simp add: vfs_copy_file_def)
qed

end

end
