(* ===== verification/E6_VfsEeprom.thy ===== *)
theory E6_VfsEeprom
  imports E6_Vfs
begin

text \<open>
  The file system on an I2C EEPROM, \<^verbatim>\<open>hardware/i2c/master/vfs_eeprom.c\<close>, with the block writes of
  \<^verbatim>\<open>hardware/i2c/master/i2c_24CXX.c\<close> it rests on.  The chip is its memory; a read or write beyond
  the last byte continues at address 0, and a burst of writes stays within one page of the chip
  (both as documented for the 24Cxx).  \<open>e_acks\<close> tells whether the chip answers on the bus.  If it
  does not, a transfer leaves the buffer as it was; the functions that go on regardless then work
  on the indeterminate contents of their buffer, which is \<open>None\<close> here.

  The device is an array of pages of \<^verbatim>\<open>SFS_PAGE_SIZE\<close> bytes.  Page 0 is the superblock, the files
  are linked from there by \<^verbatim>\<open>next_file\<close>, and the data pages of a file by \<^verbatim>\<open>next_page\<close>.
\<close>

subsection \<open>The chip and its driver\<close>

record sfs_conf =
  SFS_PAGE_SIZE :: nat
  SFS_PAGE_COUNT :: nat
  CONF_I2C_24CXX_PAGESIZE :: nat

record sfs_state = vfs_heap +
  e_mem :: "u8 list"
  e_acks :: bool

definition i2c_24CXX_read_block :: "u16 \<Rightarrow> nat \<Rightarrow> sfs_state \<Rightarrow> u8 list option" where
  "i2c_24CXX_read_block addr len st =
     (if e_acks st
      then Some (map (\<lambda>i. e_mem st ! ((unat addr + i) mod length (e_mem st))) [0..<max 1 len])
      else None)"

text \<open>One burst: the low bits of the address count within a page of \<open>psize\<close> bytes.\<close>

definition i2c_24CXX_write_block_int :: "nat \<Rightarrow> u16 \<Rightarrow> u8 list \<Rightarrow> sfs_state \<Rightarrow> sfs_state" where
  "i2c_24CXX_write_block_int psize addr data st =
     (if e_acks st
      then st\<lparr>e_mem := foldl (\<lambda>m (i, x).
                 m[(unat addr div psize * psize + (unat addr + i) mod psize) mod length m := x])
               (e_mem st) (enumerate 0 data)\<rparr>
      else st)"

function i2c_24CXX_write_block :: "nat \<Rightarrow> u16 \<Rightarrow> u8 list \<Rightarrow> sfs_state \<Rightarrow> sfs_state" where
  "i2c_24CXX_write_block psize addr data st =
     (let templen = (if psize - unat addr mod psize < length data
                     then psize - unat addr mod psize else length data);
          st = i2c_24CXX_write_block_int psize addr (take templen data) st
      in if 0 < templen \<and> templen < length data \<and> e_acks st
         then i2c_24CXX_write_block psize (addr + of_nat templen) (drop templen data) st
         else st)"
  by auto
termination
  by (relation "measure (\<lambda>(p, a, d, s). length d)") auto

declare i2c_24CXX_write_block.simps [simp del]

subsection \<open>Pages\<close>

definition vfs_eeprom_addr :: "sfs_conf \<Rightarrow> u16 \<Rightarrow> nat \<Rightarrow> u16" where
  "vfs_eeprom_addr cf page off = page * of_nat (SFS_PAGE_SIZE cf) + of_nat off"

definition vfs_eeprom_read_page :: "sfs_conf \<Rightarrow> u16 \<Rightarrow> nat \<Rightarrow> sfs_state \<Rightarrow> u8 list option" where
  "vfs_eeprom_read_page cf page len st = i2c_24CXX_read_block (vfs_eeprom_addr cf page 0) len st"

definition vfs_eeprom_write_slice :: "sfs_conf \<Rightarrow> u16 \<Rightarrow> nat \<Rightarrow> u8 list \<Rightarrow> sfs_state \<Rightarrow> sfs_state" where
  "vfs_eeprom_write_slice cf page off data st =
     i2c_24CXX_write_block (CONF_I2C_24CXX_PAGESIZE cf) (vfs_eeprom_addr cf page off) data st"

abbreviation vfs_eeprom_write_page :: "sfs_conf \<Rightarrow> u16 \<Rightarrow> u8 list \<Rightarrow> sfs_state \<Rightarrow> sfs_state" where
  "vfs_eeprom_write_page cf page data st \<equiv> vfs_eeprom_write_slice cf page 0 data st"

definition SFS_MAGIC_SUPERBLOCK :: u8 where "SFS_MAGIC_SUPERBLOCK = 0x05"
definition SFS_MAGIC_FILE :: u8 where "SFS_MAGIC_FILE = 0x23"
definition SFS_MAGIC_DATA :: u8 where "SFS_MAGIC_DATA = 0x42"
definition SFS_VERSION :: u8 where "SFS_VERSION = 0"

lemmas sfs_magic_defs = SFS_MAGIC_SUPERBLOCK_def SFS_MAGIC_FILE_def SFS_MAGIC_DATA_def

text \<open>
  The fields of the three packed structs in a page that has been read: \<^verbatim>\<open>uint16_t\<close> is stored low
  byte first.
\<close>

definition le16 :: "u16 \<Rightarrow> u8 list" where
  "le16 w = [ucast w, ucast (drop_bit 8 w)]"

definition get16 :: "u8 list \<Rightarrow> nat \<Rightarrow> u16" where
  "get16 buf i = ucast (buf ! i) OR push_bit 8 (ucast (buf ! (i + 1)))"

definition pg_magic :: "u8 list \<Rightarrow> u8" where "pg_magic buf = buf ! 0"
definition pg_next_page :: "u8 list \<Rightarrow> u16" where "pg_next_page buf = get16 buf 1"
definition pg_next_file :: "u8 list \<Rightarrow> u16" where "pg_next_file buf = get16 buf 3"
definition pg_filename :: "u8 list \<Rightarrow> u8 list" where "pg_filename buf = cstr (drop 5 buf)"
definition pg_page_len :: "u8 list \<Rightarrow> u8" where "pg_page_len buf = buf ! 3"
definition pg_data :: "u8 list \<Rightarrow> u8 list" where "pg_data buf = drop 4 buf"

text \<open>The size of the member \<^verbatim>\<open>data\<close> of a data page.\<close>

definition data_size :: "sfs_conf \<Rightarrow> nat" where
  "data_size cf = SFS_PAGE_SIZE cf - 4"

subsection \<open>Formatting\<close>

definition superblock_bytes :: "u16 \<Rightarrow> u16 \<Rightarrow> u8 list" where
  "superblock_bytes next_page next_file =
     [SFS_MAGIC_SUPERBLOCK] @ le16 next_page @ le16 next_file @ le16 0xdead @ le16 0xbeef @ [SFS_VERSION]"

definition clear_pages :: "sfs_conf \<Rightarrow> sfs_state \<Rightarrow> sfs_state" where
  "clear_pages cf st =
     foldl (\<lambda>st count. vfs_eeprom_write_page cf (of_nat count) [0] st) st [1..<SFS_PAGE_COUNT cf]"

definition vfs_eeprom_init :: "sfs_conf \<Rightarrow> sfs_state \<Rightarrow> sfs_state option" where
  "vfs_eeprom_init cf st =
     do {
       sb \<leftarrow> vfs_eeprom_read_page cf 0 10 st;
       if pg_magic sb \<noteq> SFS_MAGIC_SUPERBLOCK \<or> get16 sb 5 \<noteq> 0xdead \<or> get16 sb 7 \<noteq> 0xbeef
          \<or> sb ! 9 \<noteq> SFS_VERSION
       then Some (clear_pages cf (vfs_eeprom_write_page cf 0 (superblock_bytes 0 0) st))
       else Some st
     }"

subsection \<open>Searching\<close>

partial_function (option) find_free_loop :: "sfs_conf \<Rightarrow> u16 \<Rightarrow> u16 \<Rightarrow> sfs_state \<Rightarrow> u16 option" where
  "find_free_loop cf suggested tmp st =
     (case vfs_eeprom_read_page cf tmp 1 st of
        None \<Rightarrow> Some 0
      | Some buf \<Rightarrow>
          if pg_magic buf \<noteq> SFS_MAGIC_SUPERBLOCK \<and> pg_magic buf \<noteq> SFS_MAGIC_FILE
             \<and> pg_magic buf \<noteq> SFS_MAGIC_DATA
          then Some tmp
          else
            let tmp = (if unat (tmp + 1) \<ge> SFS_PAGE_COUNT cf then 0 else tmp + 1) in
            if tmp = suggested then Some 0 else find_free_loop cf suggested tmp st)"

definition vfs_eeprom_find_free_page :: "sfs_conf \<Rightarrow> u16 \<Rightarrow> sfs_state \<Rightarrow> u16 option" where
  "vfs_eeprom_find_free_page cf suggested st = find_free_loop cf suggested suggested st"

text \<open>
  The result is the inode and the inode before it in the list (the out parameter).  The
  argument \<^verbatim>\<open>filename\<close> may be null: then the last file is searched.
\<close>

partial_function (option) find_file_loop ::
    "sfs_conf \<Rightarrow> u8 list option \<Rightarrow> u16 \<Rightarrow> u16 \<Rightarrow> sfs_state \<Rightarrow> (u16 \<times> u16) option" where
  "find_file_loop cf filename prev_inode inode st =
     (if inode = 0 then Some (0, prev_inode)
      else do {
        buf \<leftarrow> vfs_eeprom_read_page cf inode (SFS_PAGE_SIZE cf) st;
        if pg_magic buf \<noteq> SFS_MAGIC_FILE then Some (0, prev_inode)
        else if filename \<noteq> None \<and> pg_filename buf = cstr (the filename) then Some (inode, prev_inode)
        else if filename = None \<and> pg_next_file buf = 0 then Some (inode, prev_inode)
        else find_file_loop cf filename inode (pg_next_file buf) st
      })"

definition vfs_eeprom_find_file :: "sfs_conf \<Rightarrow> u8 list option \<Rightarrow> sfs_state \<Rightarrow> (u16 \<times> u16) option" where
  "vfs_eeprom_find_file cf filename st =
     (case vfs_eeprom_read_page cf 0 10 st of
        None \<Rightarrow> Some (0, 0)
      | Some sb \<Rightarrow> find_file_loop cf filename 0 (pg_next_file sb) st)"

subsection \<open>Creating and opening\<close>

definition ee_handle :: "u16 \<Rightarrow> u16 \<Rightarrow> handle" where
  "ee_handle inode off = \<lparr>fh_type = VFS_EEPROM, fh_u = U_ee \<lparr>ee_file_page = inode, ee_offset = off\<rparr>\<rparr>"

partial_function (option) free_chain :: "sfs_conf \<Rightarrow> u16 \<Rightarrow> sfs_state \<Rightarrow> sfs_state option" where
  "free_chain cf next_page st =
     (if next_page = 0 then Some st
      else do {
        buf \<leftarrow> vfs_eeprom_read_page cf next_page 4 st;
        free_chain cf (pg_next_page buf) (vfs_eeprom_write_page cf next_page [0, 0, 0, 0] st)
      })"

definition file_page_bytes :: "sfs_conf \<Rightarrow> u16 \<Rightarrow> u8 list \<Rightarrow> u8 list" where
  "file_page_bytes cf next_file filename =
     [SFS_MAGIC_FILE] @ le16 0 @ le16 next_file @ strncpy filename (SFS_PAGE_SIZE cf - 6) @ [0]"

definition vfs_eeprom_create :: "sfs_conf \<Rightarrow> u8 list \<Rightarrow> sfs_state \<Rightarrow> (handle option \<times> sfs_state) option" where
  "vfs_eeprom_create cf filename st =
     do {
       (inode, _) \<leftarrow> vfs_eeprom_find_file cf (Some filename) st;
       (inode, next_file, st) \<leftarrow>
         (if inode = 0 then
            do {
              inode \<leftarrow> vfs_eeprom_find_free_page cf inode st;
              if inode = 0 then Some (0, 0, st)
              else do {
                (last_file, _) \<leftarrow> vfs_eeprom_find_file cf None st;
                Some (inode, 0, vfs_eeprom_write_slice cf last_file 3 (le16 inode) st)
              }
            }
          else
            do {
              buf \<leftarrow> vfs_eeprom_read_page cf inode (SFS_PAGE_SIZE cf) st;
              st \<leftarrow> free_chain cf (pg_next_page buf) st;
              Some (inode, pg_next_file buf, st)
            });
       if inode = 0 then Some (None, st)
       else Some (malloc_fh (ee_handle inode 0)
                   (vfs_eeprom_write_page cf inode (file_page_bytes cf next_file filename) st))
     }"

definition vfs_eeprom_open :: "sfs_conf \<Rightarrow> u8 list \<Rightarrow> sfs_state \<Rightarrow> (handle option \<times> sfs_state) option" where
  "vfs_eeprom_open cf filename st =
     do {
       (inode, _) \<leftarrow> vfs_eeprom_find_file cf (Some filename) st;
       if inode = 0 then Some (None, st) else Some (malloc_fh (ee_handle inode 0) st)
     }"

definition vfs_eeprom_close :: "handle \<Rightarrow> sfs_state \<Rightarrow> sfs_state option" where
  "vfs_eeprom_close fh st = Some (free_fh st)"

subsection \<open>Size and position\<close>

partial_function (option) filesize_loop :: "sfs_conf \<Rightarrow> u16 \<Rightarrow> u32 \<Rightarrow> sfs_state \<Rightarrow> u32 option" where
  "filesize_loop cf next_page sz st =
     (if next_page = 0 then Some sz
      else do {
        buf \<leftarrow> vfs_eeprom_read_page cf next_page 4 st;
        let sz = sz + ucast (pg_page_len buf);
        if unat (pg_page_len buf) < data_size cf then Some sz
        else filesize_loop cf (pg_next_page buf) sz st
      })"

fun ee_of :: "vfs_file_handle_u \<Rightarrow> vfs_file_handle_eeprom_t option" where
  "ee_of (U_ee e) = Some e"
| "ee_of (U_il e) = None"

definition vfs_eeprom_filesize :: "sfs_conf \<Rightarrow> handle \<Rightarrow> sfs_state \<Rightarrow> u32 option" where
  "vfs_eeprom_filesize cf fh st =
     do {
       e \<leftarrow> ee_of (fh_u fh);
       buf \<leftarrow> vfs_eeprom_read_page cf (ee_file_page e) (SFS_PAGE_SIZE cf) st;
       filesize_loop cf (pg_next_page buf) 0 st
     }"

text \<open>The new position is computed in 32 bits and stored in a \<^verbatim>\<open>uint16_t\<close> before it is compared.\<close>

definition vfs_eeprom_fseek ::
    "sfs_conf \<Rightarrow> handle \<Rightarrow> u32 \<Rightarrow> u8 \<Rightarrow> sfs_state \<Rightarrow> (u8 \<times> handle \<times> sfs_state) option" where
  "vfs_eeprom_fseek cf fh off whence st =
     do {
       e \<leftarrow> ee_of (fh_u fh);
       new_pos \<leftarrow>
         (if whence = SEEK_SET then Some (Some (ucast off :: u16))
          else if whence = SEEK_CUR then Some (Some (ucast (ucast (ee_offset e) + off)))
          else if whence = SEEK_END then
            do { n \<leftarrow> vfs_eeprom_filesize cf fh st; Some (Some (ucast (n + off))) }
          else Some None);
       case new_pos of None \<Rightarrow> Some (-1, fh, st)
       | Some p \<Rightarrow> do {
           n \<leftarrow> vfs_eeprom_filesize cf fh st;
           if ucast p > n then Some (-1, fh, st)
           else Some (0, ee_handle (ee_file_page e) p, st)
         }
     }"

subsection \<open>Reading\<close>

fun skip_pages :: "sfs_conf \<Rightarrow> nat \<Rightarrow> u16 \<Rightarrow> sfs_state \<Rightarrow> u16 option" where
  "skip_pages cf 0 next_page st = Some next_page"
| "skip_pages cf (Suc pages_skip) next_page st =
     do {
       buf \<leftarrow> vfs_eeprom_read_page cf next_page 4 st;
       skip_pages cf pages_skip (pg_next_page buf) st
     }"

text \<open>
  \<open>out\<close> are the bytes copied to the caller's buffer so far, \<^verbatim>\<open>count\<close> in number.  The comparisons
  are those of C's \<^verbatim>\<open>int\<close>; the assignments to \<^verbatim>\<open>to_be_copied\<close> and \<^verbatim>\<open>page_offset\<close> truncate to
  8 bits.  A page that claims fewer bytes than the offset into it gives a huge length to
  \<^verbatim>\<open>memcpy\<close>, which reads past the page buffer.
\<close>

partial_function (option) read_loop ::
    "sfs_conf \<Rightarrow> nat \<Rightarrow> u16 \<Rightarrow> u16 \<Rightarrow> u8 list \<Rightarrow> sfs_state \<Rightarrow> (u32 \<times> u8 list \<times> u16) option" where
  "read_loop cf n next_page off out st =
     (if length out < n then
        do {
          buf \<leftarrow> vfs_eeprom_read_page cf next_page (SFS_PAGE_SIZE cf) st;
          if pg_magic buf \<noteq> SFS_MAGIC_DATA then Some (0, out, off)
          else
            let page_offset = unat off mod data_size cf;
                to_be_copied = min (n - length out) (data_size cf);
                eof = (page_offset + to_be_copied > unat (pg_page_len buf) \<and> page_offset = 0);
                copied = (if page_offset + to_be_copied > unat (pg_page_len buf)
                          then unat (pg_page_len buf - of_nat page_offset) else to_be_copied)
            in if page_offset + copied > data_size cf then None
               else
                 let out = out @ take copied (drop page_offset (pg_data buf));
                     off = off + of_nat copied
                 in if eof then Some (of_nat (length out), out, off)
                    else read_loop cf n (pg_next_page buf) off out st
        }
      else Some (of_nat (length out), out, off))"

definition vfs_eeprom_read ::
    "sfs_conf \<Rightarrow> handle \<Rightarrow> u32 \<Rightarrow> sfs_state \<Rightarrow> (u32 \<times> u8 list \<times> handle \<times> sfs_state) option" where
  "vfs_eeprom_read cf fh n st =
     do {
       e \<leftarrow> ee_of (fh_u fh);
       buf \<leftarrow> vfs_eeprom_read_page cf (ee_file_page e) (SFS_PAGE_SIZE cf) st;
       next_page \<leftarrow> skip_pages cf (unat (ee_offset e) div data_size cf) (pg_next_page buf) st;
       (r, out, off) \<leftarrow> read_loop cf (unat n) next_page (ee_offset e) [] st;
       Some (r, out, ee_handle (ee_file_page e) off, st)
     }"

subsection \<open>Writing\<close>

text \<open>The first loop: the number of pages, the last page and the page to start at.\<close>

partial_function (option) pages_loop ::
    "sfs_conf \<Rightarrow> u16 \<Rightarrow> u16 \<Rightarrow> u16 \<Rightarrow> u16 \<Rightarrow> u16 \<Rightarrow> sfs_state \<Rightarrow> (u16 \<times> u16 \<times> u16) option" where
  "pages_loop cf next_page pages_allocated last_page write_page pages_skip st =
     (if next_page = 0 then Some (pages_allocated, last_page, write_page)
      else do {
        buf \<leftarrow> vfs_eeprom_read_page cf next_page 4 st;
        let wp = (if write_page = 0 \<and> (pages_skip = 0 \<or> unat (pg_page_len buf) < data_size cf)
                  then next_page else write_page);
        let skip = (if write_page = 0 \<and> pages_skip \<noteq> 0 then pages_skip - 1 else pages_skip);
        pages_loop cf (pg_next_page buf) (pages_allocated + 1) next_page wp skip st
      })"

text \<open>The second loop appends empty pages; \<open>None\<close> in the result: no space left on the device.\<close>

fun alloc_pages ::
    "sfs_conf \<Rightarrow> nat \<Rightarrow> u16 \<Rightarrow> u16 \<Rightarrow> sfs_state \<Rightarrow> (u16 option \<times> sfs_state) option" where
  "alloc_pages cf 0 last_page write_page st = Some (Some write_page, st)"
| "alloc_pages cf (Suc pages_needed) last_page write_page st =
     do {
       new_node \<leftarrow> vfs_eeprom_find_free_page cf (last_page + 1) st;
       if new_node = 0 then Some (None, st)
       else
         let st = vfs_eeprom_write_page cf new_node ([SFS_MAGIC_DATA] @ le16 0 @ [0]) st;
             st = vfs_eeprom_write_slice cf last_page 1 (le16 new_node) st
         in alloc_pages cf pages_needed new_node (if write_page = 0 then new_node else write_page) st
     }"

text \<open>The third loop fills the pages; \<open>next_pg\<close> is the field \<^verbatim>\<open>next_page\<close> of the page in the buffer.\<close>

function write_loop ::
    "sfs_conf \<Rightarrow> u16 \<Rightarrow> u16 \<Rightarrow> nat \<Rightarrow> u8 list \<Rightarrow> sfs_state \<Rightarrow> sfs_state option" where
  "write_loop cf write_page next_pg write_offset data st =
     (if data = [] then Some st
      else
        let copy_len = (if length data + write_offset > data_size cf
                        then data_size cf - write_offset else length data);
            st = vfs_eeprom_write_slice cf write_page (4 + write_offset) (take copy_len data) st;
            st = vfs_eeprom_write_slice cf write_page 3 [of_nat (write_offset + copy_len)] st
        in if copy_len = 0 then None
           else do {
             buf \<leftarrow> vfs_eeprom_read_page cf next_pg (SFS_PAGE_SIZE cf) st;
             write_loop cf next_pg (pg_next_page buf) 0 (drop copy_len data) st
           })"
  by auto
termination
  by (relation "measure (\<lambda>(cf, wp, np, wo, d, s). length d)") (auto split: if_splits)

declare write_loop.simps [simp del]

definition vfs_eeprom_write ::
    "sfs_conf \<Rightarrow> handle \<Rightarrow> u8 list \<Rightarrow> sfs_state \<Rightarrow> (u32 \<times> handle \<times> sfs_state) option" where
  "vfs_eeprom_write cf fh data st =
     do {
       e \<leftarrow> ee_of (fh_u fh);
       buf \<leftarrow> vfs_eeprom_read_page cf (ee_file_page e) (SFS_PAGE_SIZE cf) st;
       (pages_allocated, last_page, write_page) \<leftarrow>
         pages_loop cf (pg_next_page buf) 0 (ee_file_page e) 0
           (of_nat (unat (ee_offset e) div data_size cf)) st;
       let write_page = (if last_page = ee_file_page e then 0 else write_page);
       let pages_needed = (of_nat ((unat (ee_offset e) + length data) div data_size cf + 1) :: u16);
       (wp, st) \<leftarrow> alloc_pages cf (if pages_needed > pages_allocated then unat (pages_needed - pages_allocated) else 0)
                    last_page write_page st;
       case wp of None \<Rightarrow> Some (0, fh, st)
       | Some write_page \<Rightarrow> do {
           buf \<leftarrow> vfs_eeprom_read_page cf write_page (SFS_PAGE_SIZE cf) st;
           st \<leftarrow> write_loop cf write_page (pg_next_page buf) (unat (ee_offset e) mod data_size cf) data st;
           Some (of_nat (length data),
                 ee_handle (ee_file_page e) (ee_offset e + of_nat (length data)), st)
         }
     }"

subsection \<open>Unlinking\<close>

text \<open>
  The last loop follows the data pages, but clears the page \<^verbatim>\<open>inode\<close> again and again.
\<close>

partial_function (option) unlink_loop :: "sfs_conf \<Rightarrow> u16 \<Rightarrow> u16 \<Rightarrow> sfs_state \<Rightarrow> sfs_state option" where
  "unlink_loop cf inode next_page st =
     (if next_page = 0 then Some st
      else do {
        buf \<leftarrow> vfs_eeprom_read_page cf next_page 4 st;
        unlink_loop cf inode (pg_next_page buf)
          (vfs_eeprom_write_page cf inode (replicate (SFS_PAGE_SIZE cf) 0) st)
      })"

definition vfs_eeprom_unlink :: "sfs_conf \<Rightarrow> u8 list \<Rightarrow> sfs_state \<Rightarrow> (u8 \<times> sfs_state) option" where
  "vfs_eeprom_unlink cf filename st =
     do {
       (inode, prev_inode) \<leftarrow> vfs_eeprom_find_file cf (Some filename) st;
       if inode = 0 then Some (1, st)
       else do {
         buf \<leftarrow> vfs_eeprom_read_page cf inode (SFS_PAGE_SIZE cf) st;
         prev \<leftarrow> vfs_eeprom_read_page cf prev_inode (SFS_PAGE_SIZE cf) st;
         st \<leftarrow> Some (vfs_eeprom_write_page cf prev_inode
                      (take 3 prev @ le16 (pg_next_file buf) @ drop 5 prev) st);
         st \<leftarrow> unlink_loop cf inode (pg_next_page buf)
                (vfs_eeprom_write_page cf inode (replicate (SFS_PAGE_SIZE cf) 0) st);
         Some (0, st)
       }
     }"

declare find_free_loop.simps [code] find_file_loop.simps [code] free_chain.simps [code]
  filesize_loop.simps [code] read_loop.simps [code] pages_loop.simps [code] unlink_loop.simps [code]

definition VFS_EEPROM_FUNCS :: "sfs_conf \<Rightarrow> (vfs_file_handle_u, sfs_state) vfs_func_t" where
  "VFS_EEPROM_FUNCS cf =
     \<lparr>vf_open = Some (vfs_eeprom_open cf), vf_close = Some vfs_eeprom_close,
      vf_read = Some (vfs_eeprom_read cf), vf_write = Some (vfs_eeprom_write cf),
      vf_fseek = Some (vfs_eeprom_fseek cf), vf_truncate = None,
      vf_create = Some (vfs_eeprom_create cf), vf_unlink = Some (vfs_eeprom_unlink cf),
      vf_size = Some (vfs_eeprom_filesize cf)\<rparr>"

end
