(* ===== verification/E6_VfsPages.thy ===== *)
theory E6_VfsPages
  imports E6_VfsEeprom
begin

text \<open>
  The device under the file system of \<^verbatim>\<open>vfs_eeprom.c\<close>, seen as an array of pages: the block
  writes of the driver have the effect of a plain copy, a read of a page gives its contents, a
  write changes that page only, and the fields of the structs in a page can be updated one by one.
\<close>

subsection \<open>The driver writes what it is given\<close>

definition overwrite :: "'a list \<Rightarrow> nat \<Rightarrow> 'a list \<Rightarrow> 'a list" where
  "overwrite m a d = take a m @ d @ drop (a + length d) m"

lemma length_overwrite [simp]: "a + length d \<le> length m \<Longrightarrow> length (overwrite m a d) = length m"
  by (simp add: overwrite_def)

lemma overwrite_Nil [simp]: "overwrite m a [] = m"
  by (simp add: overwrite_def)

lemma overwrite_append:
  "a + length d + length e \<le> length m \<Longrightarrow> overwrite (overwrite m a d) (a + length d) e = overwrite m a (d @ e)"
  by (simp add: overwrite_def add.commute add.left_commute)

lemma overwrite_Cons:
  "a < length m \<Longrightarrow> overwrite (m[a := x]) (Suc a) d = overwrite m a (x # d)"
  by (simp add: overwrite_def take_Suc_conv_app_nth take_update_cancel)

lemma foldl_updates:
  assumes "a + n + length d \<le> length m"
    and "\<And>i. i < n + length d \<Longrightarrow> f (length m) i = a + i"
  shows "foldl (\<lambda>m (i, x). m[f (length m) i := x]) m (enumerate n d) = overwrite m (a + n) d"
  using assms
proof (induction d arbitrary: m n)
  case (Cons x d)
  then show ?case
    using Cons.IH [of "Suc n" "m[a + n := x]"] overwrite_Cons [of "a + n" m x d] by simp
qed simp

lemma burst_index:
  assumes "a mod p + i < p" and "a + i < l"
  shows "(a div p * p + (a + i) mod p) mod l = a + (i::nat)"
proof -
  have "(a + i) mod p = a mod p + i"
    using assms(1) by (metis mod_add_left_eq mod_less)
  then show ?thesis
    using assms(2) div_mult_mod_eq [of a p] by (metis add.assoc mod_less)
qed

lemma write_block_int_mem:
  assumes "e_acks st" and "unat addr mod psize + length d \<le> psize" and "unat addr + length d \<le> length (e_mem st)"
  shows "i2c_24CXX_write_block_int psize addr d st = st\<lparr>e_mem := overwrite (e_mem st) (unat addr) d\<rparr>"
  using assms foldl_updates [of "unat addr" 0 d "e_mem st"
      "\<lambda>l i. (unat addr div psize * psize + (unat addr + i) mod psize) mod l"] burst_index [of "unat addr" psize]
  by (simp add: i2c_24CXX_write_block_int_def)

text \<open>
  The driver splits a block at the page boundaries of the chip, so that no burst wraps around
  within its page: the effect is that of a plain copy.
\<close>

lemma write_block_mem:
  assumes "e_acks st" and "0 < psize" and "unat addr + length d \<le> length (e_mem st)"
    and "length (e_mem st) \<le> 2 ^ 16"
  shows "i2c_24CXX_write_block psize addr d st = st\<lparr>e_mem := overwrite (e_mem st) (unat addr) d\<rparr>"
  using assms
proof (induction psize addr d st rule: i2c_24CXX_write_block.induct)
  case (1 psize addr d st)
  define n where "n = (if psize - unat addr mod psize < length d then psize - unat addr mod psize else length d)"
  define s where "s = st\<lparr>e_mem := overwrite (e_mem st) (unat addr) (take n d)\<rparr>"
  have m: "unat addr mod psize < psize" using 1(3) by simp
  then have n: "unat addr mod psize + n \<le> psize" "n \<le> length d" by (auto simp: n_def)
  then have int: "i2c_24CXX_write_block_int psize addr (take n d) st = s"
    using 1(2,4) by (simp add: s_def write_block_int_mem)
  have len: "length (overwrite (e_mem st) (unat addr) (take n d)) = length (e_mem st)"
    using 1(4) n by simp
  show ?case
  proof (cases "n < length d")
    case True
    then have pos: "0 < n" using m by (auto simp: n_def)
    have a: "unat (addr + of_nat n) = unat addr + n"
      using True 1(4,5) by (simp add: unat_word_ariths unat_of_nat)
    have "i2c_24CXX_write_block psize (addr + of_nat n) (drop n d) s =
        s\<lparr>e_mem := overwrite (e_mem s) (unat (addr + of_nat n)) (drop n d)\<rparr>"
      using 1(1) [OF n_def int [symmetric]] pos True 1(2-5) len by (simp add: a s_def)
    then show ?thesis
      using pos True 1(2,4) int overwrite_append [of "unat addr" "take n d" "drop n d" "e_mem st"]
      by (subst i2c_24CXX_write_block.simps) (simp add: Let_def a s_def flip: n_def)
  next
    case False
    then have "take n d = d" using n by simp
    then show ?thesis using False int by (subst i2c_24CXX_write_block.simps) (simp add: Let_def s_def flip: n_def)
  qed
qed

subsection \<open>The device as an array of pages\<close>

definition sfs_dev :: "sfs_conf \<Rightarrow> sfs_state \<Rightarrow> bool" where
  "sfs_dev cf st \<longleftrightarrow>
     e_acks st \<and> 10 \<le> SFS_PAGE_SIZE cf \<and> SFS_PAGE_SIZE cf \<le> 255 \<and> 0 < SFS_PAGE_COUNT cf
     \<and> 0 < CONF_I2C_24CXX_PAGESIZE cf
     \<and> length (e_mem st) = SFS_PAGE_COUNT cf * SFS_PAGE_SIZE cf
     \<and> SFS_PAGE_COUNT cf * SFS_PAGE_SIZE cf \<le> 2 ^ 16"

definition pg :: "sfs_conf \<Rightarrow> sfs_state \<Rightarrow> u16 \<Rightarrow> u8 list" where
  "pg cf st p = take (SFS_PAGE_SIZE cf) (drop (unat p * SFS_PAGE_SIZE cf) (e_mem st))"

abbreviation in_dev :: "sfs_conf \<Rightarrow> u16 \<Rightarrow> bool" where
  "in_dev cf p \<equiv> unat p < SFS_PAGE_COUNT cf"

lemma page_end:
  assumes "q < c" and "off + n \<le> (s::nat)"
  shows "q * s + off + n \<le> c * s"
proof -
  have "q * s + s \<le> c * s" using mult_le_mono1 [of "Suc q" c s] assms(1) by simp
  then show ?thesis using assms(2) by linarith
qed

lemma length_pg [simp]: "sfs_dev cf st \<Longrightarrow> in_dev cf p \<Longrightarrow> length (pg cf st p) = SFS_PAGE_SIZE cf"
  using page_end [of "unat p" "SFS_PAGE_COUNT cf" 0 "SFS_PAGE_SIZE cf" "SFS_PAGE_SIZE cf"]
  by (simp add: pg_def sfs_dev_def)

lemma unat_addr:
  assumes "sfs_dev cf st" and "in_dev cf p" and "off < SFS_PAGE_SIZE cf"
  shows "unat (vfs_eeprom_addr cf p off) = unat p * SFS_PAGE_SIZE cf + off"
proof -
  have "unat p * SFS_PAGE_SIZE cf + off < 2 ^ 16"
    using assms page_end [of "unat p" "SFS_PAGE_COUNT cf" off 1 "SFS_PAGE_SIZE cf"] by (simp add: sfs_dev_def)
  then show ?thesis
    by (simp add: vfs_eeprom_addr_def unat_word_ariths unat_of_nat mod_simps)
qed

lemma map_nth_take: "a + n \<le> length xs \<Longrightarrow> map (\<lambda>i. xs ! ((a + i) mod length xs)) [0..<n] = take n (drop a xs)"
  by (rule nth_equalityI) simp_all

lemma read_block_mem:
  "e_acks st \<Longrightarrow> unat a + n \<le> length (e_mem st) \<Longrightarrow> 0 < n \<Longrightarrow>
     i2c_24CXX_read_block a n st = Some (take n (drop (unat a) (e_mem st)))"
  by (simp add: i2c_24CXX_read_block_def max_def map_nth_take)

lemma read_page [simp]:
  assumes "sfs_dev cf st" and "in_dev cf p" and "0 < n" and "n \<le> SFS_PAGE_SIZE cf"
  shows "vfs_eeprom_read_page cf p n st = Some (take n (pg cf st p))"
  using assms unat_addr [of cf st p 0] page_end [of "unat p" "SFS_PAGE_COUNT cf" 0 n "SFS_PAGE_SIZE cf"]
  by (simp add: vfs_eeprom_read_page_def read_block_mem sfs_dev_def pg_def)

text \<open>The page behind the last one is page 0 again.\<close>

lemma read_page_wrap:
  assumes "sfs_dev cf st" and "unat p = SFS_PAGE_COUNT cf" and "0 < n" and "n \<le> SFS_PAGE_SIZE cf"
  shows "vfs_eeprom_read_page cf p n st = Some (take n (pg cf st 0))"
proof -
  have "unat (vfs_eeprom_addr cf p 0) mod length (e_mem st) = 0"
    using assms unfolding vfs_eeprom_addr_def sfs_dev_def
    by (cases "SFS_PAGE_COUNT cf * SFS_PAGE_SIZE cf = 2 ^ 16") (simp_all add: unat_word_ariths unat_of_nat mod_simps)
  then have "\<And>i. (unat (vfs_eeprom_addr cf p 0) + i) mod length (e_mem st) = i mod length (e_mem st)"
    by (metis add_0 mod_add_left_eq)
  then show ?thesis
    using assms page_end [of 0 "SFS_PAGE_COUNT cf" 0 n "SFS_PAGE_SIZE cf"] map_nth_take [of 0 n "e_mem st"]
    by (simp add: vfs_eeprom_read_page_def i2c_24CXX_read_block_def sfs_dev_def pg_def max_def)
qed

lemma write_slice:
  assumes "sfs_dev cf st" and "in_dev cf p" and "off + length d \<le> SFS_PAGE_SIZE cf" and "off < SFS_PAGE_SIZE cf"
  shows "vfs_eeprom_write_slice cf p off d st =
           st\<lparr>e_mem := overwrite (e_mem st) (unat p * SFS_PAGE_SIZE cf + off) d\<rparr>"
  using assms page_end [of "unat p" "SFS_PAGE_COUNT cf" off "length d" "SFS_PAGE_SIZE cf"]
    unat_addr [of cf st p off]
  by (simp add: vfs_eeprom_write_slice_def write_block_mem sfs_dev_def)

lemma write_slice_dev [simp]:
  assumes "sfs_dev cf st" and "in_dev cf p" and "off + length d \<le> SFS_PAGE_SIZE cf" and "off < SFS_PAGE_SIZE cf"
  shows "sfs_dev cf (vfs_eeprom_write_slice cf p off d st)"
    and "fh_avail (vfs_eeprom_write_slice cf p off d st) = fh_avail st"
  using assms page_end [of "unat p" "SFS_PAGE_COUNT cf" off "length d" "SFS_PAGE_SIZE cf"]
  by (simp_all add: write_slice) (simp add: sfs_dev_def)

lemma slice_overwrite_same:
  "off + length d \<le> s \<Longrightarrow> a + s \<le> length m \<Longrightarrow>
     take s (drop a (overwrite m (a + off) d)) = overwrite (take s (drop a m)) off d"
  by (rule nth_equalityI) (auto simp: overwrite_def nth_append ac_simps)

lemma slice_overwrite_other:
  "b + s \<le> a \<or> a + length d \<le> b \<Longrightarrow> a + length d \<le> length m \<Longrightarrow>
     take s (drop b (overwrite m a d)) = take s (drop b m)"
  by (rule nth_equalityI) (auto simp: overwrite_def nth_append)

lemma pg_write_slice [simp]:
  assumes "sfs_dev cf st" and "in_dev cf p" and "off + length d \<le> SFS_PAGE_SIZE cf" and "off < SFS_PAGE_SIZE cf"
  shows "pg cf (vfs_eeprom_write_slice cf p off d st) q = (if q = p then overwrite (pg cf st p) off d else pg cf st q)"
proof (cases "q = p")
  case True
  then show ?thesis
    using assms page_end [of "unat p" "SFS_PAGE_COUNT cf" 0 "SFS_PAGE_SIZE cf" "SFS_PAGE_SIZE cf"]
    by (simp add: write_slice pg_def slice_overwrite_same sfs_dev_def)
next
  case False
  then have "unat q \<noteq> unat p" by (simp add: word_unat_eq_iff)
  then have "unat q * SFS_PAGE_SIZE cf + SFS_PAGE_SIZE cf \<le> unat p * SFS_PAGE_SIZE cf + off
      \<or> unat p * SFS_PAGE_SIZE cf + off + length d \<le> unat q * SFS_PAGE_SIZE cf"
    using page_end [of "unat p" "unat q" off "length d" "SFS_PAGE_SIZE cf"]
      page_end [of "unat q" "unat p" 0 "SFS_PAGE_SIZE cf" "SFS_PAGE_SIZE cf"] assms(3) by linarith
  then show ?thesis
    using False assms page_end [of "unat p" "SFS_PAGE_COUNT cf" off "length d" "SFS_PAGE_SIZE cf"]
    by (simp add: write_slice pg_def slice_overwrite_other sfs_dev_def)
qed

subsection \<open>Fields of a page\<close>

lemma nth_overwrite:
  "a + length d \<le> length m \<Longrightarrow>
     overwrite m a d ! i = (if a \<le> i \<and> i < a + length d then d ! (i - a) else m ! i)"
  by (auto simp: overwrite_def nth_append)

lemma drop_overwrite_before: "k \<le> a \<Longrightarrow> k \<le> length m \<Longrightarrow> drop k (overwrite m a d) = overwrite (drop k m) (a - k) d"
  by (simp add: overwrite_def drop_take drop_append min_def)

lemma drop_overwrite_after: "a + length d \<le> k \<Longrightarrow> a + length d \<le> length m \<Longrightarrow> drop k (overwrite m a d) = drop k m"
  by (simp add: overwrite_def)

lemma overwrite_full: "length d = length m \<Longrightarrow> overwrite m 0 d = d"
  by (simp add: overwrite_def)

lemma length_le16 [simp]: "length (le16 w) = 2"
  by (simp add: le16_def)

lemma le16_bits: "ucast (ucast w :: u8) OR push_bit 8 (ucast (ucast (drop_bit 8 w) :: u8)) = (w :: u16)"
  by (rule bit_word_eqI) (auto simp: bit_simps)

lemma get16_overwrite_same:
  "a + 2 \<le> length m \<Longrightarrow> get16 (overwrite m a (le16 w)) a = w"
  by (simp add: get16_def nth_overwrite le16_def le16_bits)

lemma get16_overwrite_other:
  "a + length d \<le> length m \<Longrightarrow> i + 2 \<le> a \<or> a + length d \<le> i \<Longrightarrow> get16 (overwrite m a d) i = get16 m i"
  by (auto simp: get16_def nth_overwrite)

lemma get16_take [simp]: "i + 1 < n \<Longrightarrow> get16 (take n m) i = get16 m i"
  by (simp add: get16_def)

lemma pg_fields_take [simp]:
  "0 < n \<Longrightarrow> pg_magic (take n b) = pg_magic b"
  "2 < n \<Longrightarrow> pg_next_page (take n b) = pg_next_page b"
  "3 < n \<Longrightarrow> pg_page_len (take n b) = pg_page_len b"
  "4 < n \<Longrightarrow> pg_next_file (take n b) = pg_next_file b"
  by (simp_all add: pg_magic_def pg_next_page_def pg_page_len_def pg_next_file_def)

lemmas pg_field_defs = pg_magic_def pg_next_page_def pg_next_file_def pg_filename_def pg_page_len_def pg_data_def

text \<open>The updates of a page: its links, its length, its data, and a whole header.\<close>

lemma set_next_page [simp]:
  assumes "10 \<le> length b"
  shows "pg_next_page (overwrite b 1 (le16 w)) = w" and "pg_magic (overwrite b 1 (le16 w)) = pg_magic b"
    and "pg_next_file (overwrite b 1 (le16 w)) = pg_next_file b"
    and "pg_filename (overwrite b 1 (le16 w)) = pg_filename b"
    and "pg_page_len (overwrite b 1 (le16 w)) = pg_page_len b"
    and "pg_data (overwrite b 1 (le16 w)) = pg_data b"
  using assms
  by (simp_all add: pg_field_defs nth_overwrite get16_overwrite_same get16_overwrite_other
      drop_overwrite_after del: One_nat_def)

lemma set_next_file [simp]:
  assumes "10 \<le> length b"
  shows "pg_next_page (overwrite b 3 (le16 w)) = pg_next_page b" and "pg_magic (overwrite b 3 (le16 w)) = pg_magic b"
    and "pg_next_file (overwrite b 3 (le16 w)) = w" and "pg_filename (overwrite b 3 (le16 w)) = pg_filename b"
  using assms
  by (simp_all add: pg_field_defs nth_overwrite get16_overwrite_same get16_overwrite_other
      drop_overwrite_after)

lemma set_page_len [simp]:
  assumes "10 \<le> length b"
  shows "pg_next_page (overwrite b 3 [x]) = pg_next_page b" and "pg_magic (overwrite b 3 [x]) = pg_magic b"
    and "pg_page_len (overwrite b 3 [x]) = x" and "pg_data (overwrite b 3 [x]) = pg_data b"
  using assms
  by (simp_all add: pg_field_defs nth_overwrite get16_overwrite_other drop_overwrite_after)

lemma set_data [simp]:
  assumes "4 + off + length d \<le> length b"
  shows "pg_next_page (overwrite b (4 + off) d) = pg_next_page b" and "pg_magic (overwrite b (4 + off) d) = pg_magic b"
    and "pg_page_len (overwrite b (4 + off) d) = pg_page_len b"
    and "pg_data (overwrite b (4 + off) d) = overwrite (pg_data b) off d"
  using assms
  by (simp_all add: pg_field_defs nth_overwrite get16_overwrite_other drop_overwrite_before)

lemma set_header [simp]:
  assumes "10 \<le> length b"
  shows "pg_magic (overwrite b 0 (x # le16 w @ [y])) = x"
    and "pg_next_page (overwrite b 0 (x # le16 w @ [y])) = w"
    and "pg_page_len (overwrite b 0 (x # le16 w @ [y])) = y"
    and "pg_magic (overwrite b 0 [0, 0, 0, 0]) = 0"
  using assms by (simp_all add: pg_field_defs nth_overwrite get16_def le16_def le16_bits nth_append)

lemma cstr_strncpy: "length (cstr s) \<le> n \<Longrightarrow> cstr (strncpy s n @ 0 # rest) = cstr s"
proof -
  assume "length (cstr s) \<le> n"
  then have "strncpy s n @ 0 # rest = cstr s @ 0 # (if length (cstr s) = n then rest else replicate (n - length (cstr s) - 1) 0 @ 0 # rest)"
    by (cases "n - length (cstr s)") (auto simp: strncpy_def Let_def)
  then show ?thesis by simp
qed

lemma length_file_page [simp]: "10 \<le> SFS_PAGE_SIZE cf \<Longrightarrow> length (file_page_bytes cf nf name) = SFS_PAGE_SIZE cf"
  by (simp add: file_page_bytes_def)

lemma file_page_fields [simp]:
  assumes "10 \<le> SFS_PAGE_SIZE cf"
  shows "pg_magic (file_page_bytes cf nf name) = SFS_MAGIC_FILE"
    and "pg_next_page (file_page_bytes cf nf name) = 0" and "pg_next_file (file_page_bytes cf nf name) = nf"
    and "length (cstr name) \<le> SFS_PAGE_SIZE cf - 6 \<Longrightarrow> pg_filename (file_page_bytes cf nf name) = cstr name"
  using assms by (simp_all add: pg_field_defs file_page_bytes_def get16_def le16_def le16_bits cstr_strncpy)

end
