(* ===== verification/E6_VfsEepromOk.thy ===== *)
theory E6_VfsEepromOk
  imports E6_VfsPages
begin

text \<open>
  Correctness of the file system of \<^verbatim>\<open>vfs_eeprom.c\<close>.  The invariant \<open>sfs_inv\<close> relates the device
  to a list of files with their names, pages and contents; every operation is described by its
  effect on that list.
\<close>

lemmas set_next_page_Suc [simp] = set_next_page [unfolded One_nat_def]

subsection \<open>The file system on the device\<close>

text \<open>
  \<open>G\<close> gives the contents of the pages.  The data pages of a file are chained by \<^verbatim>\<open>next_page\<close>
  and hold the file's contents in portions of \<open>ds\<close> bytes; a file that has been written to ends with a
  page that is not full.
\<close>

fun chain :: "(u16 \<Rightarrow> u8 list) \<Rightarrow> u16 \<Rightarrow> u16 list \<Rightarrow> bool" where
  "chain G p [] \<longleftrightarrow> p = 0"
| "chain G p (q # qs) \<longleftrightarrow>
     p = q \<and> q \<noteq> 0 \<and> pg_magic (G q) = SFS_MAGIC_DATA \<and> chain G (pg_next_page (G q)) qs"

fun holds :: "nat \<Rightarrow> (u16 \<Rightarrow> u8 list) \<Rightarrow> u16 list \<Rightarrow> u8 list \<Rightarrow> bool" where
  "holds ds G [] c \<longleftrightarrow> c = []"
| "holds ds G (q # qs) c \<longleftrightarrow>
     unat (pg_page_len (G q)) = min ds (length c) \<and> take (min ds (length c)) (pg_data (G q)) = take ds c
     \<and> holds ds G qs (drop ds c)"

record sfs_file =
  f_inode :: u16
  f_name :: "u8 list"
  f_pages :: "u16 list"
  f_cont :: "u8 list"

definition file_ok :: "sfs_conf \<Rightarrow> (u16 \<Rightarrow> u8 list) \<Rightarrow> sfs_file \<Rightarrow> bool" where
  "file_ok cf G f \<longleftrightarrow>
     pg_magic (G (f_inode f)) = SFS_MAGIC_FILE \<and> pg_filename (G (f_inode f)) = f_name f
     \<and> chain G (pg_next_page (G (f_inode f))) (f_pages f) \<and> holds (data_size cf) G (f_pages f) (f_cont f)
     \<and> (f_pages f \<noteq> [] \<longrightarrow> length (f_pages f) = length (f_cont f) div data_size cf + 1)"

fun file_chain :: "(u16 \<Rightarrow> u8 list) \<Rightarrow> u16 \<Rightarrow> u16 list \<Rightarrow> bool" where
  "file_chain G p [] \<longleftrightarrow> p = 0"
| "file_chain G p (i # is) \<longleftrightarrow> p = i \<and> i \<noteq> 0 \<and> file_chain G (pg_next_file (G i)) is"

definition pages_of :: "sfs_file list \<Rightarrow> u16 list" where
  "pages_of fs = concat (map (\<lambda>f. f_inode f # f_pages f) fs)"

definition sfs_inv :: "sfs_conf \<Rightarrow> sfs_file list \<Rightarrow> sfs_state \<Rightarrow> bool" where
  "sfs_inv cf fs st \<longleftrightarrow>
     sfs_dev cf st \<and> pg_magic (pg cf st 0) = SFS_MAGIC_SUPERBLOCK
     \<and> file_chain (pg cf st) (pg_next_file (pg cf st 0)) (map f_inode fs)
     \<and> (\<forall>f\<in>set fs. file_ok cf (pg cf st) f) \<and> distinct (map f_name fs)
     \<and> distinct (0 # pages_of fs) \<and> (\<forall>p\<in>set (pages_of fs). in_dev cf p)"

definition free_pages :: "sfs_conf \<Rightarrow> sfs_state \<Rightarrow> u16 set" where
  "free_pages cf st =
     {p. in_dev cf p \<and> pg_magic (pg cf st p) \<notin> {SFS_MAGIC_SUPERBLOCK, SFS_MAGIC_FILE, SFS_MAGIC_DATA}}"

lemma chain_cong: "(\<And>q. q \<in> set qs \<Longrightarrow> G q = H q) \<Longrightarrow> chain G p qs = chain H p qs"
  by (induction qs arbitrary: p) auto

lemma holds_cong: "(\<And>q. q \<in> set qs \<Longrightarrow> G q = H q) \<Longrightarrow> holds ds G qs c = holds ds H qs c"
  by (induction qs arbitrary: c) auto

lemma file_chain_cong:
  "(\<And>i. i \<in> set is \<Longrightarrow> pg_next_file (G i) = pg_next_file (H i)) \<Longrightarrow> file_chain G p is = file_chain H p is"
  by (induction "is" arbitrary: p) auto

lemma file_ok_cong:
  assumes "\<And>q. q \<in> set (f_pages f) \<Longrightarrow> G q = H q"
    and "pg_magic (G (f_inode f)) = pg_magic (H (f_inode f))" and "pg_filename (G (f_inode f)) = pg_filename (H (f_inode f))"
    and "pg_next_page (G (f_inode f)) = pg_next_page (H (f_inode f))"
  shows "file_ok cf G f = file_ok cf H f"
  using assms chain_cong [of "f_pages f" G H] holds_cong [of "f_pages f" G H] by (simp add: file_ok_def)

lemma chain_pages: "chain G p qs \<Longrightarrow> q \<in> set qs \<Longrightarrow> pg_magic (G q) = SFS_MAGIC_DATA"
  by (induction qs arbitrary: p) auto

lemma free_not_used:
  assumes "sfs_inv cf fs st" and "p \<in> free_pages cf st"
  shows "p \<noteq> 0" and "p \<notin> set (pages_of fs)"
  using assms chain_pages unfolding sfs_inv_def free_pages_def pages_of_def file_ok_def by fastforce+

lemma finite_free [simp]: "finite (free_pages cf st)"
  by simp

subsection \<open>Searching a free page\<close>

lemma page_count_bound: "sfs_dev cf st \<Longrightarrow> SFS_PAGE_COUNT cf * 10 \<le> 2 ^ 16"
  unfolding sfs_dev_def by (meson le_trans mult_le_mono2)

lemma unat_Suc_page: "sfs_dev cf st \<Longrightarrow> unat p \<le> SFS_PAGE_COUNT cf \<Longrightarrow> unat (p + 1) = Suc (unat (p :: u16))"
  using page_count_bound [of cf st] by (simp add: unat_word_ariths)

lemma find_free_hit:
  "sfs_dev cf st \<Longrightarrow> p \<in> free_pages cf st \<Longrightarrow> find_free_loop cf s p st = Some p"
  by (subst find_free_loop.simps) (auto simp: free_pages_def sfs_dev_def)

lemma find_free_next:
  assumes "sfs_dev cf st" and "in_dev cf p" and "p \<notin> free_pages cf st"
  shows "find_free_loop cf s p st =
     (let q = (if Suc (unat p) = SFS_PAGE_COUNT cf then 0 else p + 1)
      in if q = s then Some 0 else find_free_loop cf s q st)"
  using assms unat_Suc_page [of cf st p]
  by (subst find_free_loop.simps) (auto simp: free_pages_def sfs_dev_def Let_def)

lemma find_free_scan:
  assumes "sfs_dev cf st" and "in_dev cf u"
  shows "unat p \<le> unat u \<Longrightarrow> \<forall>q. unat p \<le> unat q \<and> unat q < unat u \<longrightarrow> q \<notin> free_pages cf st \<Longrightarrow>
    \<not> (unat p < unat s \<and> unat s \<le> unat u) \<Longrightarrow> find_free_loop cf s p st = find_free_loop cf s u st"
proof (induction "unat u - unat p" arbitrary: p)
  case 0
  then have "p = u" by (simp add: word_unat_eq_iff)
  then show ?case by simp
next
  case (Suc n)
  then have less: "unat p < unat u" by linarith
  then have next_p: "unat (p + 1) = Suc (unat p)"
    using assms by (intro unat_Suc_page) auto
  then have "find_free_loop cf s p st = find_free_loop cf s (p + 1) st"
    using Suc.prems(2,3) less assms by (subst find_free_next) (auto simp: Let_def)
  also have "\<dots> = find_free_loop cf s u st"
    using Suc.prems Suc.hyps(2) next_p less by (intro Suc.hyps(1)) auto
  finally show ?case .
qed

lemma least_free:
  assumes "p \<in> free_pages cf st" and "a \<le> unat p"
  obtains u where "u \<in> free_pages cf st" "a \<le> unat u" "unat u \<le> unat p"
    "\<forall>q. a \<le> unat q \<and> unat q < unat u \<longrightarrow> q \<notin> free_pages cf st"
proof -
  define k where "k = (LEAST k. \<exists>q \<in> free_pages cf st. a \<le> unat q \<and> unat q = k)"
  have ex: "\<exists>k. \<exists>q \<in> free_pages cf st. a \<le> unat q \<and> unat q = k" using assms by blast
  obtain u where u: "u \<in> free_pages cf st" "a \<le> unat u" "unat u = k"
    using LeastI_ex [OF ex] unfolding k_def by blast
  have min: "q \<in> free_pages cf st \<Longrightarrow> a \<le> unat q \<Longrightarrow> k \<le> unat q" for q
    unfolding k_def by (rule Least_le) blast
  show thesis
    using that [OF u(1,2)] min assms u(3) by (metis not_less)
qed

lemma find_free_from_0:
  assumes "sfs_dev cf st" and "p \<in> free_pages cf st" and "unat p < unat s"
  shows "\<exists>u \<in> free_pages cf st. find_free_loop cf s 0 st = Some u"
proof -
  obtain u where u: "u \<in> free_pages cf st" "unat u \<le> unat p"
      "\<forall>q. 0 \<le> unat q \<and> unat q < unat u \<longrightarrow> q \<notin> free_pages cf st"
    using least_free [OF assms(2), of 0] by auto
  then have "find_free_loop cf s 0 st = find_free_loop cf s u st"
    using assms by (intro find_free_scan) (auto simp: free_pages_def)
  then show ?thesis using u(1) find_free_hit [OF assms(1) u(1)] by auto
qed

lemma find_free_to_0:
  assumes "sfs_dev cf st" and "unat s \<le> SFS_PAGE_COUNT cf" and "0 < unat s"
    and "\<not> (\<exists>q \<in> free_pages cf st. unat s \<le> unat q)" and "pg_magic (pg cf st 0) = SFS_MAGIC_SUPERBLOCK"
  shows "find_free_loop cf s s st = find_free_loop cf s 0 st"
proof (cases "unat s = SFS_PAGE_COUNT cf")
  case True
  then show ?thesis
    using assms unat_Suc_page [of cf st s] read_page_wrap [of cf st s 1]
    by (subst find_free_loop.simps) (auto simp: sfs_dev_def Let_def)
next
  case False
  define u :: u16 where "u = of_nat (SFS_PAGE_COUNT cf - 1)"
  have u: "unat u = SFS_PAGE_COUNT cf - 1"
    using unat_Suc_page [of cf st s] assms(1) page_count_bound [OF assms(1)] by (simp add: u_def unat_of_nat)
  have "find_free_loop cf s s st = find_free_loop cf s u st"
    using assms False u by (intro find_free_scan) (auto simp: sfs_dev_def)
  also have "u \<notin> free_pages cf st" using assms(2,4) False u by force
  then have "find_free_loop cf s u st = find_free_loop cf s 0 st"
    using assms False u find_free_next [of cf st u s] by (auto simp: Let_def sfs_dev_def)
  finally show ?thesis .
qed

lemma find_free_page:
  assumes dev: "sfs_dev cf st" and super: "pg_magic (pg cf st 0) = SFS_MAGIC_SUPERBLOCK"
    and s: "unat s \<le> SFS_PAGE_COUNT cf" and free: "free_pages cf st \<noteq> {}"
  shows "\<exists>p \<in> free_pages cf st. p \<noteq> 0 \<and> vfs_eeprom_find_free_page cf s st = Some p"
proof -
  have not_0: "0 \<notin> free_pages cf st" using super by (simp add: free_pages_def)
  obtain p where p: "p \<in> free_pages cf st" using free by blast
  then have p_dev: "in_dev cf p" by (simp add: free_pages_def)
  show ?thesis
  proof (cases "\<exists>q \<in> free_pages cf st. unat s \<le> unat q")
    case True
    then obtain u where u: "u \<in> free_pages cf st" "unat s \<le> unat u"
        "\<forall>q. unat s \<le> unat q \<and> unat q < unat u \<longrightarrow> q \<notin> free_pages cf st"
      using least_free by metis
    then have "find_free_loop cf s s st = find_free_loop cf s u st"
      using dev by (intro find_free_scan) (auto simp: free_pages_def)
    then show ?thesis
      using u(1) find_free_hit [OF dev u(1)] not_0 by (auto simp: vfs_eeprom_find_free_page_def)
  next
    case False
    then have less: "unat p < unat s" using p by (simp add: not_le)
    have "find_free_loop cf s s st = find_free_loop cf s 0 st"
      using find_free_to_0 [OF dev s] False less super by auto
    then show ?thesis
      using find_free_from_0 [OF dev p less] not_0 by (auto simp: vfs_eeprom_find_free_page_def)
  qed
qed

text \<open>
  If no page is free and the search starts behind the last page, the start is never reached
  again: the search does not return.
\<close>

lemma find_free_loop_never:
  "find_free_loop cf s p st = Some r \<Longrightarrow> sfs_dev cf st \<Longrightarrow> pg_magic (pg cf st 0) = SFS_MAGIC_SUPERBLOCK \<Longrightarrow>
     free_pages cf st = {} \<Longrightarrow> unat s = SFS_PAGE_COUNT cf \<Longrightarrow> unat p \<le> SFS_PAGE_COUNT cf \<Longrightarrow> False"
proof (induction cf s p st r rule: find_free_loop.raw_induct [rotated 1, consumes 1, case_names step])
  case (step floop cf s p st r)
  define q where "q = (if SFS_PAGE_COUNT cf \<le> unat (p + 1) then 0 else p + 1)"
  have q: "in_dev cf q" using step.prems(1) by (auto simp: sfs_dev_def q_def)
  then have not_s: "q \<noteq> s" using step.prems(4) by auto
  have page: "vfs_eeprom_read_page cf p 1 st = Some (take 1 (pg cf st (if unat p = SFS_PAGE_COUNT cf then 0 else p)))"
    using step.prems read_page_wrap [OF step.prems(1)] by (auto simp: sfs_dev_def)
  have "in_dev cf p \<Longrightarrow> p \<notin> free_pages cf st" using step.prems(3) by simp
  then have "floop cf s q st = Some r"
    using step.hyps step.prems(2,4,5) page not_s unfolding q_def
    by (auto simp: Let_def free_pages_def split: if_splits)
  then show ?case using step.IH [of cf s q st r] step.prems(1-4) q by simp
qed

lemma find_free_never:
  assumes "sfs_dev cf st" and "pg_magic (pg cf st 0) = SFS_MAGIC_SUPERBLOCK" and "free_pages cf st = {}"
    and "unat s = SFS_PAGE_COUNT cf"
  shows "vfs_eeprom_find_free_page cf s st = None"
  using assms find_free_loop_never [of cf s s st]
  by (cases "find_free_loop cf s s st") (auto simp: vfs_eeprom_find_free_page_def)

subsection \<open>Searching a file\<close>

fun locate :: "u8 list \<Rightarrow> u16 \<Rightarrow> sfs_file list \<Rightarrow> u16 \<times> u16" where
  "locate name prev [] = (0, prev)"
| "locate name prev (f # fs) = (if f_name f = name then (f_inode f, prev) else locate name (f_inode f) fs)"

lemma find_file_loop_name:
  assumes "sfs_dev cf st" and "\<forall>f\<in>set fs. file_ok cf (pg cf st) f \<and> in_dev cf (f_inode f)"
    and "file_chain (pg cf st) p (map f_inode fs)"
  shows "find_file_loop cf (Some name) prev p st = Some (locate (cstr name) prev fs)"
  using assms
proof (induction fs arbitrary: p prev)
  case (Cons f fs)
  then show ?case by (subst find_file_loop.simps) (auto simp: file_ok_def sfs_dev_def)
qed (simp add: find_file_loop.simps)

lemma find_file_loop_last:
  assumes "sfs_dev cf st" and "\<forall>f\<in>set fs. file_ok cf (pg cf st) f \<and> in_dev cf (f_inode f)"
    and "file_chain (pg cf st) p (map f_inode fs)"
  shows "\<exists>pr. find_file_loop cf None prev p st = Some (if fs = [] then 0 else f_inode (last fs), pr)"
  using assms
proof (induction fs arbitrary: p prev)
  case (Cons f fs)
  have "pg_next_file (pg cf st (f_inode f)) = 0 \<longleftrightarrow> fs = []"
    using Cons.prems(3) by (cases fs) auto
  then show ?case
    using Cons by (subst find_file_loop.simps) (auto simp: file_ok_def sfs_dev_def)
qed (simp add: find_file_loop.simps)

lemma sfs_inv_files:
  assumes "sfs_inv cf fs st"
  shows "\<forall>f\<in>set fs. file_ok cf (pg cf st) f \<and> in_dev cf (f_inode f)"
  using assms by (fastforce simp: sfs_inv_def pages_of_def)

lemma find_file_name:
  assumes "sfs_inv cf fs st"
  shows "vfs_eeprom_find_file cf (Some name) st = Some (locate (cstr name) 0 fs)"
  using assms find_file_loop_name [of cf st fs _ name 0] sfs_inv_files [OF assms]
  by (simp add: vfs_eeprom_find_file_def sfs_inv_def sfs_dev_def)

lemma find_file_last:
  assumes "sfs_inv cf fs st"
  shows "\<exists>pr. vfs_eeprom_find_file cf None st = Some (if fs = [] then 0 else f_inode (last fs), pr)"
  using assms find_file_loop_last [of cf st fs _ 0] sfs_inv_files [OF assms]
  by (simp add: vfs_eeprom_find_file_def sfs_inv_def sfs_dev_def)

lemma locate_none: "name \<notin> f_name ` set fs \<Longrightarrow> fst (locate name prev fs) = 0"
  by (induction fs arbitrary: prev) auto

lemma locate_some:
  "distinct (map f_name fs) \<Longrightarrow> f \<in> set fs \<Longrightarrow> f_name f = name \<Longrightarrow> fst (locate name prev fs) = f_inode f"
  by (induction fs arbitrary: prev) force+

lemma sfs_inv_names: "sfs_inv cf fs st \<Longrightarrow> distinct (map f_name fs)"
  by (simp add: sfs_inv_def)

lemma inode_not_0: "sfs_inv cf fs st \<Longrightarrow> f \<in> set fs \<Longrightarrow> f_inode f \<noteq> 0"
  by (auto simp: sfs_inv_def pages_of_def)

lemma open_found:
  assumes "sfs_inv cf fs st" and "f \<in> set fs" and "f_name f = cstr name"
  shows "vfs_eeprom_open cf name st = Some (malloc_fh (ee_handle (f_inode f) 0) st)"
  using assms inode_not_0 [OF assms(1,2)] locate_some [of fs f "cstr name" 0]
  by (auto simp: vfs_eeprom_open_def find_file_name sfs_inv_names split: prod.splits)

lemma open_not_found:
  assumes "sfs_inv cf fs st" and "cstr name \<notin> f_name ` set fs"
  shows "vfs_eeprom_open cf name st = Some (None, st)"
  using assms locate_none [OF assms(2), of 0]
  by (auto simp: vfs_eeprom_open_def find_file_name split: prod.splits)

subsection \<open>Size and reading\<close>

lemma data_size_bounds: "sfs_dev cf st \<Longrightarrow> 6 \<le> data_size cf \<and> data_size cf \<le> 251"
  by (auto simp: sfs_dev_def data_size_def)

text \<open>\<open>stored\<close>: the pages from \<open>p\<close> on hold the bytes \<open>c\<close> and end with a page that is not full.\<close>

definition stored :: "sfs_conf \<Rightarrow> sfs_state \<Rightarrow> u16 \<Rightarrow> u16 list \<Rightarrow> u8 list \<Rightarrow> bool" where
  "stored cf st p qs c \<longleftrightarrow>
     sfs_dev cf st \<and> chain (pg cf st) p qs \<and> holds (data_size cf) (pg cf st) qs c
     \<and> (\<forall>q\<in>set qs. in_dev cf q) \<and> length qs = length c div data_size cf + 1"

lemma stored_Cons:
  "stored cf st p (q # qs) c \<longleftrightarrow>
     sfs_dev cf st \<and> p = q \<and> q \<noteq> 0 \<and> in_dev cf q \<and> pg_magic (pg cf st q) = SFS_MAGIC_DATA
     \<and> unat (pg_page_len (pg cf st q)) = min (data_size cf) (length c)
     \<and> take (min (data_size cf) (length c)) (pg_data (pg cf st q)) = take (data_size cf) c
     \<and> (if length c < data_size cf then qs = [] \<and> pg_next_page (pg cf st q) = 0
        else stored cf st (pg_next_page (pg cf st q)) qs (drop (data_size cf) c))"
proof (cases "length c < data_size cf")
  case True
  then show ?thesis by (auto simp: stored_def)
next
  case False
  then have "length c div data_size cf = (length c - data_size cf) div data_size cf + 1" if "sfs_dev cf st"
    using data_size_bounds [OF that] by (simp add: le_div_geq)
  then show ?thesis using False by (auto simp: stored_def)
qed

lemma stored_Nil [simp]: "\<not> stored cf st p [] c"
  by (simp add: stored_def)

lemma stored_dev: "stored cf st p qs c \<Longrightarrow> sfs_dev cf st"
  by (simp add: stored_def)

lemma filesize_loop:
  "stored cf st p qs c \<Longrightarrow> filesize_loop cf p sz st = Some (sz + of_nat (length c))"
proof (induction qs arbitrary: p c sz)
  case (Cons q qs)
  then have len: "ucast (pg_page_len (pg cf st q)) = (of_nat (min (data_size cf) (length c)) :: u32)"
    by (metis stored_Cons of_nat_unat)
  show ?case
  proof (cases "length c < data_size cf")
    case True
    then show ?thesis using Cons.prems len
      by (subst filesize_loop.simps) (auto simp: stored_Cons sfs_dev_def Let_def)
  next
    case False
    then have "filesize_loop cf p sz st = filesize_loop cf (pg_next_page (pg cf st q)) (sz + of_nat (data_size cf)) st"
      using Cons.prems len by (subst filesize_loop.simps) (auto simp: stored_Cons sfs_dev_def Let_def)
    then show ?thesis
      using Cons.IH [of "pg_next_page (pg cf st q)" "drop (data_size cf) c" "sz + of_nat (data_size cf)"] Cons.prems False
      by (simp add: stored_Cons algebra_simps flip: of_nat_add)
  qed
qed simp

lemma skip_pages:
  "stored cf st p qs c \<Longrightarrow> k \<le> length c div data_size cf \<Longrightarrow>
     \<exists>p'. skip_pages cf k p st = Some p' \<and> stored cf st p' (drop k qs) (drop (k * data_size cf) c)"
proof (induction k arbitrary: p qs c)
  case (Suc k)
  then have dev: "sfs_dev cf st" by (simp add: stored_def)
  have ge: "\<not> length c < data_size cf" using Suc.prems(2) by (metis Suc_le_D div_less nat.distinct(1) le_zero_eq)
  obtain q qs' where qs: "qs = q # qs'" using Suc.prems(1) by (cases qs) auto
  have "k \<le> length (drop (data_size cf) c) div data_size cf"
    using Suc.prems(2) ge data_size_bounds [OF dev] by (simp add: le_div_geq)
  then show ?case
    using Suc.IH [of "pg_next_page (pg cf st q)" qs' "drop (data_size cf) c"] Suc.prems(1) ge qs dev
    by (auto simp: stored_Cons sfs_dev_def add.commute)
qed simp

text \<open>Reading from the start of a page.\<close>

lemma read_loop_done: "n \<le> length out \<Longrightarrow> read_loop cf n p off out st = Some (of_nat (length out), out, off)"
  by (simp add: read_loop.simps)

lemma take_drop_split: "k \<le> length c \<Longrightarrow> k \<le> n \<Longrightarrow> take k c @ take (n - k) (drop k c) = take n c"
  by (metis le_add_diff_inverse take_add)

lemma read_loop_aligned:
  "stored cf st p qs c \<Longrightarrow> unat off mod data_size cf = 0 \<Longrightarrow> unat off + length c < 2 ^ 16 \<Longrightarrow> length out \<le> n \<Longrightarrow>
   read_loop cf n p off out st =
     (let r = take (n - length out) c in Some (of_nat (length out + length r), out @ r, off + of_nat (length r)))"
proof (induction qs arbitrary: p off out c)
  case (Cons q qs)
  let ?D = "data_size cf"
  have dev: "sfs_dev cf st" using Cons.prems(1) by (simp add: stored_def)
  note D = data_size_bounds [OF dev]
  have q: "in_dev cf q" "p = q" "pg_magic (pg cf st q) = SFS_MAGIC_DATA"
      "unat (pg_page_len (pg cf st q)) = min ?D (length c)"
      "take (min ?D (length c)) (pg_data (pg cf st q)) = take ?D c"
    using Cons.prems(1) by (auto simp: stored_Cons)
  have buf: "vfs_eeprom_read_page cf q (SFS_PAGE_SIZE cf) st = Some (pg cf st q)"
    using dev q(1) by (simp add: sfs_dev_def)
  show ?case
  proof (cases "n = length out")
    case True
    then show ?thesis by (simp add: read_loop_done)
  next
    case False
    then have more: "length out < n" using Cons.prems(4) by simp
    define m where "m = min (n - length out) ?D"
    have m: "m \<le> ?D" "0 < m" using D more by (auto simp: m_def)
    show ?thesis
    proof (cases "m > min ?D (length c)")
      case True
      then have c: "length c < ?D" "length c < n - length out" by (auto simp: m_def)
      then show ?thesis
        using True more q buf Cons.prems(2)
        by (subst read_loop.simps) (simp add: Let_def flip: m_def)
    next
      case False
      have data: "take m (pg_data (pg cf st q)) = take m c"
        using arg_cong [OF q(5), of "take m"] False m(1) by (simp add: min_def split: if_splits)
      have step: "read_loop cf n p off out st =
          read_loop cf n (pg_next_page (pg cf st q)) (off + of_nat m) (out @ take m c) st"
        using False more q buf Cons.prems(2) data m(1) by (subst read_loop.simps) (simp add: Let_def flip: m_def)
      show ?thesis
      proof (cases "n - length out \<le> ?D")
        case True
        then have "m = n - length out" by (simp add: m_def)
        moreover have "m \<le> length c" using False by simp
        ultimately show ?thesis using step more by (simp add: read_loop_done Let_def)
      next
        case False
        then have mD: "m = ?D" by (simp add: m_def)
        then have ge: "?D \<le> length c" using \<open>\<not> m > min ?D (length c)\<close> by simp
        then have tail: "stored cf st (pg_next_page (pg cf st q)) qs (drop ?D c)"
          using Cons.prems(1) by (auto simp: stored_Cons)
        have off: "unat (off + of_nat ?D) = unat off + ?D"
          using Cons.prems(3) ge by (simp add: unat_word_ariths unat_of_nat)
        define y where "y = take (n - (length out + ?D)) (drop ?D c)"
        have y: "take (n - length out) c = take ?D c @ y"
          using take_drop_split [of ?D c "n - length out"] ge False by (simp add: y_def)
        have "read_loop cf n p off out st =
            Some (of_nat (length (out @ take ?D c) + length y), (out @ take ?D c) @ y,
                  off + of_nat ?D + of_nat (length y))"
          using Cons.IH [OF tail, of "off + of_nat ?D" "out @ take ?D c"] step Cons.prems(2,3) off ge mD False
          by (simp add: Let_def y_def)
        then show ?thesis using ge by (simp add: Let_def y)
      qed
    qed
  qed
qed simp

text \<open>
  The case the code gets wrong: the position is inside the last page, and more is asked for than
  is left.  The bytes are copied, but the loop goes on with page 0 and the result is 0.
\<close>

definition tail_lost :: "sfs_conf \<Rightarrow> u8 list \<Rightarrow> nat \<Rightarrow> nat \<Rightarrow> bool" where
  "tail_lost cf c off n \<longleftrightarrow>
     off mod data_size cf \<noteq> 0 \<and> off div data_size cf = length c div data_size cf \<and> length c < off + n"

lemma read_page0: "sfs_dev cf st \<Longrightarrow> 0 < n \<Longrightarrow> n \<le> SFS_PAGE_SIZE cf \<Longrightarrow> vfs_eeprom_read_page cf 0 n st = Some (take n (pg cf st 0))"
  by (rule read_page) (auto simp: sfs_dev_def)

lemma read_loop_superblock:
  assumes "sfs_dev cf st" and "pg_magic (pg cf st 0) = SFS_MAGIC_SUPERBLOCK" and "length out < n"
  shows "read_loop cf n 0 off out st = Some (0, out, off)"
  using assms by (subst read_loop.simps) (simp add: read_page0 sfs_magic_defs sfs_dev_def)

lemma read_loop_inside:
  assumes st: "stored cf st p qs c" and super: "pg_magic (pg cf st 0) = SFS_MAGIC_SUPERBLOCK"
    and off: "unat off mod data_size cf = po" "0 < po" "po \<le> length c" "unat off + length c < po + 2 ^ 16" and n: "0 < n"
  shows "read_loop cf n p off [] st =
     (let r = take n (drop po c)
      in Some (if length c < data_size cf \<and> length c < po + n then 0 else of_nat (length r), r,
               off + of_nat (length r)))"
proof -
  let ?D = "data_size cf"
  obtain q qs' where qs: "qs = q # qs'" using st by (cases qs) auto
  have dev: "sfs_dev cf st" using st by (simp add: stored_def)
  note D = data_size_bounds [OF dev]
  have poD: "po < ?D" using off(1) D by auto
  have q: "in_dev cf q" "p = q" "pg_magic (pg cf st q) = SFS_MAGIC_DATA"
      "unat (pg_page_len (pg cf st q)) = min ?D (length c)"
      "take (min ?D (length c)) (pg_data (pg cf st q)) = take ?D c"
    using st qs by (auto simp: stored_Cons)
  have buf: "vfs_eeprom_read_page cf q (SFS_PAGE_SIZE cf) st = Some (pg cf st q)"
    using dev q(1) by (simp add: sfs_dev_def)
  define m where "m = min n ?D"
  define k where "k = (if po + m > min ?D (length c) then min ?D (length c) - po else m)"
  have k: "po + k \<le> min ?D (length c)" using poD off(3) by (auto simp: k_def)
  then have kD: "po + k \<le> ?D" by simp
  have wrap: "unat (pg_page_len (pg cf st q) - of_nat po) = min ?D (length c) - po"
    using q(4) poD off(3) D by (simp add: unat_sub word_le_nat_alt unat_of_nat)
  have data: "take k (drop po (pg_data (pg cf st q))) = take k (drop po c)"
    using arg_cong [OF q(5), of "\<lambda>x. take k (drop po x)"] k by (simp add: drop_take)
  have step: "read_loop cf n p off [] st =
      read_loop cf n (pg_next_page (pg cf st q)) (off + of_nat k) (take k (drop po c)) st"
    using q(1-4) buf off(1,2) n wrap data kD
    by (subst read_loop.simps) (cases "po + m > min ?D (length c)"; simp add: Let_def k_def flip: m_def)
  have "k \<le> length c - po" using k by linarith
  then have lenk: "length (take k (drop po c)) = k" by simp
  consider "n \<le> min ?D (length c) - po" | "length c < ?D" "length c < po + n" | "?D \<le> length c" "?D < po + n"
    by linarith
  then show ?thesis
  proof cases
    case 1
    then have "k = n" using poD off(3) by (auto simp: k_def m_def)
    then show ?thesis using step lenk 1 poD off(3) by (auto simp: read_loop_done Let_def)
  next
    case 2
    then have kc: "k = length c - po" using poD off(3) by (auto simp: k_def m_def)
    have "pg_next_page (pg cf st q) = 0" using st qs 2(1) by (auto simp: stored_Cons)
    then show ?thesis
      using step 2 kc read_loop_superblock [OF dev super, of "take k (drop po c)" n "off + of_nat k"] off(3)
      by (simp add: Let_def)
  next
    case 3
    then have kD: "k = ?D - po" using poD by (auto simp: k_def m_def)
    have tail: "stored cf st (pg_next_page (pg cf st q)) qs' (drop ?D c)"
      using st qs 3(1) by (auto simp: stored_Cons)
    have "unat off + k < 2 ^ 16" using off(4) 3(1) kD poD by linarith
    then have uo: "unat (off + of_nat k) = unat off + k"
      by (simp add: unat_word_ariths unat_of_nat)
    have al: "(unat off + k) mod ?D = 0"
      using off(1) kD poD by (metis add_diff_inverse_nat le_add_diff_inverse less_imp_le mod_add_left_eq mod_self)
    define y where "y = take (n - k) (drop ?D c)"
    have y: "take n (drop po c) = take k (drop po c) @ y"
      using take_drop_split [of k "drop po c" n] 3 kD poD by (simp add: y_def)
    have "read_loop cf n p off [] st = Some (of_nat (k + length y), take k (drop po c) @ y, off + of_nat k + of_nat (length y))"
      using step read_loop_aligned [OF tail, of "off + of_nat k" "take k (drop po c)" n] al uo lenk off(4) 3 kD poD
      by (simp add: Let_def y_def)
    then show ?thesis using 3 y lenk by (simp add: Let_def)
  qed
qed

lemma file_stored:
  assumes "sfs_inv cf fs st" and "f \<in> set fs"
  shows "in_dev cf (f_inode f)"
    and "if f_pages f = [] then f_cont f = [] \<and> pg_next_page (pg cf st (f_inode f)) = 0
         else stored cf st (pg_next_page (pg cf st (f_inode f))) (f_pages f) (f_cont f)"
  using assms sfs_inv_files [OF assms(1)] by (auto simp: sfs_inv_def file_ok_def stored_def pages_of_def)

lemma pages_distinct: "sfs_inv cf fs st \<Longrightarrow> f \<in> set fs \<Longrightarrow> distinct (f_inode f # f_pages f)"
  by (auto simp: sfs_inv_def pages_of_def distinct_concat_iff dest: split_list)

lemma distinct_pages_bound: "distinct qs \<Longrightarrow> (\<forall>q\<in>set qs. in_dev cf q) \<Longrightarrow> length qs \<le> SFS_PAGE_COUNT cf"
proof -
  assume "distinct qs" "\<forall>q\<in>set qs. in_dev cf q"
  then have "length qs = card (unat ` set qs)"
    by (metis card_image distinct_card inj_on_def word_unat_eq_iff)
  also have "\<dots> \<le> card {..<SFS_PAGE_COUNT cf}"
    using \<open>\<forall>q\<in>set qs. in_dev cf q\<close> by (intro card_mono) auto
  finally show ?thesis by simp
qed

lemma content_bound:
  assumes "sfs_inv cf fs st" and "f \<in> set fs"
  shows "length (f_cont f) < 2 ^ 16"
proof (cases "f_pages f = []")
  case True
  then show ?thesis using file_stored(2) [OF assms] by simp
next
  case False
  have dev: "sfs_dev cf st" using assms by (simp add: sfs_inv_def)
  have st: "stored cf st (pg_next_page (pg cf st (f_inode f))) (f_pages f) (f_cont f)"
    using False file_stored(2) [OF assms] by simp
  then have "length (f_cont f) div data_size cf < SFS_PAGE_COUNT cf"
    using distinct_pages_bound [of "f_pages f" cf] pages_distinct [OF assms] by (auto simp: stored_def)
  then have "length (f_cont f) < SFS_PAGE_COUNT cf * data_size cf"
    using data_size_bounds [OF dev] by (simp add: div_less_iff_less_mult)
  also have "\<dots> \<le> SFS_PAGE_COUNT cf * SFS_PAGE_SIZE cf" by (simp add: data_size_def)
  also have "\<dots> \<le> 2 ^ 16" using dev by (simp add: sfs_dev_def)
  finally show ?thesis .
qed

lemma ee_of_handle [simp]: "ee_of (fh_u (ee_handle i off)) = Some \<lparr>ee_file_page = i, ee_offset = off\<rparr>"
  by (simp add: ee_handle_def)

lemma read_inode_page:
  "sfs_inv cf fs st \<Longrightarrow> f \<in> set fs \<Longrightarrow>
     vfs_eeprom_read_page cf (f_inode f) (SFS_PAGE_SIZE cf) st = Some (pg cf st (f_inode f))"
  using file_stored(1) by (auto simp: sfs_inv_def sfs_dev_def)

lemma div_eq_iff_remainder: "k \<le> l div d \<Longrightarrow> 0 < d \<Longrightarrow> k = l div d \<longleftrightarrow> l - k * d < (d::nat)"
proof -
  assume d: "0 < d" and "k \<le> l div d"
  then have "k * d \<le> l" by (metis div_times_less_eq_dividend le_trans mult_le_mono1)
  then obtain r where "l = k * d + r" using le_Suc_ex by blast
  then show ?thesis using d by (auto simp: div_eq_0_iff)
qed

lemma eeprom_read:
  assumes inv: "sfs_inv cf fs st" and f: "f \<in> set fs" and off: "unat off \<le> length (f_cont f)"
  shows "vfs_eeprom_read cf (ee_handle (f_inode f) off) n st =
    (let r = take (unat n) (drop (unat off) (f_cont f))
     in Some (if tail_lost cf (f_cont f) (unat off) (unat n) then 0 else of_nat (length r), r,
              ee_handle (f_inode f) (off + of_nat (length r)), st))"
proof -
  let ?D = "data_size cf" and ?c = "f_cont f" and ?p = "pg_next_page (pg cf st (f_inode f))"
  have dev: "sfs_dev cf st" and super: "pg_magic (pg cf st 0) = SFS_MAGIC_SUPERBLOCK"
    using inv by (auto simp: sfs_inv_def)
  note D = data_size_bounds [OF dev]
  show ?thesis
  proof (cases "f_pages f = []")
    case True
    then have c: "?c = []" "?p = 0" using file_stored(2) [OF inv f] by auto
    then have "read_loop cf (unat n) 0 off [] st = Some (0, [], off)"
      using read_loop_superblock [OF dev super, of "[]"] read_loop_done by (cases "n = 0") (auto simp: unat_gt_0)
    then show ?thesis
      using c off read_inode_page [OF inv f] by (simp add: vfs_eeprom_read_def Let_def)
  next
    case False
    then have st: "stored cf st ?p (f_pages f) ?c" using file_stored(2) [OF inv f] by simp
    define k where "k = unat off div ?D"
    define po where "po = unat off mod ?D"
    have off_eq: "unat off = k * ?D + po" by (simp add: k_def po_def)
    have "k \<le> length ?c div ?D" using off by (simp add: k_def div_le_mono)
    then obtain p' where p': "skip_pages cf k ?p st = Some p'" "stored cf st p' (drop k (f_pages f)) (drop (k * ?D) ?c)"
      using skip_pages [OF st] by blast
    have po: "po \<le> length (drop (k * ?D) ?c)" using off off_eq by simp
    have bound: "unat off + length (drop (k * ?D) ?c) < po + 2 ^ 16"
      using content_bound [OF inv f] off_eq off by simp
    have lost: "tail_lost cf ?c (unat off) (unat n) \<longleftrightarrow>
        0 < po \<and> length (drop (k * ?D) ?c) < ?D \<and> length (drop (k * ?D) ?c) < po + unat n"
      using div_eq_iff_remainder [OF \<open>k \<le> length ?c div ?D\<close>] D off
      unfolding tail_lost_def off_eq using mod_less_divisor [of ?D "unat off"]
      by (auto simp: div_mult_self3 simp flip: po_def)
    have "read_loop cf (unat n) p' off [] st =
      (let r = take (unat n) (drop po (drop (k * ?D) ?c))
       in Some (if tail_lost cf ?c (unat off) (unat n) then 0 else of_nat (length r), r, off + of_nat (length r)))"
    proof (cases "po = 0 \<or> n = 0")
      case True
      then show ?thesis
        using read_loop_aligned [OF p'(2), of off "[]" "unat n"] bound lost read_loop_done [of "unat n" "[]"]
        by (auto simp: po_def Let_def)
    next
      case False
      then show ?thesis
        using read_loop_inside [OF p'(2) super, of off po "unat n"] bound lost po
        by (simp add: po_def Let_def unat_gt_0)
    qed
    moreover have "drop po (drop (k * ?D) ?c) = drop (unat off) ?c" by (simp add: off_eq add.commute)
    ultimately have "read_loop cf (unat n) p' off [] st =
      (let r = take (unat n) (drop (unat off) ?c)
       in Some (if tail_lost cf ?c (unat off) (unat n) then 0 else of_nat (length r), r, off + of_nat (length r)))"
      by metis
    then show ?thesis
      using p'(1) read_inode_page [OF inv f] unfolding k_def by (simp add: vfs_eeprom_read_def Let_def)
  qed
qed

lemma filesize_loop_0: "filesize_loop cf 0 sz st = Some sz"
  by (simp add: filesize_loop.simps)

lemma eeprom_filesize:
  assumes "sfs_inv cf fs st" and "f \<in> set fs"
  shows "vfs_eeprom_filesize cf (ee_handle (f_inode f) off) st = Some (of_nat (length (f_cont f)))"
  using file_stored(2) [OF assms] filesize_loop [of cf st _ "f_pages f" "f_cont f" 0] read_inode_page [OF assms]
  by (auto simp: vfs_eeprom_filesize_def filesize_loop_0 split: if_splits)

lemma eeprom_seek_end:
  assumes "sfs_inv cf fs st" and "f \<in> set fs"
  shows "vfs_eeprom_fseek cf (ee_handle (f_inode f) off) 0 SEEK_END st =
    Some (0, ee_handle (f_inode f) (of_nat (length (f_cont f))), st)"
proof -
  have u: "ucast (of_nat (length (f_cont f)) :: u32) = (of_nat (length (f_cont f)) :: u16)"
    "ucast (of_nat (length (f_cont f)) :: u16) = (of_nat (length (f_cont f)) :: u32)"
    using content_bound [OF assms]
    by (simp_all add: word_unat_eq_iff unat_of_nat unsigned_ucast_eq take_bit_nat_eq_self)
  show ?thesis by (simp add: vfs_eeprom_fseek_def eeprom_filesize [OF assms] seek_defs u)
qed

subsection \<open>Writing at the end of a file\<close>

lemma pages_loop_end:
  assumes "stored cf st p qs c" and "length c < 2 ^ 16"
  shows "pages_loop cf p pa lp 0 (of_nat (length c div data_size cf)) st = Some (pa + of_nat (length qs), last qs, last qs)"
  using assms
proof (induction qs arbitrary: p c pa lp)
  case (Cons q qs)
  have dev: "sfs_dev cf st" using Cons.prems(1) by (simp add: stored_def)
  note D = data_size_bounds [OF dev]
  show ?case
  proof (cases "length c < data_size cf")
    case True
    then show ?thesis
      using Cons.prems(1) by (subst pages_loop.simps) (auto simp: stored_Cons sfs_dev_def Let_def pages_loop.simps)
  next
    case False
    then have k: "length c div data_size cf = Suc (length (drop (data_size cf) c) div data_size cf)"
      using D by (simp add: le_div_geq)
    have "Suc (length (drop (data_size cf) c) div data_size cf) < 2 ^ 16"
      using Cons.prems(2) k by (metis div_le_dividend le_less_trans)
    then have nz: "(of_nat (Suc (length (drop (data_size cf) c) div data_size cf)) :: u16) \<noteq> 0"
      using unat_of_nat [of "Suc (length (drop (data_size cf) c) div data_size cf)", where 'a = 16] by force
    have rest: "stored cf st (pg_next_page (pg cf st q)) qs (drop (data_size cf) c)"
      using Cons.prems(1) False by (simp add: stored_Cons)
    then have "qs \<noteq> []" by auto
    have "pages_loop cf p pa lp 0 (of_nat (length c div data_size cf)) st =
        pages_loop cf (pg_next_page (pg cf st q)) (pa + 1) q 0 (of_nat (length (drop (data_size cf) c) div data_size cf)) st"
      using Cons.prems(1) False nz unfolding k
      by (subst pages_loop.simps) (auto simp: stored_Cons sfs_dev_def Let_def)
    then show ?thesis
      using Cons.IH [OF rest] Cons.prems(2) \<open>qs \<noteq> []\<close> by (simp add: algebra_simps)
  qed
qed simp

text \<open>New pages, chained behind \<open>last\<close>.\<close>

lemma free_pages_write:
  assumes "sfs_dev cf st" and "in_dev cf p" and "off + length d \<le> SFS_PAGE_SIZE cf" and "off < SFS_PAGE_SIZE cf"
    and "pg_magic (overwrite (pg cf st p) off d) \<in> {SFS_MAGIC_SUPERBLOCK, SFS_MAGIC_FILE, SFS_MAGIC_DATA}"
  shows "free_pages cf (vfs_eeprom_write_slice cf p off d st) = free_pages cf st - {p}"
  using assms by (auto simp: free_pages_def)

lemma alloc_pages:
  assumes "sfs_dev cf st" and "pg_magic (pg cf st 0) = SFS_MAGIC_SUPERBLOCK"
    and "m \<le> card (free_pages cf st)" and "in_dev cf lp" and "lp \<notin> free_pages cf st"
  shows "\<exists>ns st'. alloc_pages cf m lp wp st = Some (Some (if wp = 0 \<and> ns \<noteq> [] then hd ns else wp), st')
     \<and> length ns = m \<and> distinct ns \<and> set ns \<subseteq> free_pages cf st \<and> sfs_dev cf st' \<and> fh_avail st' = fh_avail st
     \<and> free_pages cf st' = free_pages cf st - set ns
     \<and> (\<forall>q. q \<notin> set ns \<and> q \<noteq> lp \<longrightarrow> pg cf st' q = pg cf st q)
     \<and> pg cf st' lp = (if ns = [] then pg cf st lp else overwrite (pg cf st lp) 1 (le16 (hd ns)))
     \<and> chain (pg cf st') (if ns = [] then 0 else hd ns) ns \<and> (\<forall>q\<in>set ns. pg_page_len (pg cf st' q) = 0)"
  using assms
proof (induction m arbitrary: lp wp st)
  case 0
  then show ?case by (intro exI [of _ "[]"]) simp
next
  case (Suc m)
  have dev: "sfs_dev cf st" using Suc.prems(1) .
  have ps: "10 \<le> SFS_PAGE_SIZE cf" using dev by (simp add: sfs_dev_def)
  have "free_pages cf st \<noteq> {}" using Suc.prems(3) by auto
  moreover have "unat (lp + 1) \<le> SFS_PAGE_COUNT cf" using Suc.prems(4) unat_Suc_page [OF dev, of lp] by simp
  ultimately obtain n where n: "n \<in> free_pages cf st" "n \<noteq> 0" "vfs_eeprom_find_free_page cf (lp + 1) st = Some n"
    using find_free_page [OF dev Suc.prems(2)] by metis
  then have n_dev: "in_dev cf n" and n_lp: "n \<noteq> lp" using Suc.prems(5) by (auto simp: free_pages_def)
  define s1 where "s1 = vfs_eeprom_write_page cf n ([SFS_MAGIC_DATA] @ le16 0 @ [0]) st"
  define s2 where "s2 = vfs_eeprom_write_slice cf lp 1 (le16 n) s1"
  have dev1: "sfs_dev cf s1" using dev n_dev ps by (simp add: s1_def)
  have dev2: "sfs_dev cf s2" using dev1 Suc.prems(4) ps by (simp add: s2_def)
  have pg1: "pg cf s1 q = (if q = n then overwrite (pg cf st n) 0 ([SFS_MAGIC_DATA] @ le16 0 @ [0]) else pg cf st q)" for q
    using dev n_dev ps by (simp add: s1_def)
  have pg2: "pg cf s2 q = (if q = lp then overwrite (pg cf st lp) 1 (le16 n) else pg cf s1 q)" for q
    using dev1 Suc.prems(4) ps pg1 n_lp by (simp add: s2_def)
  have fields: "pg_magic (pg cf s2 n) = SFS_MAGIC_DATA" "pg_next_page (pg cf s2 n) = 0" "pg_page_len (pg cf s2 n) = 0"
    using dev n_dev ps n_lp by (simp_all add: pg2 pg1)
  have len2: "10 \<le> length (pg cf s2 n)" using dev2 n_dev ps by simp
  have "pg_magic (pg cf st lp) \<in> {SFS_MAGIC_SUPERBLOCK, SFS_MAGIC_FILE, SFS_MAGIC_DATA}"
    using Suc.prems(4,5) by (simp add: free_pages_def)
  then have free: "free_pages cf s2 = free_pages cf st - {n}"
    using Suc.prems(5) dev ps n_dev n_lp Suc.prems(4) unfolding free_pages_def by (auto simp: pg2 pg1)
  have "m \<le> card (free_pages cf s2)" using Suc.prems(3) n(1) free by (simp add: card_Diff_singleton)
  moreover have "pg_magic (pg cf s2 0) = SFS_MAGIC_SUPERBLOCK"
    using Suc.prems(2) n(2) dev ps Suc.prems(4) by (auto simp: pg2 pg1)
  moreover have "n \<notin> free_pages cf s2" using free by simp
  ultimately obtain ns st' where ih:
      "alloc_pages cf m n (if wp = 0 then n else wp) s2 = Some (Some (if wp = 0 then n else wp), st')"
      "length ns = m" "distinct ns" "set ns \<subseteq> free_pages cf s2" "sfs_dev cf st'" "fh_avail st' = fh_avail s2"
      "free_pages cf st' = free_pages cf s2 - set ns"
      "\<forall>q. q \<notin> set ns \<and> q \<noteq> n \<longrightarrow> pg cf st' q = pg cf s2 q"
      "pg cf st' n = (if ns = [] then pg cf s2 n else overwrite (pg cf s2 n) 1 (le16 (hd ns)))"
      "chain (pg cf st') (if ns = [] then 0 else hd ns) ns" "\<forall>q\<in>set ns. pg_page_len (pg cf st' q) = 0"
    using Suc.IH [OF dev2, of n "if wp = 0 then n else wp"] n_dev n(2) by auto
  have run: "alloc_pages cf (Suc m) lp wp st = Some (Some (if wp = 0 then n else wp), st')"
    using n ih(1) by (cases "wp = 0") (simp_all add: Let_def s1_def s2_def)
  have "fh_avail st' = fh_avail st"
    using ih(6) dev dev1 n_dev ps Suc.prems(4) by (simp add: s2_def s1_def)
  moreover have "n \<notin> set ns" "lp \<notin> set ns" using ih(4) free Suc.prems(5) by auto
  moreover have "chain (pg cf st') n (n # ns) \<and> pg_page_len (pg cf st' n) = 0"
    using ih(9,10) fields n(2) len2 by auto
  moreover have "\<forall>q. q \<notin> set (n # ns) \<and> q \<noteq> lp \<longrightarrow> pg cf st' q = pg cf st q"
    using ih(8) by (auto simp: pg2 pg1)
  moreover have "pg cf st' lp = overwrite (pg cf st lp) 1 (le16 n)"
    using ih(8) n_lp \<open>lp \<notin> set ns\<close> by (simp add: pg2)
  ultimately show ?case
    using run ih(2-5,7,11) free n(1) by (intro exI [of _ "n # ns"] exI [of _ st']) auto
qed

text \<open>Filling the pages.  The first one already holds \<open>c\<close>, the others are empty.\<close>

lemma set_data_0 [simp]:
  assumes "4 + length d \<le> length b"
  shows "pg_next_page (overwrite b 4 d) = pg_next_page b" and "pg_magic (overwrite b 4 d) = pg_magic b"
    and "pg_page_len (overwrite b 4 d) = pg_page_len b" and "pg_data (overwrite b 4 d) = overwrite (pg_data b) 0 d"
  using set_data [of 0 d b] assms by simp_all

lemma length_pg_data: "sfs_dev cf st \<Longrightarrow> in_dev cf p \<Longrightarrow> length (pg_data (pg cf st p)) = data_size cf"
  by (simp add: pg_data_def data_size_def)

lemma fill_page:
  assumes dev: "sfs_dev cf st" and p: "in_dev cf p" and n: "wo + length d \<le> data_size cf" "wo < data_size cf"
    and s: "s = vfs_eeprom_write_slice cf p 3 [of_nat (wo + length d)] (vfs_eeprom_write_slice cf p (4 + wo) d st)"
  shows "sfs_dev cf s" and "fh_avail s = fh_avail st" and "q \<noteq> p \<Longrightarrow> pg cf s q = pg cf st q"
    and "pg_magic (pg cf s p) = pg_magic (pg cf st p)" and "pg_next_page (pg cf s p) = pg_next_page (pg cf st p)"
    and "unat (pg_page_len (pg cf s p)) = wo + length d"
    and "take (wo + length d) (pg_data (pg cf s p)) = take wo (pg_data (pg cf st p)) @ d"
proof -
  have ps: "4 + wo + length d \<le> SFS_PAGE_SIZE cf" "4 + wo < SFS_PAGE_SIZE cf" "10 \<le> SFS_PAGE_SIZE cf" "3 < SFS_PAGE_SIZE cf"
      "SFS_PAGE_SIZE cf \<le> 255"
    using n dev by (auto simp: data_size_def sfs_dev_def)
  define s1 where "s1 = vfs_eeprom_write_slice cf p (4 + wo) d st"
  have dev1: "sfs_dev cf s1" "fh_avail s1 = fh_avail st"
    unfolding s1_def using write_slice_dev [OF dev p ps(1,2)] by auto
  have pg1: "pg cf s1 q = (if q = p then overwrite (pg cf st p) (4 + wo) d else pg cf st q)" for q
    unfolding s1_def by (rule pg_write_slice [OF dev p ps(1,2)])
  have pg_s: "pg cf s q = (if q = p then overwrite (pg cf s1 p) 3 [of_nat (wo + length d)] else pg cf s1 q)" for q
    unfolding s s1_def [symmetric] using dev1 p ps by simp
  have len: "10 \<le> length (pg cf s1 p)" using dev1 p ps by simp
  have len0: "4 + wo + length d \<le> length (pg cf st p)" using dev p ps by simp
  show "sfs_dev cf s" "fh_avail s = fh_avail st" unfolding s s1_def [symmetric] using dev1 p ps by simp_all
  show "q \<noteq> p \<Longrightarrow> pg cf s q = pg cf st q" by (simp add: pg_s pg1)
  show "pg_magic (pg cf s p) = pg_magic (pg cf st p)" "pg_next_page (pg cf s p) = pg_next_page (pg cf st p)"
    using set_data(1,2) [OF len0] len by (simp_all add: pg_s pg1)
  show "unat (pg_page_len (pg cf s p)) = wo + length d"
    using len ps by (simp add: pg_s unat_of_nat unat_word_ariths del: of_nat_add)
  show "take (wo + length d) (pg_data (pg cf s p)) = take wo (pg_data (pg cf st p)) @ d"
  proof -
    have "pg_data (pg cf s p) = overwrite (pg_data (pg cf st p)) wo d"
      using set_data(4) [OF len0] len by (simp add: pg_s pg1)
    then show ?thesis using length_pg_data [OF dev p] n by (simp add: overwrite_def)
  qed
qed

lemma write_loop_stored:
  assumes "sfs_dev cf st" and "chain (pg cf st) p qs" and "distinct qs" and "\<forall>q\<in>set qs. in_dev cf q"
    and "wo < data_size cf" and "unat (pg_page_len (pg cf st p)) = wo" and "take wo (pg_data (pg cf st p)) = c" and "length c = wo"
    and "\<forall>q\<in>set (tl qs). pg_page_len (pg cf st q) = 0" and "length qs = (wo + length data) div data_size cf + 1"
  shows "\<exists>st'. write_loop cf p (pg_next_page (pg cf st p)) wo data st = Some st' \<and> stored cf st' p qs (c @ data)
     \<and> (\<forall>q. q \<notin> set qs \<longrightarrow> pg cf st' q = pg cf st q) \<and> (\<forall>q. pg_magic (pg cf st' q) = pg_magic (pg cf st q))
     \<and> fh_avail st' = fh_avail st"
  using assms
proof (induction "length data" arbitrary: data p qs wo c st rule: less_induct)
  case less
  let ?D = "data_size cf"
  note D = data_size_bounds [OF less.prems(1)]
  obtain rest where qs: "qs = p # rest" "in_dev cf p" "p \<noteq> 0"
    using less.prems(2,4,10) by (cases qs) auto
  show ?case
  proof (cases "data = []")
    case True
    then have "rest = []" using less.prems(5,10) qs by simp
    then have "stored cf st p qs (c @ data)" using True less.prems qs by (auto simp: stored_Cons)
    then show ?thesis using True by (intro exI [of _ st]) (simp add: write_loop.simps)
  next
    case False
    define n where "n = (if length data + wo > ?D then ?D - wo else length data)"
    define s where "s = vfs_eeprom_write_slice cf p 3 [of_nat (wo + n)] (vfs_eeprom_write_slice cf p (4 + wo) (take n data) st)"
    have n: "0 < n" "n \<le> length data" "wo + n \<le> ?D" using False less.prems(5) by (auto simp: n_def)
    have lt: "length (take n data) = n" using n(2) by simp
    note fill = fill_page [OF less.prems(1) qs(2), of wo "take n data" s, unfolded lt, OF n(3) less.prems(5) s_def]
    have s: "sfs_dev cf s" "fh_avail s = fh_avail st" "\<And>q. q \<noteq> p \<Longrightarrow> pg cf s q = pg cf st q"
        "pg_magic (pg cf s p) = pg_magic (pg cf st p)" "pg_next_page (pg cf s p) = pg_next_page (pg cf st p)"
        "unat (pg_page_len (pg cf s p)) = wo + n" "take (wo + n) (pg_data (pg cf s p)) = c @ take n data"
      using fill less.prems(7) by simp_all
    have chain: "pg_magic (pg cf st p) = SFS_MAGIC_DATA" "chain (pg cf st) (pg_next_page (pg cf st p)) rest"
      using less.prems(2) qs by auto
    have magic: "pg_magic (pg cf s q) = pg_magic (pg cf st q)" for q using s(3,4) by (cases "q = p") auto
    let ?np = "pg_next_page (pg cf st p)"
    have np: "in_dev cf ?np" "rest = [] \<Longrightarrow> ?np = 0"
      using chain(2) less.prems(1,4) qs by (cases rest; auto simp: sfs_dev_def)+
    have step: "write_loop cf p ?np wo data st = write_loop cf ?np (pg_next_page (pg cf s ?np)) 0 (drop n data) s"
      using False n np(1) s(1) by (subst write_loop.simps) (auto simp: Let_def s_def sfs_dev_def simp flip: n_def)
    show ?thesis
    proof (cases "wo + length data < ?D")
      case True
      then have all: "n = length data" "rest = []" using less.prems(10) qs by (auto simp: n_def)
      then have "stored cf s p qs (c @ data)"
        using s chain qs np(2) True less.prems(8) by (auto simp: stored_Cons)
      moreover have "write_loop cf p ?np wo data st = Some s" using step all by (simp add: write_loop.simps)
      ultimately show ?thesis using s(2,3) magic qs by (intro exI [of _ s]) auto
    next
      case False
      then have nD: "wo + n = ?D" using less.prems(5) by (auto simp: n_def)
      have "(wo + length data) div ?D = Suc (length (drop n data) div ?D)"
      proof -
        have "wo + length data - ?D = length (drop n data)" using nD n(2) by simp
        then show ?thesis using False D by (simp add: le_div_geq)
      qed
      then have len: "length rest = (0 + length (drop n data)) div ?D + 1" using less.prems(10) qs by simp
      then obtain r rs where rest: "rest = r # rs" "?np = r" using chain(2) by (cases rest) auto
      have r: "r \<noteq> p" "pg cf s r = pg cf st r" using less.prems(3) qs rest s(3) by auto
      have same: "\<And>q. q \<in> set rest \<Longrightarrow> pg cf s q = pg cf st q" using less.prems(3) qs s(3) by (metis distinct.simps(2))
      have pre: "length (drop n data) < length data" "chain (pg cf s) ?np rest" "distinct rest"
          "\<forall>q\<in>set rest. in_dev cf q" "unat (pg_page_len (pg cf s ?np)) = 0" "\<forall>q\<in>set (tl rest). pg_page_len (pg cf s q) = 0"
        using n chain(2) chain_cong [of rest "pg cf s" "pg cf st"] same less.prems(3,4,9) qs rest by auto
      obtain st' where st': "write_loop cf ?np (pg_next_page (pg cf s ?np)) 0 (drop n data) s = Some st'"
          "stored cf st' ?np rest ([] @ drop n data)" "\<forall>q. q \<notin> set rest \<longrightarrow> pg cf st' q = pg cf s q"
          "\<forall>q. pg_magic (pg cf st' q) = pg_magic (pg cf s q)" "fh_avail st' = fh_avail s"
        using less.hyps [OF pre(1) s(1) pre(2) pre(3) pre(4) _ pre(5) _ _ pre(6) len, of "[]"] D by auto
      have p_same: "pg cf st' p = pg cf s p" using st'(3) less.prems(3) qs by auto
      have "?D - length c = n" using nD less.prems(8) by simp
      then have "stored cf st' p qs (c @ data)"
        using st'(2) p_same s(4-7) chain(1) qs nD n(2) less.prems(8) stored_dev [OF st'(2)]
        by (auto simp: stored_Cons min_def)
      then show ?thesis using step st' s(2,3) magic qs by (intro exI [of _ st']) auto
    qed
  qed
qed

lemma stored_last:
  assumes "stored cf st p qs c"
  shows "in_dev cf (last qs)" and "last qs \<noteq> 0" and "pg_magic (pg cf st (last qs)) = SFS_MAGIC_DATA"
    and "pg_next_page (pg cf st (last qs)) = 0"
    and "unat (pg_page_len (pg cf st (last qs))) = length c mod data_size cf"
    and "take (length c mod data_size cf) (pg_data (pg cf st (last qs))) = drop (length c div data_size cf * data_size cf) c"
  using assms
proof (atomize (full), induction qs arbitrary: p c)
  case (Cons q qs)
  have D: "0 < data_size cf" using data_size_bounds [OF stored_dev [OF Cons.prems]] by simp
  show ?case
  proof (cases "length c < data_size cf")
    case True
    then show ?thesis using Cons.prems by (auto simp: stored_Cons min_def)
  next
    case False
    then have tail: "stored cf st (pg_next_page (pg cf st q)) qs (drop (data_size cf) c)"
      using Cons.prems by (simp add: stored_Cons)
    have "length c mod data_size cf = (length c - data_size cf) mod data_size cf"
      "length c div data_size cf = Suc ((length c - data_size cf) div data_size cf)"
      using False D by (simp_all add: le_div_geq le_mod_geq)
    moreover have "qs \<noteq> []" using tail by auto
    ultimately show ?thesis using Cons.IH [OF tail] by (simp add: add.commute)
  qed
qed simp

lemma stored_extend:
  assumes "stored cf st p (qs @ [l]) c" and "\<And>q. q \<in> set qs \<Longrightarrow> pg cf st' q = pg cf st q"
    and "stored cf st' l (l # ns) (drop (length c div data_size cf * data_size cf) c @ data)"
  shows "stored cf st' p (qs @ l # ns) (c @ data)"
  using assms
proof (induction qs arbitrary: p c)
  case Nil
  then have "length c < data_size cf" by (auto simp: stored_Cons split: if_splits)
  then show ?case using Nil by (auto simp: stored_Cons)
next
  case (Cons q qs)
  have D: "0 < data_size cf" using data_size_bounds [OF stored_dev [OF Cons.prems(1)]] by simp
  have ge: "\<not> length c < data_size cf" using Cons.prems(1) by (auto simp: stored_Cons split: if_splits)
  have "length c div data_size cf = Suc ((length c - data_size cf) div data_size cf)"
    using ge D by (simp add: le_div_geq)
  then have "stored cf st' (pg_next_page (pg cf st q)) (qs @ l # ns) (drop (data_size cf) c @ data)"
    using Cons.prems ge by (intro Cons.IH) (auto simp: stored_Cons add.commute)
  moreover have "min (data_size cf) (length c + length data) = data_size cf" "min (data_size cf) (length c) = data_size cf"
    using ge by auto
  ultimately show ?case using Cons.prems ge stored_dev [OF Cons.prems(3)] by (auto simp: stored_Cons)
qed

text \<open>
  A file is changed: its inode stays, its pages are its old ones and free ones, the rest of the
  device is as before.
\<close>

lemma pages_of_simps [simp]:
  "pages_of [] = []" "pages_of (f # fs) = f_inode f # f_pages f @ pages_of fs" "pages_of (xs @ ys) = pages_of xs @ pages_of ys"
  by (simp_all add: pages_of_def)

lemma pages_of_member: "f \<in> set fs \<Longrightarrow> f_inode f \<in> set (pages_of fs) \<and> set (f_pages f) \<subseteq> set (pages_of fs)"
  by (auto simp: pages_of_def)

lemma sfs_inv_update:
  assumes inv: "sfs_inv cf (xs @ f # ys) st" and dev: "sfs_dev cf st'"
    and f': "f_inode f' = f_inode f" "f_name f' = f_name f" "distinct (f_pages f')"
      "set (f_pages f') \<subseteq> set (f_pages f) \<union> free_pages cf st" "file_ok cf (pg cf st') f'"
    and nf: "pg_next_file (pg cf st' (f_inode f)) = pg_next_file (pg cf st (f_inode f))"
    and same: "\<And>q. q \<noteq> f_inode f \<Longrightarrow> q \<notin> set (f_pages f') \<Longrightarrow> q \<notin> set (f_pages f) \<Longrightarrow> pg cf st' q = pg cf st q"
  shows "sfs_inv cf (xs @ f' # ys) st'"
proof -
  have used: "\<And>q. q \<in> set (pages_of (xs @ f # ys)) \<Longrightarrow> q \<notin> free_pages cf st" "0 \<notin> free_pages cf st"
    using free_not_used [OF inv] by auto
  have d: "distinct (0 # pages_of (xs @ f # ys))" "\<forall>p\<in>set (pages_of (xs @ f # ys)). in_dev cf p"
    using inv by (auto simp: sfs_inv_def)
  have d': "distinct (0 # pages_of (xs @ f' # ys))"
    using d(1) used f'(1,3,4) by auto
  have in': "\<forall>p\<in>set (pages_of (xs @ f' # ys)). in_dev cf p"
    using d(2) f'(1,4) by (auto simp: free_pages_def)
  have other: "pg cf st' q = pg cf st q" if "q \<in> set (pages_of xs) \<union> set (pages_of ys) \<union> {0}" for q
    using that d(1) d' f'(1) by (intro same) auto
  have files: "file_ok cf (pg cf st') g" if "g \<in> set xs \<union> set ys" for g
  proof -
    have "f_inode g \<in> set (pages_of xs) \<union> set (pages_of ys)" "set (f_pages g) \<subseteq> set (pages_of xs) \<union> set (pages_of ys)"
      using that pages_of_member by auto
    then have "file_ok cf (pg cf st') g = file_ok cf (pg cf st) g"
      using other by (intro file_ok_cong) auto
    then show ?thesis using inv that by (auto simp: sfs_inv_def)
  qed
  have inodes: "pg_next_file (pg cf st' i) = pg_next_file (pg cf st i)" if "i \<in> set (map f_inode (xs @ f # ys))" for i
    using that nf other pages_of_member by fastforce
  have "file_chain (pg cf st') (pg_next_file (pg cf st' 0)) (map f_inode (xs @ f' # ys))"
    using inv other [of 0] file_chain_cong [of "map f_inode (xs @ f # ys)" "pg cf st'" "pg cf st"] inodes f'(1)
    by (simp add: sfs_inv_def)
  then show ?thesis
    using inv dev d' in' files f'(2,5) other [of 0] by (auto simp: sfs_inv_def)
qed

definition pages_for :: "sfs_conf \<Rightarrow> nat \<Rightarrow> nat" where
  "pages_for cf n = n div data_size cf + 1"

lemma free_pages_magic:
  "(\<And>q. pg_magic (pg cf st' q) = pg_magic (pg cf st q)) \<Longrightarrow> free_pages cf st' = free_pages cf st"
  by (simp add: free_pages_def)

lemma mod_add_div: "0 < d \<Longrightarrow> (a mod d + b) div d + a div d = (a + b) div (d::nat)"
proof -
  assume "0 < d"
  then have "(a mod d + b + a div d * d) div d = a div d + (a mod d + b) div d" by (intro div_mult_self1) simp
  moreover have "a mod d + b + a div d * d = a + b" using mod_div_mult_eq [of a d] by linarith
  ultimately show ?thesis by simp
qed

text \<open>The three loops together, first on the pages of one file.\<close>

lemma grow_stored:
  assumes st: "stored cf st p qs c" and super: "pg_magic (pg cf st 0) = SFS_MAGIC_SUPERBLOCK" and "distinct qs"
    and m: "length qs + m = pages_for cf (length c + length data)" "m \<le> card (free_pages cf st)"
  shows "\<exists>ns s1 st'. alloc_pages cf m (last qs) (last qs) st = Some (Some (last qs), s1)
     \<and> in_dev cf (last qs) \<and> sfs_dev cf s1
     \<and> write_loop cf (last qs) (pg_next_page (pg cf s1 (last qs))) (length c mod data_size cf) data s1 = Some st'
     \<and> stored cf st' p (qs @ ns) (c @ data) \<and> length ns = m \<and> distinct ns \<and> set ns \<subseteq> free_pages cf st
     \<and> (\<forall>q. q \<notin> set qs \<and> q \<notin> set ns \<longrightarrow> pg cf st' q = pg cf st q)
     \<and> free_pages cf st' = free_pages cf st - set ns \<and> fh_avail st' = fh_avail st"
proof -
  let ?D = "data_size cf" and ?l = "last qs"
  have dev: "sfs_dev cf st" using st by (simp add: stored_def)
  note D = data_size_bounds [OF dev]
  note l = stored_last [OF st]
  obtain qs0 where qs: "qs = qs0 @ [?l]" using st by (metis append_butlast_last_id stored_Nil)
  have l_free: "?l \<notin> free_pages cf st" using l(3) by (simp add: free_pages_def)
  obtain ns s1 where a: "alloc_pages cf m ?l ?l st = Some (Some ?l, s1)" "length ns = m" "distinct ns"
      "set ns \<subseteq> free_pages cf st" "sfs_dev cf s1" "fh_avail s1 = fh_avail st" "free_pages cf s1 = free_pages cf st - set ns"
      "\<forall>q. q \<notin> set ns \<and> q \<noteq> ?l \<longrightarrow> pg cf s1 q = pg cf st q"
      "pg cf s1 ?l = (if ns = [] then pg cf st ?l else overwrite (pg cf st ?l) 1 (le16 (hd ns)))"
      "chain (pg cf s1) (if ns = [] then 0 else hd ns) ns" "\<forall>q\<in>set ns. pg_page_len (pg cf s1 q) = 0"
    using alloc_pages [OF dev super m(2) l(1) l_free, of ?l] l(2) by auto
  have len: "10 \<le> length (pg cf st ?l)" using dev l(1) by (simp add: sfs_dev_def)
  have in_ns: "\<forall>q\<in>set ns. in_dev cf q" using a(4) by (auto simp: free_pages_def)
  have "(length c mod ?D + length data) div ?D + length c div ?D = (length c + length data) div ?D"
    using D by (intro mod_add_div) simp
  moreover have "length qs = length c div ?D + 1" using st by (simp add: stored_def)
  ultimately have lens: "length (?l # ns) = (length c mod ?D + length data) div ?D + 1"
    using m(1) a(2) by (simp add: pages_for_def)
  have "chain (pg cf s1) ?l (?l # ns)" using a(9,10) l(2-4) len by auto
  moreover have "distinct (?l # ns)" using a(3,4) l_free by auto
  moreover have "unat (pg_page_len (pg cf s1 ?l)) = length c mod ?D"
      "take (length c mod ?D) (pg_data (pg cf s1 ?l)) = drop (length c div ?D * ?D) c"
    using a(9) l(5,6) len by auto
  moreover have "length (drop (length c div ?D * ?D) c) = length c mod ?D" by (simp add: minus_div_mult_eq_mod)
  ultimately obtain st' where w:
      "write_loop cf ?l (pg_next_page (pg cf s1 ?l)) (length c mod ?D) data s1 = Some st'"
      "stored cf st' ?l (?l # ns) (drop (length c div ?D * ?D) c @ data)"
      "\<forall>q. q \<notin> set (?l # ns) \<longrightarrow> pg cf st' q = pg cf s1 q" "\<forall>q. pg_magic (pg cf st' q) = pg_magic (pg cf s1 q)"
      "fh_avail st' = fh_avail s1"
    using write_loop_stored [of cf s1 ?l "?l # ns" "length c mod ?D" "drop (length c div ?D * ?D) c" data]
      a(5,11) l(1) in_ns lens D by auto
  have q0: "q \<notin> set ns \<and> q \<noteq> ?l" if "q \<in> set qs0" for q
  proof -
    have "pg_magic (pg cf st q) = SFS_MAGIC_DATA" using st that qs chain_pages [of "pg cf st" p qs q] by (metis Un_iff set_append stored_def)
    then have "q \<notin> free_pages cf st" by (simp add: free_pages_def)
    then show ?thesis using a(4) assms(3) that qs by (metis disjoint_iff distinct_append list.set_intros(1) subsetD)
  qed
  have "stored cf st' p (qs0 @ ?l # ns) (c @ data)"
    using stored_extend [of cf st p qs0 ?l c st'] st qs w(2,3) a(8) q0 by auto
  then have "stored cf st' p (qs @ ns) (c @ data)" using qs by (metis append.assoc append_Cons append_Nil)
  moreover have "?l \<in> set qs" using qs by (metis in_set_conv_decomp)
  moreover have "\<forall>q. q \<notin> set qs \<and> q \<notin> set ns \<longrightarrow> pg cf st' q = pg cf st q"
    using w(3) a(8) \<open>?l \<in> set qs\<close> by (metis set_ConsD)
  ultimately show ?thesis
    using a w l(1) free_pages_magic [of cf st' s1]
    by - (rule exI [of _ ns], rule exI [of _ s1], rule exI [of _ st'], auto)
qed

lemma first_stored:
  assumes dev: "sfs_dev cf st" and super: "pg_magic (pg cf st 0) = SFS_MAGIC_SUPERBLOCK"
    and i: "in_dev cf i" "pg_magic (pg cf st i) = SFS_MAGIC_FILE"
    and m: "m = pages_for cf (length data)" "m \<le> card (free_pages cf st)"
  shows "\<exists>ns s1 st'. alloc_pages cf m i 0 st = Some (Some (hd ns), s1)
     \<and> in_dev cf (hd ns) \<and> sfs_dev cf s1 \<and> write_loop cf (hd ns) (pg_next_page (pg cf s1 (hd ns))) 0 data s1 = Some st'
     \<and> pg cf st' i = overwrite (pg cf st i) 1 (le16 (hd ns))
     \<and> stored cf st' (hd ns) ns data \<and> length ns = m \<and> distinct ns \<and> set ns \<subseteq> free_pages cf st
     \<and> (\<forall>q. q \<noteq> i \<and> q \<notin> set ns \<longrightarrow> pg cf st' q = pg cf st q)
     \<and> free_pages cf st' = free_pages cf st - set ns \<and> fh_avail st' = fh_avail st"
proof -
  let ?D = "data_size cf"
  note D = data_size_bounds [OF dev]
  have i_free: "i \<notin> free_pages cf st" using i(2) by (simp add: free_pages_def)
  obtain ns s1 where a: "alloc_pages cf m i 0 st = Some (Some (if ns \<noteq> [] then hd ns else 0), s1)" "length ns = m" "distinct ns"
      "set ns \<subseteq> free_pages cf st" "sfs_dev cf s1" "fh_avail s1 = fh_avail st" "free_pages cf s1 = free_pages cf st - set ns"
      "\<forall>q. q \<notin> set ns \<and> q \<noteq> i \<longrightarrow> pg cf s1 q = pg cf st q"
      "pg cf s1 i = (if ns = [] then pg cf st i else overwrite (pg cf st i) 1 (le16 (hd ns)))"
      "chain (pg cf s1) (if ns = [] then 0 else hd ns) ns" "\<forall>q\<in>set ns. pg_page_len (pg cf s1 q) = 0"
    using alloc_pages [OF dev super m(2) i(1) i_free, of 0] by auto
  then obtain n ns' where ns: "ns = n # ns'" using m(1) by (cases ns) (auto simp: pages_for_def)
  have in_ns: "\<forall>q\<in>set ns. in_dev cf q" using a(4) by (auto simp: free_pages_def)
  obtain st' where w: "write_loop cf n (pg_next_page (pg cf s1 n)) 0 data s1 = Some st'" "stored cf st' n ns ([] @ data)"
      "\<forall>q. q \<notin> set ns \<longrightarrow> pg cf st' q = pg cf s1 q" "\<forall>q. pg_magic (pg cf st' q) = pg_magic (pg cf s1 q)"
      "fh_avail st' = fh_avail s1"
    using write_loop_stored [of cf s1 n ns 0 "[]" data] a(2,3,5,10,11) in_ns ns D m(1) by (auto simp: pages_for_def)
  have "i \<notin> set ns" using a(4) i_free by auto
  then show ?thesis
    using a w in_ns ns free_pages_magic [of cf st' s1]
    by - (rule exI [of _ ns], rule exI [of _ s1], rule exI [of _ st'], auto)
qed

lemma bound_16: "sfs_dev cf st \<Longrightarrow> n \<le> SFS_PAGE_COUNT cf + SFS_PAGE_COUNT cf \<Longrightarrow> n < 2 ^ 16"
  using page_count_bound [of cf st] by simp

lemma card_free_bound: "card (free_pages cf st) \<le> SFS_PAGE_COUNT cf"
proof -
  have "card (free_pages cf st) = card (unat ` free_pages cf st)"
    by (simp add: card_image inj_on_def word_unat_eq_iff)
  also have "\<dots> \<le> card {..<SFS_PAGE_COUNT cf}" by (intro card_mono) (auto simp: free_pages_def)
  finally show ?thesis by simp
qed

lemma eeprom_write_run:
  assumes "vfs_eeprom_read_page cf i (SFS_PAGE_SIZE cf) st = Some buf"
    and "pages_loop cf (pg_next_page buf) 0 i 0 (of_nat (unat off div data_size cf)) st = Some (pa, lp, wp)"
    and "(if (of_nat (pages_for cf (unat off + length data)) :: u16) > pa
          then unat (of_nat (pages_for cf (unat off + length data)) - pa) else 0) = k"
    and "alloc_pages cf k lp (if lp = i then 0 else wp) st = Some (Some w, s1)"
    and "sfs_dev cf s1" and "in_dev cf w"
    and "write_loop cf w (pg_next_page (pg cf s1 w)) (unat off mod data_size cf) data s1 = Some st'"
  shows "vfs_eeprom_write cf (ee_handle i off) data st =
     Some (of_nat (length data), ee_handle i (off + of_nat (length data)), st')"
proof -
  have "vfs_eeprom_read_page cf w (SFS_PAGE_SIZE cf) s1 = Some (pg cf s1 w)"
    using assms(5,6) by (simp add: sfs_dev_def)
  then show ?thesis
    unfolding vfs_eeprom_write_def ee_of_handle Option.bind.bind_lunit vfs_file_handle_eeprom_t.select_convs
      assms(1,2) prod.case Let_def pages_for_def [symmetric] assms(3,4)
    using assms(7) by simp
qed

text \<open>Writing at the end of a file appends the data to its contents.\<close>

lemma eeprom_write_end:
  assumes inv: "sfs_inv cf (xs @ f # ys) st" and off: "off = of_nat (length (f_cont f))"
    and room: "pages_for cf (length (f_cont f) + length data) \<le> length (f_pages f) + card (free_pages cf st)"
  shows "\<exists>ns st'. vfs_eeprom_write cf (ee_handle (f_inode f) off) data st =
        Some (of_nat (length data), ee_handle (f_inode f) (off + of_nat (length data)), st')
     \<and> sfs_inv cf (xs @ f\<lparr>f_pages := f_pages f @ ns, f_cont := f_cont f @ data\<rparr> # ys) st'
     \<and> length (f_pages f @ ns) = pages_for cf (length (f_cont f) + length data) \<and> distinct ns
     \<and> set ns \<subseteq> free_pages cf st \<and> free_pages cf st' = free_pages cf st - set ns \<and> fh_avail st' = fh_avail st"
proof -
  let ?c = "f_cont f" and ?D = "data_size cf" and ?i = "f_inode f" and ?need = "pages_for cf (length (f_cont f) + length data)"
  have f: "f \<in> set (xs @ f # ys)" by simp
  have dev: "sfs_dev cf st" and super: "pg_magic (pg cf st 0) = SFS_MAGIC_SUPERBLOCK" using inv by (auto simp: sfs_inv_def)
  have ok: "file_ok cf (pg cf st) f" "in_dev cf ?i" using sfs_inv_files [OF inv] by auto
  note D = data_size_bounds [OF dev] and ipage = read_inode_page [OF inv f] and dis = pages_distinct [OF inv f]
  have u: "unat off = length ?c" using content_bound [OF inv f] off by (simp add: unat_of_nat)
  have lp: "length (f_pages f) \<le> SFS_PAGE_COUNT cf"
    using inv dis by (intro distinct_pages_bound) (auto simp: sfs_inv_def)
  have need: "?need < 2 ^ 16" using room lp card_free_bound [of cf st] by (intro bound_16 [OF dev]) linarith
  have need_ge: "length (f_pages f) \<le> ?need"
    using ok(1) by (cases "f_pages f = []") (auto simp: file_ok_def pages_for_def div_le_mono)
  define m where "m = ?need - length (f_pages f)"
  have m: "length (f_pages f) + m = ?need" "m \<le> card (free_pages cf st)" using need_ge room by (auto simp: m_def)
  have uw: "unat (of_nat ?need :: u16) = ?need" "unat (of_nat (length (f_pages f)) :: u16) = length (f_pages f)"
    using need need_ge by (auto simp: unat_of_nat)
  have count: "(if (of_nat ?need :: u16) > of_nat (length (f_pages f))
        then unat (of_nat ?need - of_nat (length (f_pages f)) :: u16) else 0) = m"
    using uw need_ge by (auto simp: word_less_nat_alt unat_sub word_le_nat_alt m_def)
  show ?thesis
  proof (cases "f_pages f = []")
    case True
    then have c: "?c = []" "pg_next_page (pg cf st ?i) = 0" using file_stored(2) [OF inv f] by auto
    have "pg_magic (pg cf st ?i) = SFS_MAGIC_FILE" using ok(1) by (simp add: file_ok_def)
    then obtain ns s1 st' where g: "alloc_pages cf m ?i 0 st = Some (Some (hd ns), s1)"
        "in_dev cf (hd ns)" "sfs_dev cf s1" "write_loop cf (hd ns) (pg_next_page (pg cf s1 (hd ns))) 0 data s1 = Some st'"
        "pg cf st' ?i = overwrite (pg cf st ?i) 1 (le16 (hd ns))"
        "stored cf st' (hd ns) ns data" "length ns = m" "distinct ns" "set ns \<subseteq> free_pages cf st"
        "\<forall>q. q \<noteq> ?i \<and> q \<notin> set ns \<longrightarrow> pg cf st' q = pg cf st q"
        "free_pages cf st' = free_pages cf st - set ns" "fh_avail st' = fh_avail st"
      using first_stored [OF dev super ok(2), of m data] m c True by auto
    have run: "vfs_eeprom_write cf (ee_handle ?i off) data st =
        Some (of_nat (length data), ee_handle ?i (off + of_nat (length data)), st')"
      using c True count g(1-4) u
      by (intro eeprom_write_run [OF ipage, where pa = 0 and lp = ?i and wp = 0 and k = m]) (auto simp: pages_loop.simps)
    have len: "10 \<le> length (pg cf st ?i)" using dev ok(2) by (simp add: sfs_dev_def)
    have ns: "ns \<noteq> []" using g(6) by auto
    have "file_ok cf (pg cf st') (f\<lparr>f_pages := f_pages f @ ns, f_cont := ?c @ data\<rparr>)"
      using g(5,6) ok(1) c True len by (simp add: file_ok_def stored_def)
    moreover have "pg_next_file (pg cf st' ?i) = pg_next_file (pg cf st ?i)" using g(5) len by simp
    moreover have "sfs_dev cf st'" using g(6) by (simp add: stored_def)
    ultimately have "sfs_inv cf (xs @ f\<lparr>f_pages := f_pages f @ ns, f_cont := ?c @ data\<rparr> # ys) st'"
      using g(8-10) True by (intro sfs_inv_update [OF inv]) auto
    then show ?thesis using run g(7-9,11,12) m(1) True by (intro exI [of _ ns] exI [of _ st']) auto
  next
    case False
    let ?qs = "f_pages f" and ?p = "pg_next_page (pg cf st ?i)"
    have st: "stored cf st ?p ?qs ?c" using False file_stored(2) [OF inv f] by simp
    obtain ns s1 st' where g: "alloc_pages cf m (last ?qs) (last ?qs) st = Some (Some (last ?qs), s1)"
        "in_dev cf (last ?qs)" "sfs_dev cf s1"
        "write_loop cf (last ?qs) (pg_next_page (pg cf s1 (last ?qs))) (length ?c mod ?D) data s1 = Some st'"
        "stored cf st' ?p (?qs @ ns) (?c @ data)" "length ns = m" "distinct ns" "set ns \<subseteq> free_pages cf st"
        "\<forall>q. q \<notin> set ?qs \<and> q \<notin> set ns \<longrightarrow> pg cf st' q = pg cf st q"
        "free_pages cf st' = free_pages cf st - set ns" "fh_avail st' = fh_avail st"
      using grow_stored [OF st super _ m] dis by auto
    have l_i: "last ?qs \<noteq> ?i" using dis False by (metis distinct.simps(2) last_in_set)
    have run: "vfs_eeprom_write cf (ee_handle ?i off) data st =
        Some (of_nat (length data), ee_handle ?i (off + of_nat (length data)), st')"
      using pages_loop_end [OF st content_bound [OF inv f], of 0 ?i] count g(1-4) u l_i
      by (intro eeprom_write_run [OF ipage, where pa = "of_nat (length ?qs)" and lp = "last ?qs" and wp = "last ?qs" and k = m]) auto
    have "\<And>q. q \<in> set (pages_of (xs @ f # ys)) \<Longrightarrow> q \<notin> free_pages cf st" using free_not_used [OF inv] by auto
    then have used: "set ns \<inter> insert ?i (set ?qs) = {}" using g(8) by auto
    have i_same: "pg cf st' ?i = pg cf st ?i" using g(9) dis used by auto
    have "file_ok cf (pg cf st') (f\<lparr>f_pages := ?qs @ ns, f_cont := ?c @ data\<rparr>)"
      using g(5) ok(1) i_same by (simp add: file_ok_def stored_def)
    moreover have "sfs_dev cf st'" using g(5) by (simp add: stored_def)
    ultimately have "sfs_inv cf (xs @ f\<lparr>f_pages := ?qs @ ns, f_cont := ?c @ data\<rparr> # ys) st'"
      using g(7-9) dis used i_same by (intro sfs_inv_update [OF inv]) auto
    then show ?thesis using run g(6-8,10,11) m(1) by (intro exI [of _ ns] exI [of _ st']) auto
  qed
qed

subsection \<open>Creating a file\<close>

lemma free_chain:
  assumes "sfs_dev cf st" and "chain (pg cf st) p qs" and "distinct qs" and "\<forall>q\<in>set qs. in_dev cf q"
  shows "\<exists>st'. free_chain cf p st = Some st' \<and> sfs_dev cf st' \<and> (\<forall>q. q \<notin> set qs \<longrightarrow> pg cf st' q = pg cf st q)
     \<and> free_pages cf st' = free_pages cf st \<union> set qs \<and> fh_avail st' = fh_avail st"
  using assms
proof (induction qs arbitrary: p st)
  case Nil
  then show ?case by (auto simp: free_chain.simps)
next
  case (Cons q qs)
  define s where "s = vfs_eeprom_write_page cf q [0, 0, 0, 0] st"
  have q: "in_dev cf q" "p = q" "q \<noteq> 0" using Cons.prems(2,4) by auto
  have ps: "10 \<le> SFS_PAGE_SIZE cf" using Cons.prems(1) by (simp add: sfs_dev_def)
  have dev: "sfs_dev cf s" "fh_avail s = fh_avail st" using Cons.prems(1) q ps by (simp_all add: s_def)
  have pgs: "pg cf s r = (if r = q then overwrite (pg cf st q) 0 [0, 0, 0, 0] else pg cf st r)" for r
    using Cons.prems(1) q ps by (simp add: s_def)
  have len: "10 \<le> length (pg cf st q)" using Cons.prems(1) q ps by simp
  have ch: "chain (pg cf s) (pg_next_page (pg cf st q)) qs"
  proof -
    have "pg cf s r = pg cf st r" if "r \<in> set qs" for r using Cons.prems(3) that pgs [of r] by auto
    then show ?thesis using Cons.prems(2) chain_cong [of qs "pg cf s" "pg cf st"] by simp
  qed
  obtain st' where st': "free_chain cf (pg_next_page (pg cf st q)) s = Some st'" "sfs_dev cf st'"
      "\<forall>r. r \<notin> set qs \<longrightarrow> pg cf st' r = pg cf s r" "free_pages cf st' = free_pages cf s \<union> set qs" "fh_avail st' = fh_avail s"
    using Cons.IH [OF dev(1) ch] Cons.prems(3,4) by auto
  have "free_pages cf s = insert q (free_pages cf st)"
    using len q(1) by (auto simp: free_pages_def pgs sfs_magic_defs)
  moreover have "free_chain cf p st = Some st'"
    using st'(1) Cons.prems(1) q ps by (subst free_chain.simps) (simp add: s_def)
  ultimately show ?case using st' dev pgs by (intro exI [of _ st']) auto
qed

definition valid_name :: "sfs_conf \<Rightarrow> u8 list \<Rightarrow> bool" where
  "valid_name cf name \<longleftrightarrow> length (cstr name) \<le> SFS_PAGE_SIZE cf - 6"

lemma write_file_page:
  assumes "sfs_dev cf st" and "in_dev cf i" and "s = vfs_eeprom_write_page cf i (file_page_bytes cf nf name) st"
  shows "sfs_dev cf s" and "fh_avail s = fh_avail st"
    and "pg cf s q = (if q = i then file_page_bytes cf nf name else pg cf st q)"
    and "free_pages cf s = free_pages cf st - {i}"
proof -
  have ps: "10 \<le> SFS_PAGE_SIZE cf" using assms(1) by (simp add: sfs_dev_def)
  show "sfs_dev cf s" "fh_avail s = fh_avail st" using assms ps by simp_all
  show pg: "pg cf s q = (if q = i then file_page_bytes cf nf name else pg cf st q)" for q
    using assms ps by (simp add: overwrite_full)
  show "free_pages cf s = free_pages cf st - {i}" using ps by (auto simp: free_pages_def pg)
qed

lemma eeprom_create_old:
  assumes inv: "sfs_inv cf (xs @ f # ys) st" and name: "f_name f = cstr name" "valid_name cf name"
  shows "\<exists>st'. vfs_eeprom_create cf name st = Some (malloc_fh (ee_handle (f_inode f) 0) st')
     \<and> sfs_inv cf (xs @ f\<lparr>f_pages := [], f_cont := []\<rparr> # ys) st'
     \<and> free_pages cf st' = free_pages cf st \<union> set (f_pages f) \<and> fh_avail st' = fh_avail st"
proof -
  let ?i = "f_inode f"
  have f: "f \<in> set (xs @ f # ys)" by simp
  have dev: "sfs_dev cf st" using inv by (simp add: sfs_inv_def)
  have ps: "10 \<le> SFS_PAGE_SIZE cf" using dev by (simp add: sfs_dev_def)
  have ok: "file_ok cf (pg cf st) f" "in_dev cf ?i" using sfs_inv_files [OF inv] by auto
  have chain: "chain (pg cf st) (pg_next_page (pg cf st ?i)) (f_pages f)" using ok(1) by (simp add: file_ok_def)
  have dis: "distinct (?i # f_pages f)" by (rule pages_distinct [OF inv f])
  have in_p: "\<forall>q\<in>set (f_pages f). in_dev cf q" using inv by (auto simp: sfs_inv_def)
  obtain s where s: "free_chain cf (pg_next_page (pg cf st ?i)) st = Some s" "sfs_dev cf s"
      "\<forall>q. q \<notin> set (f_pages f) \<longrightarrow> pg cf s q = pg cf st q" "free_pages cf s = free_pages cf st \<union> set (f_pages f)"
      "fh_avail s = fh_avail st"
    using free_chain [OF dev chain _ in_p] dis by auto
  define st' where "st' = vfs_eeprom_write_page cf ?i (file_page_bytes cf (pg_next_file (pg cf st ?i)) name) s"
  note w = write_file_page [OF s(2) ok(2) st'_def]
  have "fst (locate (cstr name) 0 (xs @ f # ys)) = ?i"
    using inv name(1) by (intro locate_some) (auto simp: sfs_inv_def)
  then obtain pr where loc: "vfs_eeprom_find_file cf (Some name) st = Some (?i, pr)"
    using find_file_name [OF inv, of name] by (metis prod.collapse)
  have run: "vfs_eeprom_create cf name st = Some (malloc_fh (ee_handle ?i 0) st')"
    unfolding vfs_eeprom_create_def loc using inode_not_0 [OF inv f] read_inode_page [OF inv f] s(1)
    by (simp add: st'_def)
  have "file_ok cf (pg cf st') (f\<lparr>f_pages := [], f_cont := []\<rparr>)"
    using name ps by (simp add: file_ok_def w(3) valid_name_def)
  then have "sfs_inv cf (xs @ f\<lparr>f_pages := [], f_cont := []\<rparr> # ys) st'"
    using w s(3) ps by (intro sfs_inv_update [OF inv]) auto
  moreover have "?i \<notin> free_pages cf st" using free_not_used [OF inv, of ?i] by auto
  ultimately show ?thesis using run w(2,4) s(4,5) dis by (intro exI [of _ st']) auto
qed

lemma file_chain_snoc:
  "file_chain G p is \<Longrightarrow> (\<And>i. i \<in> set (butlast is) \<Longrightarrow> pg_next_file (H i) = pg_next_file (G i)) \<Longrightarrow> is \<noteq> [] \<Longrightarrow>
   pg_next_file (H (last is)) = n \<Longrightarrow> n \<noteq> 0 \<Longrightarrow> pg_next_file (H n) = 0 \<Longrightarrow> file_chain H p (is @ [n])"
proof (induction "is" arbitrary: p)
  case (Cons i "is")
  then show ?case by (cases "is = []") auto
qed simp

lemma inode_not_page:
  assumes "sfs_inv cf fs st" and "f \<in> set fs" and "g \<in> set fs"
  shows "f_inode f \<notin> set (f_pages g)" and "0 \<notin> set (f_pages g)"
  using assms chain_pages [of "pg cf st" _ "f_pages g" "f_inode f"] pages_of_member [OF assms(3)]
  by (auto simp: sfs_inv_def file_ok_def sfs_magic_defs)

lemma distinct_inodes: "distinct (pages_of fs) \<Longrightarrow> distinct (map f_inode fs)"
proof (induction fs)
  case (Cons f fs)
  then show ?case using pages_of_member by fastforce
qed simp

lemma eeprom_create_new:
  assumes inv: "sfs_inv cf fs st" and name: "cstr name \<notin> f_name ` set fs" "valid_name cf name"
    and free: "free_pages cf st \<noteq> {}"
  shows "\<exists>i st'. vfs_eeprom_create cf name st = Some (malloc_fh (ee_handle i 0) st')
     \<and> sfs_inv cf (fs @ [\<lparr>f_inode = i, f_name = cstr name, f_pages = [], f_cont = []\<rparr>]) st'
     \<and> i \<in> free_pages cf st \<and> free_pages cf st' = free_pages cf st - {i} \<and> fh_avail st' = fh_avail st"
proof -
  have dev: "sfs_dev cf st" and super: "pg_magic (pg cf st 0) = SFS_MAGIC_SUPERBLOCK" using inv by (auto simp: sfs_inv_def)
  have ps: "10 \<le> SFS_PAGE_SIZE cf" using dev by (simp add: sfs_dev_def)
  obtain i where i: "i \<in> free_pages cf st" "i \<noteq> 0" "vfs_eeprom_find_free_page cf 0 st = Some i"
    using find_free_page [OF dev super _ free, of 0] by auto
  have i_dev: "in_dev cf i" using i(1) by (simp add: free_pages_def)
  have i_new: "i \<notin> set (pages_of fs)" using free_not_used(2) [OF inv i(1)] .
  define l where "l = (if fs = [] then 0 else f_inode (last fs))"
  have l_dev: "in_dev cf l" using dev sfs_inv_files [OF inv] by (auto simp: l_def sfs_dev_def)
  have l_in: "l \<in> insert 0 (set (map f_inode fs))" by (auto simp: l_def)
  then have l_i: "l \<noteq> i" using i(2) i_new pages_of_member by fastforce
  define s where "s = vfs_eeprom_write_slice cf l 3 (le16 i) st"
  define st' where "st' = vfs_eeprom_write_page cf i (file_page_bytes cf 0 name) s"
  have s: "sfs_dev cf s" "fh_avail s = fh_avail st" using dev l_dev ps by (simp_all add: s_def)
  have pgs: "pg cf s q = (if q = l then overwrite (pg cf st l) 3 (le16 i) else pg cf st q)" for q
    using dev l_dev ps by (simp add: s_def)
  have len: "10 \<le> length (pg cf st l)" using dev l_dev ps by simp
  note w = write_file_page [OF s(1) i_dev st'_def]
  have pg': "pg cf st' q = (if q = i then file_page_bytes cf 0 name else if q = l then overwrite (pg cf st l) 3 (le16 i) else pg cf st q)" for q
    by (simp add: w(3) pgs)
  have "fst (locate (cstr name) 0 fs) = 0" by (rule locate_none [OF name(1)])
  then obtain pr where loc: "vfs_eeprom_find_file cf (Some name) st = Some (0, pr)"
    using find_file_name [OF inv, of name] by (metis prod.collapse)
  obtain pr' where last: "vfs_eeprom_find_file cf None st = Some (l, pr')"
    using find_file_last [OF inv] by (auto simp: l_def)
  have run: "vfs_eeprom_create cf name st = Some (malloc_fh (ee_handle i 0) st')"
    unfolding vfs_eeprom_create_def loc using i(2,3) last by (simp add: st'_def s_def)
  have same: "pg_magic (pg cf st' q) = pg_magic (pg cf st q) \<and> pg_filename (pg cf st' q) = pg_filename (pg cf st q)
      \<and> pg_next_page (pg cf st' q) = pg_next_page (pg cf st q)" if "q \<noteq> i" for q
    using that len by (simp add: pg')
  have files: "file_ok cf (pg cf st') g" if g: "g \<in> set fs" for g
  proof -
    have no_l: "pg cf st' q = pg cf st q" if "q \<in> set (f_pages g)" for q
    proof -
      have "q \<noteq> l" using that l_in inode_not_page [OF inv _ g] g by auto
      moreover have "q \<noteq> i" using that i_new pages_of_member [OF g] by auto
      ultimately show ?thesis by (simp add: pg')
    qed
    have "f_inode g \<noteq> i" using i_new pages_of_member [OF g] by auto
    then have "file_ok cf (pg cf st') g = file_ok cf (pg cf st) g"
      using no_l same by (intro file_ok_cong) auto
    then show ?thesis using inv g by (simp add: sfs_inv_def)
  qed
  have new_ok: "file_ok cf (pg cf st') \<lparr>f_inode = i, f_name = cstr name, f_pages = [], f_cont = []\<rparr>"
    using ps name(2) by (simp add: file_ok_def pg' valid_name_def)
  have nf: "pg_next_file (pg cf st' q) = (if q = i then 0 else if q = l then i else pg_next_file (pg cf st q))" for q
    using len ps by (simp add: pg')
  have dis: "distinct (map f_inode fs)" "0 \<notin> set (map f_inode fs)"
    using inv distinct_inodes [of fs] pages_of_member by (fastforce simp: sfs_inv_def)+
  have i_inode: "i \<notin> set (map f_inode fs)" using i_new pages_of_member by fastforce
  have "file_chain (pg cf st') (pg_next_file (pg cf st' 0)) (map f_inode fs @ [i])"
  proof (cases "fs = []")
    case True
    then show ?thesis using i(2) by (simp add: nf l_def)
  next
    case False
    have "pg_next_file (pg cf st' j) = pg_next_file (pg cf st j)" if "j \<in> set (butlast (map f_inode fs))" for j
    proof -
      have "j \<noteq> l" using that dis(1) False by (metis append_butlast_last_id distinct_append disjoint_iff l_def last_map list.set_intros(1) map_is_Nil_conv)
      moreover have "j \<noteq> i" using that i_inode in_set_butlastD by metis
      ultimately show ?thesis by (simp add: nf)
    qed
    moreover have "l \<noteq> 0" using False dis(2) by (auto simp: l_def)
    ultimately show ?thesis
      using False inv i(2) l_i by (intro file_chain_snoc [of "pg cf st"]) (auto simp: nf sfs_inv_def l_def last_map)
  qed
  moreover have "pg_magic (pg cf st' 0) = SFS_MAGIC_SUPERBLOCK" using same [of 0] super i(2) by simp
  ultimately have "sfs_inv cf (fs @ [\<lparr>f_inode = i, f_name = cstr name, f_pages = [], f_cont = []\<rparr>]) st'"
    using w(1) files new_ok inv name(1) i_new i(2) i_dev by (auto simp: sfs_inv_def)
  moreover have "pg_magic (pg cf st l) \<in> {SFS_MAGIC_SUPERBLOCK, SFS_MAGIC_FILE}"
    using super sfs_inv_files [OF inv] by (auto simp: l_def file_ok_def)
  then have "free_pages cf s = free_pages cf st" using len by (auto simp: free_pages_def pgs)
  ultimately show ?thesis using run w(2,4) s(2) i(1) by (intro exI [of _ i] exI [of _ st']) auto
qed

lemma eeprom_create_full:
  assumes inv: "sfs_inv cf fs st" and name: "cstr name \<notin> f_name ` set fs" and full: "free_pages cf st = {}"
  shows "vfs_eeprom_create cf name st = Some (None, st)"
proof -
  have dev: "sfs_dev cf st" using inv by (simp add: sfs_inv_def)
  have "fst (locate (cstr name) 0 fs) = 0" by (rule locate_none [OF name(1)])
  then obtain pr where loc: "vfs_eeprom_find_file cf (Some name) st = Some (0, pr)"
    using find_file_name [OF inv, of name] by (metis prod.collapse)
  define u :: u16 where "u = of_nat (SFS_PAGE_COUNT cf - 1)"
  have u: "unat u = SFS_PAGE_COUNT cf - 1" using page_count_bound [OF dev] by (simp add: u_def unat_of_nat)
  have pos: "0 < SFS_PAGE_COUNT cf" using dev by (simp add: sfs_dev_def)
  have "find_free_loop cf 0 0 st = find_free_loop cf 0 u st"
    using dev u pos full by (intro find_free_scan) auto
  also have "\<dots> = Some 0" using find_free_next [OF dev, of u 0] full u pos by simp
  finally show ?thesis by (simp add: vfs_eeprom_create_def loc vfs_eeprom_find_free_page_def)
qed

subsection \<open>Removing a file\<close>

lemma locate_split:
  "distinct (map f_name (xs @ f # ys)) \<Longrightarrow>
     locate (f_name f) prev (xs @ f # ys) = (f_inode f, if xs = [] then prev else f_inode (last xs))"
  by (induction xs arbitrary: prev) auto

lemma unlink_loop:
  assumes "sfs_dev cf st" and "chain (pg cf st) p qs" and "\<forall>q\<in>set qs. in_dev cf q" and "in_dev cf i" and "i \<notin> set qs"
    and "pg cf st i = replicate (SFS_PAGE_SIZE cf) 0"
  shows "\<exists>st'. unlink_loop cf i p st = Some st' \<and> sfs_dev cf st' \<and> (\<forall>q. pg cf st' q = pg cf st q) \<and> fh_avail st' = fh_avail st"
  using assms
proof (induction qs arbitrary: p st)
  case Nil
  then show ?case by (auto simp: unlink_loop.simps)
next
  case (Cons q qs)
  have ps: "10 \<le> SFS_PAGE_SIZE cf" using Cons.prems(1) by (simp add: sfs_dev_def)
  define s where "s = vfs_eeprom_write_page cf i (replicate (SFS_PAGE_SIZE cf) 0) st"
  have s: "sfs_dev cf s" "fh_avail s = fh_avail st" using Cons.prems(1,4) ps by (simp_all add: s_def)
  have same: "pg cf s r = pg cf st r" for r
    using Cons.prems(1,4,6) ps by (simp add: s_def overwrite_full)
  then have "pg cf s = pg cf st" by auto
  then obtain st' where st': "unlink_loop cf i (pg_next_page (pg cf st q)) s = Some st'" "sfs_dev cf st'"
      "\<forall>r. pg cf st' r = pg cf s r" "fh_avail st' = fh_avail s"
    using Cons.IH [OF s(1), of "pg_next_page (pg cf st q)"] Cons.prems by auto
  moreover have "unlink_loop cf i p st = Some st'"
    using st'(1) Cons.prems(1,2,3) ps by (subst unlink_loop.simps) (auto simp: s_def)
  ultimately show ?case using s(2) same by auto
qed

lemma file_chain_remove:
  "file_chain G p (is @ i # js) \<Longrightarrow> distinct (is @ i # js) \<Longrightarrow>
   (\<And>k. k \<in> set (is @ js) \<Longrightarrow> k \<noteq> last is \<or> is = [] \<Longrightarrow> pg_next_file (H k) = pg_next_file (G k)) \<Longrightarrow>
   (is \<noteq> [] \<Longrightarrow> pg_next_file (H (last is)) = pg_next_file (G i)) \<Longrightarrow>
   file_chain H (if is = [] then pg_next_file (G i) else p) (is @ js)"
proof (induction "is" arbitrary: p)
  case Nil
  then show ?case using file_chain_cong [of js H G] by auto
next
  case (Cons k ks)
  show ?case
  proof (cases "ks = []")
    case True
    then show ?thesis using Cons.prems file_chain_cong [of js H G] by auto
  next
    case False
    then have "pg_next_file (H k) = pg_next_file (G k)"
      using Cons.prems(2,3) by (metis append_Cons distinct.simps(2) in_set_conv_decomp last.simps last_in_set list.set_intros(1) Un_iff set_append)
    moreover have "file_chain H (pg_next_file (G k)) (ks @ js)"
      using False Cons.IH [of "pg_next_file (G k)"] Cons.prems by auto
    ultimately show ?thesis using Cons.prems(1) by simp
  qed
qed

lemma eeprom_unlink_found:
  assumes inv: "sfs_inv cf (xs @ f # ys) st" and name: "f_name f = cstr name"
  shows "\<exists>st'. vfs_eeprom_unlink cf name st = Some (0, st') \<and> sfs_inv cf (xs @ ys) st'
     \<and> free_pages cf st' = insert (f_inode f) (free_pages cf st) \<and> fh_avail st' = fh_avail st"
proof -
  let ?i = "f_inode f" and ?fs = "xs @ f # ys"
  have f: "f \<in> set ?fs" by simp
  have dev: "sfs_dev cf st" and super: "pg_magic (pg cf st 0) = SFS_MAGIC_SUPERBLOCK" using inv by (auto simp: sfs_inv_def)
  have ps: "10 \<le> SFS_PAGE_SIZE cf" using dev by (simp add: sfs_dev_def)
  have ok: "file_ok cf (pg cf st) f" "in_dev cf ?i" using sfs_inv_files [OF inv] by auto
  define l where "l = (if xs = [] then 0 else f_inode (last xs))"
  have l_dev: "in_dev cf l" using dev sfs_inv_files [OF inv] by (auto simp: l_def sfs_dev_def)
  have dis: "distinct (0 # pages_of ?fs)" using inv by (simp add: sfs_inv_def)
  have inodes: "distinct (map f_inode ?fs)" using distinct_inodes dis by (metis distinct.simps(2))
  have l_in: "l \<in> insert 0 (f_inode ` set xs)" by (auto simp: l_def)
  have l_i: "l \<noteq> ?i" using l_in inode_not_0 [OF inv f] inodes by auto
  define prev where "prev = pg cf st l"
  define s1 where "s1 = vfs_eeprom_write_page cf l (take 3 prev @ le16 (pg_next_file (pg cf st ?i)) @ drop 5 prev) st"
  define s2 where "s2 = vfs_eeprom_write_page cf ?i (replicate (SFS_PAGE_SIZE cf) 0) s1"
  have len: "length prev = SFS_PAGE_SIZE cf" using dev l_dev by (simp add: prev_def)
  have ow: "take 3 prev @ le16 w @ drop 5 prev = overwrite prev 3 (le16 w)" for w by (simp add: overwrite_def)
  have s1: "sfs_dev cf s1" "fh_avail s1 = fh_avail st"
    "pg cf s1 q = (if q = l then overwrite prev 3 (le16 (pg_next_file (pg cf st ?i))) else pg cf st q)" for q
    using dev l_dev len ps unfolding s1_def ow by (simp_all add: overwrite_full prev_def)
  have s2: "sfs_dev cf s2" "fh_avail s2 = fh_avail st" using s1(1,2) ok(2) ps by (simp_all add: s2_def)
  have pg2: "pg cf s2 q = (if q = ?i then replicate (SFS_PAGE_SIZE cf) 0 else if q = l
      then overwrite prev 3 (le16 (pg_next_file (pg cf st ?i))) else pg cf st q)" for q
    using s1 ok(2) ps l_i dev by (simp add: s2_def overwrite_full)
  have pages: "q \<noteq> ?i \<and> q \<noteq> l" if "q \<in> set (f_pages g)" "g \<in> set ?fs" for q g
    using that inode_not_page [OF inv _ that(2)] l_in by auto
  have chain: "chain (pg cf s2) (pg_next_page (pg cf st ?i)) (f_pages f)"
    using ok(1) chain_cong [of "f_pages f" "pg cf s2" "pg cf st"] pages [OF _ f] by (auto simp: pg2 file_ok_def)
  obtain st' where st': "unlink_loop cf ?i (pg_next_page (pg cf st ?i)) s2 = Some st'" "sfs_dev cf st'"
      "\<forall>q. pg cf st' q = pg cf s2 q" "fh_avail st' = fh_avail s2"
    using unlink_loop [OF s2(1) chain _ ok(2)] pages [OF _ f] inv by (fastforce simp: sfs_inv_def pg2)
  have loc: "vfs_eeprom_find_file cf (Some name) st = Some (?i, l)"
    using find_file_name [OF inv, of name] locate_split [of xs f ys 0] inv name by (simp add: sfs_inv_def l_def)
  have run: "vfs_eeprom_unlink cf name st = Some (0, st')"
    using st'(1) read_inode_page [OF inv f] inode_not_0 [OF inv f] dev l_dev ps
    by (simp add: vfs_eeprom_unlink_def loc s2_def s1_def prev_def)
  have pg': "pg cf st' q = pg cf s2 q" for q using st'(3) by simp
  have fields: "pg_magic (pg cf st' q) = pg_magic (pg cf st q) \<and> pg_filename (pg cf st' q) = pg_filename (pg cf st q)
      \<and> pg_next_page (pg cf st' q) = pg_next_page (pg cf st q)" if "q \<noteq> ?i" for q
    using that len ps by (simp add: pg' pg2 prev_def)
  have nf: "pg_next_file (pg cf st' q) = (if q = l then pg_next_file (pg cf st ?i) else pg_next_file (pg cf st q))" if "q \<noteq> ?i" for q
    using that len ps by (simp add: pg' pg2)
  have files: "file_ok cf (pg cf st') g" if g: "g \<in> set (xs @ ys)" for g
  proof -
    have g': "g \<in> set ?fs" using g by auto
    have "f_inode g \<noteq> ?i" using g inodes by (simp, metis image_eqI)
    then have "file_ok cf (pg cf st') g = file_ok cf (pg cf st) g"
      using fields pages [OF _ g'] by (intro file_ok_cong) (auto simp: pg' pg2)
    then show ?thesis using inv g by (auto simp: sfs_inv_def)
  qed
  have "file_chain (pg cf st') (if map f_inode xs = [] then pg_next_file (pg cf st ?i) else pg_next_file (pg cf st 0))
      (map f_inode xs @ map f_inode ys)"
  proof (rule file_chain_remove)
    show "file_chain (pg cf st) (pg_next_file (pg cf st 0)) (map f_inode xs @ ?i # map f_inode ys)"
      using inv by (simp add: sfs_inv_def)
    show "distinct (map f_inode xs @ ?i # map f_inode ys)" using inodes by simp
    show "pg_next_file (pg cf st' k) = pg_next_file (pg cf st k)"
      if "k \<in> set (map f_inode xs @ map f_inode ys)" "k \<noteq> last (map f_inode xs) \<or> map f_inode xs = []" for k
    proof -
      have "k \<noteq> ?i" using that(1) inodes by auto
      moreover have "k \<noteq> 0" using that(1) inode_not_0 [OF inv] by fastforce
      ultimately have "k \<noteq> l" using that(2) by (auto simp: l_def last_map)
      then show ?thesis using nf [OF \<open>k \<noteq> ?i\<close>] by simp
    qed
    show "map f_inode xs \<noteq> [] \<Longrightarrow> pg_next_file (pg cf st' (last (map f_inode xs))) = pg_next_file (pg cf st ?i)"
      using nf [of l] l_i by (simp add: l_def last_map)
  qed
  moreover have "pg_next_file (pg cf st' 0) = (if xs = [] then pg_next_file (pg cf st ?i) else pg_next_file (pg cf st 0))"
    using nf [of 0] inode_not_0 [OF inv] by (auto simp: l_def)
  ultimately have "sfs_inv cf (xs @ ys) st'"
    using inv st'(2) files dis fields [of 0] super inode_not_0 [OF inv f] by (auto simp: sfs_inv_def)
  moreover have "pg_magic (pg cf st' ?i) = 0" using ps by (simp add: pg' pg2 pg_magic_def)
  then have magic: "pg_magic (pg cf st' q) = (if q = ?i then 0 else pg_magic (pg cf st q))" for q
    using fields [of q] by auto
  have "free_pages cf st' = insert ?i (free_pages cf st)"
    using ok(2) by (auto simp: free_pages_def sfs_magic_defs magic)
  ultimately show ?thesis using run st'(4) s2(2) by auto
qed

lemma eeprom_unlink_missing:
  assumes "sfs_inv cf fs st" and "cstr name \<notin> f_name ` set fs"
  shows "vfs_eeprom_unlink cf name st = Some (1, st)"
  using assms find_file_name [OF assms(1), of name] locate_none [OF assms(2), of 0]
  by (auto simp: vfs_eeprom_unlink_def split: prod.splits)

subsection \<open>Formatting\<close>

lemma clear_pages:
  assumes "sfs_dev cf st"
  shows "sfs_dev cf (clear_pages cf st)" and "fh_avail (clear_pages cf st) = fh_avail st"
    and "pg cf (clear_pages cf st) 0 = pg cf st 0"
    and "in_dev cf p \<Longrightarrow> p \<noteq> 0 \<Longrightarrow> pg_magic (pg cf (clear_pages cf st) p) = 0"
proof -
  define w where "w = (\<lambda>st count. vfs_eeprom_write_page cf (of_nat count) [0] st)"
  have ps: "10 \<le> SFS_PAGE_SIZE cf" using assms by (simp add: sfs_dev_def)
  have un: "unat (of_nat k :: u16) = k" if "k < SFS_PAGE_COUNT cf" for k
    using that page_count_bound [OF assms] by (simp add: unat_of_nat)
  have step: "sfs_dev cf (w s k)" "fh_avail (w s k) = fh_avail s"
      "pg cf (w s k) q = (if unat q = k then overwrite (pg cf s q) 0 [0] else pg cf s q)"
    if "sfs_dev cf s" "k < SFS_PAGE_COUNT cf" for s k q
    using that ps un [OF that(2)] by (auto simp: w_def word_unat_eq_iff)
  have "sfs_dev cf (foldl w s [1..<n]) \<and> fh_avail (foldl w s [1..<n]) = fh_avail s
      \<and> pg cf (foldl w s [1..<n]) 0 = pg cf s 0
      \<and> (\<forall>p. 0 < unat p \<and> unat p < n \<longrightarrow> pg_magic (pg cf (foldl w s [1..<n]) p) = 0)"
    if "sfs_dev cf s" "n \<le> SFS_PAGE_COUNT cf" for s n
    using that(2)
  proof (induction n)
    case (Suc n)
    let ?t = "foldl w s [1..<n]"
    show ?case
    proof (cases "n = 0")
      case False
      have t: "sfs_dev cf ?t" "fh_avail ?t = fh_avail s" "pg cf ?t 0 = pg cf s 0" "n < SFS_PAGE_COUNT cf"
          "\<forall>p. 0 < unat p \<and> unat p < n \<longrightarrow> pg_magic (pg cf ?t p) = 0"
        using Suc by auto
      note st = step [OF t(1) t(4)]
      have "pg_magic (pg cf (w ?t n) p) = 0" if "0 < unat p \<and> unat p < Suc n" for p
      proof (cases "unat p = n")
        case True
        then have "1 \<le> length (pg cf ?t p)" using t ps by simp
        moreover have "pg cf (w ?t n) p = overwrite (pg cf ?t p) 0 [0]" using st(3) [of p] True by simp
        ultimately show ?thesis by (simp add: pg_magic_def overwrite_def)
      next
        case False
        then show ?thesis using that t(5) st(3) [of p] by simp
      qed
      moreover have "foldl w s [1..<Suc n] = w ?t n" using False by simp
      ultimately show ?thesis using st t False by simp
    qed (use that in auto)
  qed (use that in simp)
  from this [OF assms, of "SFS_PAGE_COUNT cf"]
  show "sfs_dev cf (clear_pages cf st)" "fh_avail (clear_pages cf st) = fh_avail st"
    "pg cf (clear_pages cf st) 0 = pg cf st 0"
    "in_dev cf p \<Longrightarrow> p \<noteq> 0 \<Longrightarrow> pg_magic (pg cf (clear_pages cf st) p) = 0"
    by (auto simp: clear_pages_def w_def unat_gt_0)
qed

definition formatted :: "sfs_conf \<Rightarrow> sfs_state \<Rightarrow> bool" where
  "formatted cf st \<longleftrightarrow>
     pg_magic (pg cf st 0) = SFS_MAGIC_SUPERBLOCK \<and> get16 (pg cf st 0) 5 = 0xdead \<and> get16 (pg cf st 0) 7 = 0xbeef
     \<and> pg cf st 0 ! 9 = SFS_VERSION"

lemma eeprom_init:
  assumes dev: "sfs_dev cf st"
  shows "\<exists>st'. vfs_eeprom_init cf st = Some st' \<and> fh_avail st' = fh_avail st
     \<and> (if formatted cf st then st' = st
        else sfs_inv cf [] st' \<and> formatted cf st' \<and> free_pages cf st' = {p. in_dev cf p \<and> p \<noteq> 0})"
proof -
  have ps: "10 \<le> SFS_PAGE_SIZE cf" "in_dev cf 0" using dev by (auto simp: sfs_dev_def)
  have sb: "vfs_eeprom_read_page cf 0 10 st = Some (take 10 (pg cf st 0))" using dev ps by simp
  define s where "s = vfs_eeprom_write_page cf 0 (superblock_bytes 0 0) st"
  have len: "length (superblock_bytes 0 0) = 10" by (simp add: superblock_bytes_def)
  have s: "sfs_dev cf s" "fh_avail s = fh_avail st" using dev ps len by (simp_all add: s_def)
  have "pg cf s 0 = overwrite (pg cf st 0) 0 (superblock_bytes 0 0)" using dev ps len by (simp add: s_def)
  then have pg0: "pg cf s 0 = superblock_bytes 0 0 @ drop 10 (pg cf st 0)" using len by (simp add: overwrite_def)
  note c = clear_pages [OF s(1)]
  have f: "formatted cf (clear_pages cf s)" "pg_next_file (pg cf (clear_pages cf s) 0) = 0"
    "pg_magic (pg cf (clear_pages cf s) 0) = SFS_MAGIC_SUPERBLOCK"
    unfolding formatted_def c(3) pg0
    by (simp_all add: superblock_bytes_def pg_magic_def pg_next_file_def get16_def le16_def SFS_VERSION_def)
  then have "sfs_inv cf [] (clear_pages cf s)" using c(1) by (simp add: sfs_inv_def)
  moreover have "free_pages cf (clear_pages cf s) = {p. in_dev cf p \<and> p \<noteq> 0}"
    using c(4) f(3) by (auto simp: free_pages_def sfs_magic_defs)
  moreover have "vfs_eeprom_init cf st = Some (if formatted cf st then st else clear_pages cf s)"
    unfolding vfs_eeprom_init_def sb by (simp add: formatted_def s_def)
  ultimately show ?thesis using f(1) c(2) s(2) by auto
qed

end
