(* ===== verification/E6_VfsInline.thy ===== *)
theory E6_VfsInline
  imports E6_Vfs E6_Crc
begin

text \<open>
  Files in the program memory: the host tool \<^verbatim>\<open>core/vfs/vfs-concat.c\<close> appends a file to a firmware
  image, and \<^verbatim>\<open>core/vfs/vfs_inline.c\<close> finds it on the device.  A file starts on a page of the
  flash with a magic byte and a node: the name, the length and a checksum of both.
  \<^verbatim>\<open>__pgm_read_byte\<close> is the function \<open>flash\<close>; the checksum update of avr-libc is the parameter \<open>upd\<close>
  of \<open>crc_checksum\<close>.
\<close>

subsection \<open>The device\<close>

record flash_conf =
  FLASHEND :: u32
  SPM_PAGESIZE :: u32
  flash :: "nat \<Rightarrow> u8"
  crc_upd :: "u8 \<Rightarrow> u8 \<Rightarrow> u8"

definition VFS_INLINE_MAGIC :: u8 where "VFS_INLINE_MAGIC = 0x23"
definition VFS_INLINE_FNLEN :: nat where "VFS_INLINE_FNLEN = 6"

text \<open>\<^verbatim>\<open>union vfs_inline_node_t\<close>: six bytes of name, the length low byte first, the checksum.\<close>

definition node_bytes :: "u8 list \<Rightarrow> u16 \<Rightarrow> u8 \<Rightarrow> u8 list" where
  "node_bytes fn len crc = fn @ [ucast len, ucast (drop_bit 8 len), crc]"

definition node_len :: "u8 list \<Rightarrow> u16" where
  "node_len raw = ucast (raw ! 6) OR push_bit 8 (ucast (raw ! 7))"

definition strncmp_eq :: "u8 list \<Rightarrow> u8 list \<Rightarrow> nat \<Rightarrow> bool" where
  "strncmp_eq a b n \<longleftrightarrow> take n (cstr a) = take n (cstr b)"

definition read_node :: "flash_conf \<Rightarrow> u32 \<Rightarrow> u8 list" where
  "read_node fc off = map (\<lambda>i. flash fc (unat off + i + 1)) [0..<9]"

definition inline_match :: "flash_conf \<Rightarrow> u8 list \<Rightarrow> u32 \<Rightarrow> bool" where
  "inline_match fc filename off \<longleftrightarrow>
     flash fc (unat off) = VFS_INLINE_MAGIC
     \<and> read_node fc off ! 8 = crc_checksum (crc_upd fc) (read_node fc off) 8
     \<and> strncmp_eq (take VFS_INLINE_FNLEN (read_node fc off)) filename VFS_INLINE_FNLEN"

definition il_handle :: "u32 \<Rightarrow> u16 \<Rightarrow> u16 \<Rightarrow> handle" where
  "il_handle off pos len = \<lparr>fh_type = VFS_INLINE, fh_u = U_il \<lparr>il_offset = off, il_pos = pos, il_len = len\<rparr>\<rparr>"

text \<open>The search goes downwards from the last page; page 0 is not looked at.\<close>

partial_function (option) inline_open_loop ::
    "flash_conf \<Rightarrow> u8 list \<Rightarrow> u32 \<Rightarrow> 'a vfs_heap_scheme \<Rightarrow> (handle option \<times> 'a vfs_heap_scheme) option" where
  "inline_open_loop fc filename off st =
     (if off = 0 then Some (None, st)
      else if inline_match fc filename off
      then Some (malloc_fh (il_handle (off + 9 + 1) 0 (node_len (read_node fc off))) st)
      else inline_open_loop fc filename (off - SPM_PAGESIZE fc) st)"

declare inline_open_loop.simps [code]

definition vfs_inline_open ::
    "flash_conf \<Rightarrow> u8 list \<Rightarrow> 'a vfs_heap_scheme \<Rightarrow> (handle option \<times> 'a vfs_heap_scheme) option" where
  "vfs_inline_open fc filename st = inline_open_loop fc filename (FLASHEND fc - SPM_PAGESIZE fc + 1) st"

definition vfs_inline_close :: "handle \<Rightarrow> 'a vfs_heap_scheme \<Rightarrow> 'a vfs_heap_scheme option" where
  "vfs_inline_close fh st = Some (free_fh st)"

fun il_of :: "vfs_file_handle_u \<Rightarrow> vfs_file_handle_inline_t option" where
  "il_of (U_il e) = Some e"
| "il_of (U_ee e) = None"

definition vfs_inline_read ::
    "flash_conf \<Rightarrow> handle \<Rightarrow> u32 \<Rightarrow> 's \<Rightarrow> (u32 \<times> u8 list \<times> handle \<times> 's) option" where
  "vfs_inline_read fc fh n st =
     do {
       e \<leftarrow> il_of (fh_u fh);
       let len = (ucast (il_len e - il_pos e) :: u32);
       let len = (if n < len then n else len);
       Some (len, map (\<lambda>i. flash fc (unat (il_offset e + ucast (il_pos e) + of_nat i))) [0..<unat len],
             il_handle (il_offset e) (il_pos e + ucast len) (il_len e), st)
     }"

definition vfs_inline_fseek :: "handle \<Rightarrow> u32 \<Rightarrow> u8 \<Rightarrow> 's \<Rightarrow> (u8 \<times> handle \<times> 's) option" where
  "vfs_inline_fseek fh off whence st =
     do {
       e \<leftarrow> il_of (fh_u fh);
       case (if whence = SEEK_SET then Some off
             else if whence = SEEK_CUR then Some (ucast (il_pos e) + off)
             else if whence = SEEK_END then Some (ucast (il_len e) + off)
             else None) of
         None \<Rightarrow> Some (-1, fh, st)
       | Some new_pos \<Rightarrow>
           if new_pos > ucast (il_len e) then Some (-1, fh, st)
           else Some (0, il_handle (il_offset e) (ucast new_pos) (il_len e), st)
     }"

definition vfs_inline_size :: "handle \<Rightarrow> 's \<Rightarrow> u32 option" where
  "vfs_inline_size fh st = do { e \<leftarrow> il_of (fh_u fh); Some (ucast (il_len e)) }"

definition VFS_INLINE_FUNCS :: "flash_conf \<Rightarrow> (vfs_file_handle_u, 'a vfs_heap_scheme) vfs_func_t" where
  "VFS_INLINE_FUNCS fc =
     \<lparr>vf_open = Some (vfs_inline_open fc), vf_close = Some vfs_inline_close,
      vf_read = Some (vfs_inline_read fc), vf_write = None,
      vf_fseek = Some vfs_inline_fseek, vf_truncate = None,
      vf_create = None, vf_unlink = None, vf_size = Some vfs_inline_size\<rparr>"

subsection \<open>The host tool\<close>

definition MAX_IMAGE_SIZE :: nat where "MAX_IMAGE_SIZE = 131072"

text \<open>The part of the path behind the last slash.\<close>

function strip_path :: "u8 list \<Rightarrow> u8 list" where
  "strip_path path =
     (if ch_slash \<in> set path then strip_path (tl (dropWhile (\<lambda>x. x \<noteq> ch_slash) path)) else path)"
  by auto
termination
  by (relation "measure length") (auto simp: dropWhile_eq_drop intro: diff_less dest: length_pos_if_in_set)

declare strip_path.simps [simp del]

text \<open>The input is the compressed file \<^verbatim>\<open>.gz\<close>, if there is one.\<close>

definition open_input :: "(u8 list \<Rightarrow> u8 list option) \<Rightarrow> u8 list \<Rightarrow> u8 list option" where
  "open_input fs file_name = (case fs (file_name @ [46, 103, 122]) of Some c \<Rightarrow> Some c | None \<Rightarrow> fs file_name)"

text \<open>
  \<^verbatim>\<open>main\<close>: \<open>fs\<close> gives the contents of the files of the host.  The result is the exit status and
  what is written to the standard output.  \<open>pagesz\<close> is the value of \<^verbatim>\<open>atoi\<close>.
\<close>

definition vfs_concat :: "(u8 list \<Rightarrow> u8 list option) \<Rightarrow> u8 list \<Rightarrow> int \<Rightarrow> u8 list \<Rightarrow> int \<times> u8 list" where
  "vfs_concat fs image_name pagesz file_name =
     (if pagesz = 0 \<or> odd pagesz \<or> pagesz < 64 \<or> 256 < pagesz then (1, [])
      else case fs image_name of None \<Rightarrow> (1, [])
      | Some img \<Rightarrow>
          (case open_input fs file_name of
             None \<Rightarrow> (1, [])
           | Some content \<Rightarrow>
               let img = take MAX_IMAGE_SIZE img;
                   content = take MAX_IMAGE_SIZE content;
                   pad = (nat pagesz - length img mod nat pagesz) mod nat pagesz;
                   out = img @ replicate pad 0xFF;
                   name = strip_path file_name
               in if length name > VFS_INLINE_FNLEN then (1, out)
                  else
                    let fn = strncpy name VFS_INLINE_FNLEN;
                        len = of_nat (length content);
                        crc = crc_calc (node_bytes fn len 0) 8
                    in (0, out @ [VFS_INLINE_MAGIC] @ node_bytes fn len crc @ content)))"

subsection \<open>Reading and seeking\<close>

text \<open>The bytes \<open>c\<close> are in the flash at \<open>off\<close>.\<close>

definition flash_has :: "flash_conf \<Rightarrow> u32 \<Rightarrow> u8 list \<Rightarrow> bool" where
  "flash_has fc off c \<longleftrightarrow>
     unat off + length c < 2 ^ 32 \<and> length c < 2 ^ 16 \<and> (\<forall>i<length c. flash fc (unat off + i) = c ! i)"

lemma il_of_handle [simp]: "il_of (fh_u (il_handle off pos len)) = Some \<lparr>il_offset = off, il_pos = pos, il_len = len\<rparr>"
  by (simp add: il_handle_def)

lemma ucast_16_32: "n < 2 ^ 16 \<Longrightarrow> (ucast (of_nat n :: u16) :: u32) = of_nat n" "n < 2 ^ 16 \<Longrightarrow> (ucast (of_nat n :: u32) :: u16) = of_nat n"
  by (simp_all add: word_unat_eq_iff unat_of_nat unsigned_ucast_eq take_bit_nat_eq_self)

lemma inline_read:
  assumes "flash_has fc off c" and "pos \<le> length c"
  shows "vfs_inline_read fc (il_handle off (of_nat pos) (of_nat (length c))) n st =
    (let r = take (unat n) (drop pos c)
     in Some (of_nat (length r), r, il_handle off (of_nat (pos + length r)) (of_nat (length c)), st))"
proof -
  have len: "length c < 2 ^ 16" "unat off + length c < 2 ^ 32" using assms(1) by (auto simp: flash_has_def)
  have rest: "(ucast (of_nat (length c) - of_nat pos :: u16) :: u32) = of_nat (length c - pos)"
    using len(1) assms(2) ucast_16_32(1) [of "length c - pos"] by simp
  define r where "r = take (unat n) (drop pos c)"
  have lr: "length r \<le> length c - pos" "pos + length r \<le> length c" "length r < 2 ^ 16"
    using assms(2) len(1) by (auto simp: r_def)
  have n: "(if n < of_nat (length c - pos) then n else of_nat (length c - pos)) = (of_nat (length r) :: u32)"
    using len(1) by (auto simp: r_def word_less_nat_alt unat_of_nat min_def)
  have u: "unat (of_nat (length r) :: u32) = length r" using lr(3) by (simp add: unat_of_nat)
  have "flash fc (unat (off + of_nat pos + of_nat i)) = r ! i" if "i < length r" for i
  proof -
    have i: "pos + i < length c" using that lr by linarith
    then have "unat (off + of_nat pos + of_nat i) = unat off + (pos + i)"
      using len by (simp add: unat_word_ariths unat_of_nat)
    then show ?thesis using assms(1) i that by (simp add: flash_has_def r_def)
  qed
  then have "map (\<lambda>i. flash fc (unat (off + of_nat pos + of_nat i))) [0..<length r] = r"
    by (intro nth_equalityI) auto
  then show ?thesis
    using len(1) lr(3) assms(2) ucast_16_32(1) [of pos] ucast_16_32(2) [of "length r"]
    unfolding vfs_inline_read_def il_of_handle Option.bind.bind_lunit vfs_file_handle_inline_t.select_convs rest Let_def n
      r_def [symmetric] u by simp
qed

lemma inline_seek:
  fixes whence :: u8
  assumes "pos \<le> len" and "len < 2 ^ 16"
    and base: "base = (if whence = SEEK_SET then 0 else if whence = SEEK_CUR then pos else len)"
  shows "vfs_inline_fseek (il_handle off (of_nat pos) (of_nat len)) d whence st =
    (let new = (base + unat d) mod 2 ^ 32
     in if whence \<le> SEEK_END \<and> new \<le> len then Some (0, il_handle off (of_nat new) (of_nat len), st)
        else Some (-1, il_handle off (of_nat pos) (of_nat len), st))"
proof -
  have w: "whence \<le> SEEK_END \<longleftrightarrow> whence = SEEK_SET \<or> whence = SEEK_CUR \<or> whence = SEEK_END"
    by (auto simp: seek_defs word_le_nat_alt word_unat_eq_iff)
  define new where "new = (of_nat base :: u32) + d"
  have un: "unat new = (base + unat d) mod 2 ^ 32"
    using assms by (simp add: new_def unat_word_ariths unat_of_nat mod_simps)
  have le: "\<not> of_nat len < new \<longleftrightarrow> unat new \<le> len" using assms(2) by (simp add: word_less_nat_alt unat_of_nat not_less)
  have case_new: "(if whence = SEEK_SET then Some d else if whence = SEEK_CUR then Some (of_nat pos + d)
      else if whence = SEEK_END then Some (of_nat len + d) else None) = (if whence \<le> SEEK_END then Some new else None)"
    unfolding w new_def base by (auto simp: seek_defs)
  have pl: "(ucast (of_nat pos :: u16) :: u32) = of_nat pos" "(ucast (of_nat len :: u16) :: u32) = of_nat len"
    using assms(1,2) ucast_16_32(1) by auto
  show ?thesis
    unfolding vfs_inline_fseek_def il_of_handle Option.bind.bind_lunit vfs_file_handle_inline_t.select_convs pl case_new
      un [symmetric] Let_def
    using le by (cases "whence \<le> SEEK_END"; cases "unat new \<le> len") simp_all
qed

subsection \<open>Finding an appended file\<close>

lemma node_fields:
  assumes "length fn = 6"
  shows "node_len (node_bytes fn len crc) = len" and "node_bytes fn len crc ! 8 = crc"
    and "take 6 (node_bytes fn len crc) = fn" and "take 8 (node_bytes fn len crc) = take 8 (node_bytes fn len crc')"
    and "length (node_bytes fn len crc) = 9"
proof -
  have "ucast (ucast len :: u8) OR push_bit 8 (ucast (ucast (drop_bit 8 len) :: u8)) = len"
    by (rule bit_word_eqI) (auto simp: bit_simps)
  then show "node_len (node_bytes fn len crc) = len" using assms by (simp add: node_len_def node_bytes_def nth_append)
qed (use assms in \<open>simp_all add: node_bytes_def nth_append\<close>)

lemma inline_open_scan:
  assumes "unat off = k * unat (SPM_PAGESIZE fc)" and "j \<le> k" and "0 < unat (SPM_PAGESIZE fc)"
    and "\<And>i. j < i \<Longrightarrow> i \<le> k \<Longrightarrow> \<not> inline_match fc name (of_nat (i * unat (SPM_PAGESIZE fc)))"
  shows "inline_open_loop fc name off st = inline_open_loop fc name (of_nat (j * unat (SPM_PAGESIZE fc))) st"
  using assms
proof (induction k arbitrary: off)
  case 0
  then have "off = 0" by (simp add: word_unat_eq_iff)
  then show ?case using 0 by simp
next
  case (Suc k)
  let ?s = "unat (SPM_PAGESIZE fc)"
  have off: "off = of_nat (Suc k * ?s)" using Suc.prems(1) by (metis of_nat_unat ucast_id)
  show ?case
  proof (cases "j = Suc k")
    case True
    then show ?thesis using off by simp
  next
    case False
    have "off - SPM_PAGESIZE fc = of_nat (k * ?s)" unfolding off by (simp add: algebra_simps)
    moreover have "unat (off - SPM_PAGESIZE fc) = k * ?s"
      using Suc.prems(1) by (simp add: unat_sub word_le_nat_alt)
    moreover have "off \<noteq> 0" using Suc.prems(1,3) by auto
    moreover have "\<not> inline_match fc name off" unfolding off using Suc.prems(2) False by (intro Suc.prems(4)) auto
    ultimately show ?thesis
      using Suc.IH [of "off - SPM_PAGESIZE fc"] Suc.prems(2-4) False by (subst inline_open_loop.simps) auto
  qed
qed

lemma inline_open_page:
  assumes geometry: "unat (FLASHEND fc) + 1 = pages * unat (SPM_PAGESIZE fc)" "0 < unat (SPM_PAGESIZE fc)"
    and j: "0 < j" "j < pages" and match: "inline_match fc name (of_nat (j * unat (SPM_PAGESIZE fc)))"
    and later: "\<And>i. j < i \<Longrightarrow> i < pages \<Longrightarrow> \<not> inline_match fc name (of_nat (i * unat (SPM_PAGESIZE fc)))"
  shows "vfs_inline_open fc name st =
    Some (malloc_fh (il_handle (of_nat (j * unat (SPM_PAGESIZE fc) + 10)) 0
            (node_len (read_node fc (of_nat (j * unat (SPM_PAGESIZE fc)))))) st)"
proof -
  let ?s = "unat (SPM_PAGESIZE fc)"
  obtain k where k: "pages = Suc k" using j by (cases pages) auto
  have le: "?s \<le> unat (FLASHEND fc) + 1" "unat (FLASHEND fc) + 1 - ?s = k * ?s" using geometry(1) k by auto
  have lt: "k * ?s < 2 ^ 32" using le(2) unsigned_less [of "FLASHEND fc", where ?'a = nat] geometry(2) by simp
  have start: "FLASHEND fc - SPM_PAGESIZE fc + 1 = of_nat (k * ?s)"
    using arg_cong [OF geometry(1), of "of_nat :: nat \<Rightarrow> u32"] k by (simp add: algebra_simps)
  have un: "unat (of_nat (k * ?s) :: u32) = k * ?s" using lt by (simp add: unat_of_nat del: of_nat_mult)
  have "j * ?s \<le> k * ?s" using j(2) k by simp
  then have "j * ?s < 2 ^ 32" using lt by linarith
  then have "unat (of_nat (j * ?s) :: u32) = j * ?s" by (simp add: unat_of_nat del: of_nat_mult)
  then have nz: "(of_nat (j * ?s) :: u32) \<noteq> 0" using j(1) geometry(2) by (metis mult_is_0 not_gr_zero unat_0)
  have "inline_open_loop fc name (of_nat (k * ?s)) st = inline_open_loop fc name (of_nat (j * ?s)) st"
    using un j k geometry(2) later by (intro inline_open_scan) auto
  then show ?thesis
    using match nz unfolding vfs_inline_open_def start by (simp add: inline_open_loop.simps add.assoc)
qed

lemma set_tl_subset: "set (tl xs) \<subseteq> set xs"
  by (cases xs) auto

lemma set_strip_path: "set (strip_path p) \<subseteq> set p"
proof (induction p rule: strip_path.induct)
  case (1 p)
  have "set (tl (dropWhile (\<lambda>x. x \<noteq> 47) p)) \<subseteq> set p"
    using set_tl_subset [of "dropWhile (\<lambda>x. x \<noteq> 47) p"] set_dropWhileD by fastforce
  then show ?case using 1 by (subst strip_path.simps) auto
qed

lemma pad_multiple: "0 < s \<Longrightarrow> (n + (s - n mod s) mod s) mod s = (0::nat)"
  by (metis add.commute add_0 le_add_diff_inverse2 mod_add_left_eq mod_add_right_eq mod_le_divisor mod_mod_trivial mod_self)

lemma concat_output:
  assumes "vfs_concat fs image_name (uint (s :: u32)) file_name = (0, out)" and "open_input fs file_name = Some c"
    and "length c < 2 ^ 16" and "fs image_name = Some img" and "img \<noteq> []"
  shows "\<exists>j img'. out = img' @ [VFS_INLINE_MAGIC] @ node_bytes (strncpy (strip_path file_name) 6) (of_nat (length c))
       (crc_calc (node_bytes (strncpy (strip_path file_name) 6) (of_nat (length c)) 0) 8) @ c
     \<and> length img' = j * unat s \<and> 0 < j \<and> 64 \<le> unat s \<and> length (strip_path file_name) \<le> 6
     \<and> length img' < 2 ^ 18"
proof -
  let ?i = "take MAX_IMAGE_SIZE img"
  define img' where "img' = ?i @ replicate ((unat s - length ?i mod unat s) mod unat s) 0xFF"
  have su: "nat (uint s) = unat s" by simp
  have "\<not> uint s < 64" "\<not> 256 < uint s" using assms(1) by (auto simp: vfs_concat_def split: if_splits)
  then have s: "64 \<le> unat s" "unat s \<le> 256" unfolding su [symmetric] by linarith+
  have c: "take MAX_IMAGE_SIZE c = c" using assms(3) by (simp add: MAX_IMAGE_SIZE_def)
  have "length img' mod unat s = 0" using pad_multiple [of "unat s" "length ?i"] s(1) by (simp add: img'_def)
  then obtain j where j: "length img' = j * unat s" by (metis dvd_imp_mod_0 dvd_def mod_0_imp_dvd mult.commute)
  have "0 < length img'" using assms(5) by (simp add: img'_def MAX_IMAGE_SIZE_def)
  then have "0 < j" using j by (cases j) auto
  moreover have "(unat s - length ?i mod unat s) mod unat s < 256" using s by (metis le_less_trans less_le_trans mod_less_divisor not_le zero_less_numeral gr0I le_zero_eq not_numeral_le_zero linorder_not_less)
  then have "length img' < 2 ^ 18" by (simp add: img'_def MAX_IMAGE_SIZE_def)
  ultimately show ?thesis
    using assms(1,2,4) s j c
    by (auto simp: vfs_concat_def Let_def VFS_INLINE_FNLEN_def img'_def su split: if_splits)
qed

lemma flash_slice:
  assumes "\<forall>i<length out. f i = out ! i" and "out = xs @ ys @ zs"
  shows "map (\<lambda>i. f (length xs + i)) [0..<length ys] = ys"
  using assms by (intro nth_equalityI) (auto simp: nth_append)

lemma concat_found:
  assumes run: "vfs_concat fs image_name (uint (SPM_PAGESIZE fc)) file_name = (0, out)"
    and content: "open_input fs file_name = Some c" "length c < 2 ^ 16" and img: "fs image_name = Some img" "img \<noteq> []"
    and name: "0 \<notin> set file_name" and crc: "crc_upd fc = crc_ibutton_update"
    and geometry: "unat (FLASHEND fc) + 1 = pages * unat (SPM_PAGESIZE fc)" "length out \<le> unat (FLASHEND fc) + 1"
    and flash: "\<forall>i<length out. flash fc i = out ! i"
    and later: "\<forall>i<pages. length out - length c < i * unat (SPM_PAGESIZE fc) \<longrightarrow>
      \<not> inline_match fc (strip_path file_name) (of_nat (i * unat (SPM_PAGESIZE fc)))"
  shows "vfs_inline_open fc (strip_path file_name) st =
      Some (malloc_fh (il_handle (of_nat (length out - length c)) 0 (of_nat (length c))) st)
    \<and> flash_has fc (of_nat (length out - length c)) c"
proof -
  let ?s = "unat (SPM_PAGESIZE fc)" and ?n = "strip_path file_name" and ?len = "of_nat (length c) :: u16"
  let ?fn = "strncpy ?n 6"
  let ?crc = "crc_calc (node_bytes ?fn ?len 0) 8"
  obtain j img' where out: "out = img' @ [VFS_INLINE_MAGIC] @ node_bytes ?fn ?len ?crc @ c"
      and j: "length img' = j * ?s" "0 < j" and s: "64 \<le> ?s" and n6: "length ?n \<le> 6" and small: "length img' < 2 ^ 18"
    using concat_output [OF run content img] by blast
  have fn: "length ?fn = 6" by simp
  have node: "length (node_bytes ?fn ?len ?crc) = 9" using node_fields(5) [OF fn] .
  have len: "length out = j * ?s + 10 + length c" using out j(1) node by simp
  have bound: "length out < 2 ^ 32" using len j(1) small content(2) by simp
  then have js: "unat (of_nat (j * ?s) :: u32) = j * ?s" using len by (simp add: unat_of_nat del: of_nat_mult)
  have off: "unat (of_nat (length out - length c) :: u32) = j * ?s + 10"
    using len bound by (simp add: unat_of_nat del: of_nat_mult of_nat_add)
  have "map (\<lambda>i. flash fc (length (img' @ [VFS_INLINE_MAGIC]) + i)) [0..<length (node_bytes ?fn ?len ?crc)] = node_bytes ?fn ?len ?crc"
    using flash out by (intro flash_slice [where zs = c]) auto
  then have raw: "read_node fc (of_nat (j * ?s)) = node_bytes ?fn ?len ?crc"
    using j(1) js node by (simp add: read_node_def)
  have zero: "0 \<notin> set ?n" using name set_strip_path by blast
  then have "cstr ?n = ?n" by (simp add: cstr_def takeWhile_eq_all_conv) (metis)
  then have fn_n: "cstr ?fn = ?n"
    using n6 zero by (cases "6 - length ?n") (auto simp: strncpy_def Let_def)
  have "inline_match fc ?n (of_nat (j * ?s))"
    unfolding inline_match_def raw VFS_INLINE_FNLEN_def node_fields(2,3) [OF fn] strncmp_eq_def fn_n js
    using flash out j(1) crc node_fields(4) [OF fn, of ?len ?crc 0] \<open>cstr ?n = ?n\<close>
    by (auto simp: crc_checksum_def crc_calc_def crc_update_eq nth_append)
  moreover have "j * ?s < pages * ?s" using geometry len by linarith
  then have "j < pages" by simp
  moreover have "\<not> inline_match fc ?n (of_nat (i * ?s))" if i: "j < i" "i < pages" for i
  proof -
    have "Suc j * ?s \<le> i * ?s" using i(1) by (intro mult_le_mono1) simp
    then have "length out - length c < i * ?s" using len s by simp
    then show ?thesis using later i(2) by blast
  qed
  ultimately have "vfs_inline_open fc ?n st = Some (malloc_fh (il_handle (of_nat (j * ?s + 10)) 0 ?len) st)"
    using inline_open_page [OF geometry(1) _ j(2), of ?n st, unfolded raw node_fields(1) [OF fn]] s by auto
  moreover have "\<forall>i<length c. flash fc (j * ?s + 10 + i) = c ! i"
    using flash out j(1) node by (auto simp: nth_append)
  ultimately show ?thesis
    using off len bound content(2) by (simp add: flash_has_def)
qed

text \<open>
  C15: a file appended to a firmware image by \<^verbatim>\<open>vfs-concat\<close> is found by \<^verbatim>\<open>vfs_inline_open\<close> on a device
  whose flash holds that image, and reading from the handle gives the contents of the file.  No
  later page may hold another node of that name; the checksum update of avr-libc is the iButton
  CRC it documents.
\<close>

theorem vfs_concat_inline:
  assumes "vfs_concat fs image_name (uint (SPM_PAGESIZE fc)) file_name = (0, out)"
    and "open_input fs file_name = Some c" "length c < 2 ^ 16" and "fs image_name = Some img" "img \<noteq> []"
    and "0 \<notin> set file_name" and "crc_upd fc = crc_ibutton_update"
    and "unat (FLASHEND fc) + 1 = pages * unat (SPM_PAGESIZE fc)" and "length out \<le> unat (FLASHEND fc) + 1"
    and "\<forall>i<length out. flash fc i = out ! i"
    and "\<forall>i<pages. length out - length c < i * unat (SPM_PAGESIZE fc) \<longrightarrow>
      \<not> inline_match fc (strip_path file_name) (of_nat (i * unat (SPM_PAGESIZE fc)))"
    and "0 < fh_avail st"
  shows "\<exists>h st'. vfs_inline_open fc (strip_path file_name) st = Some (Some h, st')
    \<and> vfs_inline_size h st' = Some (of_nat (length c))
    \<and> (\<exists>h'. vfs_inline_read fc h n st' = Some (of_nat (length (take (unat n) c)), take (unat n) c, h', st'))"
proof -
  let ?h = "il_handle (of_nat (length out - length c)) 0 (of_nat (length c))"
  have found: "vfs_inline_open fc (strip_path file_name) st = Some (malloc_fh ?h st)"
    and has: "flash_has fc (of_nat (length out - length c)) c"
    using concat_found [OF assms(1-11)] by auto
  have "vfs_inline_open fc (strip_path file_name) st = Some (Some ?h, st\<lparr>fh_avail := fh_avail st - 1\<rparr>)"
    using found assms(12) by (simp add: malloc_fh_def)
  moreover have "vfs_inline_size ?h s = Some (of_nat (length c))" for s :: "'a vfs_heap_scheme"
    using ucast_16_32(1) [OF assms(3)] by (simp add: vfs_inline_size_def)
  ultimately show ?thesis
    using inline_read [OF has, of 0 n "st\<lparr>fh_avail := fh_avail st - 1\<rparr>"] by (auto simp: Let_def)
qed

definition demo_host :: "u8 list \<Rightarrow> u8 list option" where
  "demo_host = [[105] \<mapsto> [1], [47, 97] \<mapsto> [5, 6]]"

definition demo_out :: "u8 list" where
  "demo_out = snd (vfs_concat demo_host [105] 64 [47, 97])"

definition demo_image :: flash_conf where
  "demo_image = \<lparr>FLASHEND = 191, SPM_PAGESIZE = 64,
     flash = (\<lambda>i. if i < length demo_out then demo_out ! i else 0xff), crc_upd = crc_ibutton_update\<rparr>"

lemma demo_concat:
  "vfs_concat demo_host [105] 64 [47, 97] = (0, demo_out)" "length demo_out = 76" "strip_path [47, 97] = [97]"
proof -
  show strip: "strip_path [47, 97] = [97]" by (simp add: strip_path.simps)
  show "vfs_concat demo_host [105] 64 [47, 97] = (0, demo_out)" "length demo_out = 76"
    by (simp_all add: demo_out_def vfs_concat_def demo_host_def open_input_def Let_def strip VFS_INLINE_FNLEN_def
        MAX_IMAGE_SIZE_def node_bytes_def)
qed

theorem vfs_concat_inline_witness:
  "\<exists>h st'. vfs_inline_open demo_image [97] \<lparr>fh_avail = 1\<rparr> = Some (Some h, st')
     \<and> (\<exists>h'. vfs_inline_read demo_image h 9 st' = Some (2, [5, 6], h', st'))"
proof -
  have page: "unat (SPM_PAGESIZE demo_image) = 64" "uint (SPM_PAGESIZE demo_image) = 64" "unat (FLASHEND demo_image) = 191"
    by (simp_all add: demo_image_def)
  have "\<not> inline_match demo_image (strip_path [47, 97]) (of_nat (2 * 64))"
    by (simp add: inline_match_def demo_image_def demo_concat VFS_INLINE_MAGIC_def)
  moreover have "i < 3 \<Longrightarrow> 74 < i * 64 \<Longrightarrow> i = 2" for i :: nat by linarith
  ultimately have later: "\<forall>i<3. length demo_out - length [5, 6 :: u8] < i * unat (SPM_PAGESIZE demo_image) \<longrightarrow>
      \<not> inline_match demo_image (strip_path [47, 97]) (of_nat (i * unat (SPM_PAGESIZE demo_image)))"
    unfolding page demo_concat(2) by (intro allI impI) fastforce
  have host: "demo_host [105] = Some [1]" "open_input demo_host [47, 97] = Some [5, 6]"
    by (simp_all add: demo_host_def open_input_def)
  have run: "vfs_concat demo_host [105] (uint (SPM_PAGESIZE demo_image)) [47, 97] = (0, demo_out)"
    using demo_concat(1) page(2) by simp
  show ?thesis
    using vfs_concat_inline [OF run host(2) _ host(1) _ _ _ _ _ _ later, of "\<lparr>fh_avail = 1\<rparr>" 9] page demo_concat(2,3)
    by (auto simp: demo_image_def)
qed

end
