(* ===== verification/E6_VfsTable.thy ===== *)
theory E6_VfsTable
  imports E6_VfsEepromOk E6_VfsInline
begin

text \<open>
  The table of a firmware with two modules, the file system on the EEPROM and the files in the
  program memory.  The EEPROM fulfils the contract \<open>vfs_store\<close>, so that the helpers of
  \<^verbatim>\<open>vfs-util.c\<close> are correct on it; the properties of the file system are stated here.
\<close>

subsection \<open>The table\<close>

definition vfs_funcs :: "sfs_conf \<Rightarrow> flash_conf \<Rightarrow> (vfs_file_handle_u, sfs_state) vfs_func_t list" where
  "vfs_funcs cf fc = [VFS_EEPROM_FUNCS cf, VFS_INLINE_FUNCS fc]"

subsection \<open>The EEPROM as a file store\<close>

definition sfs_dir :: "sfs_file list \<Rightarrow> u8 list \<Rightarrow> u8 list option" where
  "sfs_dir fs = map_of (map (\<lambda>f. (f_name f, f_cont f)) fs)"

definition sfs_opened :: "sfs_file list \<Rightarrow> handle \<Rightarrow> u8 list \<Rightarrow> nat \<Rightarrow> bool" where
  "sfs_opened fs h n p \<longleftrightarrow> (\<exists>f\<in>set fs. f_name f = n \<and> h = ee_handle (f_inode f) (of_nat p))"

definition sfs_room :: "sfs_conf \<Rightarrow> sfs_file list \<Rightarrow> sfs_state \<Rightarrow> u8 list \<Rightarrow> nat \<Rightarrow> bool" where
  "sfs_room cf fs st n m \<longleftrightarrow>
     (case find (\<lambda>f. f_name f = n) fs of
        None \<Rightarrow> pages_for cf m < card (free_pages cf st)
      | Some f \<Rightarrow> pages_for cf m \<le> length (f_pages f) + card (free_pages cf st))"

text \<open>A name that fits into a page and is not the name of a file in the program memory.\<close>

definition sfs_valid :: "sfs_conf \<Rightarrow> flash_conf \<Rightarrow> u8 list \<Rightarrow> bool" where
  "sfs_valid cf fc name \<longleftrightarrow> valid_name cf name \<and> (\<forall>st :: sfs_state. vfs_inline_open fc name st = Some (None, st))"

lemma vfs_func_ee [simp]: "vfs_func (vfs_funcs cf fc) (ee_handle i off) = Some (VFS_EEPROM_FUNCS cf)"
  by (simp add: vfs_func_def vfs_funcs_def ee_handle_def VFS_EEPROM_def)

lemma ee_funcs [simp]:
  "vf_open (VFS_EEPROM_FUNCS cf) = Some (vfs_eeprom_open cf)" "vf_create (VFS_EEPROM_FUNCS cf) = Some (vfs_eeprom_create cf)"
  "vf_read (VFS_EEPROM_FUNCS cf) = Some (vfs_eeprom_read cf)" "vf_write (VFS_EEPROM_FUNCS cf) = Some (vfs_eeprom_write cf)"
  "vf_fseek (VFS_EEPROM_FUNCS cf) = Some (vfs_eeprom_fseek cf)" "vf_close (VFS_EEPROM_FUNCS cf) = Some vfs_eeprom_close"
  "vf_unlink (VFS_EEPROM_FUNCS cf) = Some (vfs_eeprom_unlink cf)"
  by (simp_all add: VFS_EEPROM_FUNCS_def)

lemma vfs_table [simp]:
  "map vf_open (vfs_funcs cf fc) = [Some (vfs_eeprom_open cf), Some (vfs_inline_open fc)]"
  "map vf_create (vfs_funcs cf fc) = [Some (vfs_eeprom_create cf), None]"
  "map vf_unlink (vfs_funcs cf fc) = [Some (vfs_eeprom_unlink cf), None]"
  by (simp_all add: vfs_funcs_def VFS_INLINE_FUNCS_def)

lemma sfs_dir_None: "sfs_dir fs n = None \<longleftrightarrow> n \<notin> f_name ` set fs"
  by (force simp: sfs_dir_def map_of_eq_None_iff)

lemma sfs_dir_append: "sfs_dir (xs @ ys) = sfs_dir ys ++ sfs_dir xs"
  by (simp add: sfs_dir_def)

lemma sfs_dir_split:
  assumes "f_name f \<notin> f_name ` set xs" and "f_name f' = f_name f"
  shows "sfs_dir (xs @ f' # ys) = (sfs_dir (xs @ f # ys))(f_name f \<mapsto> f_cont f')"
proof -
  have "sfs_dir xs (f_name f) = None" using assms(1) by (simp add: sfs_dir_None)
  moreover have "sfs_dir (f' # ys) = (sfs_dir ys)(f_name f \<mapsto> f_cont f')" "sfs_dir (f # ys) = (sfs_dir ys)(f_name f \<mapsto> f_cont f)"
    using assms(2) by (simp_all add: sfs_dir_def)
  ultimately show ?thesis
    by (auto simp: sfs_dir_append map_add_def fun_eq_iff split: option.splits)
qed

lemma sfs_dir_member: "sfs_inv cf fs st \<Longrightarrow> f \<in> set fs \<Longrightarrow> sfs_dir fs (f_name f) = Some (f_cont f)"
  unfolding sfs_dir_def by (rule map_of_is_SomeI) (auto simp: sfs_inv_def comp_def)

lemma sfs_dir_Some:
  assumes "sfs_inv cf fs st" and "sfs_dir fs n = Some c"
  obtains f where "f \<in> set fs" "f_name f = n" "f_cont f = c"
  using assms(2) unfolding sfs_dir_def by (auto dest!: map_of_SomeD)

lemma find_name:
  "distinct (map f_name fs) \<Longrightarrow> f \<in> set fs \<Longrightarrow> find (\<lambda>g. f_name g = f_name f) fs = Some f"
  by (induction fs) (auto simp: rev_image_eqI)

lemma find_missing: "n \<notin> f_name ` set fs \<Longrightarrow> find (\<lambda>g. f_name g = n) fs = None"
  by (auto simp: find_None_iff)

lemma pg_heap [simp]: "pg cf (st\<lparr>fh_avail := k\<rparr>) = pg cf st"
  by (rule ext) (simp add: pg_def)

lemma sfs_inv_heap [simp]: "sfs_inv cf fs (st\<lparr>fh_avail := k\<rparr>) = sfs_inv cf fs st" "free_pages cf (st\<lparr>fh_avail := k\<rparr>) = free_pages cf st"
  by (simp_all add: sfs_inv_def sfs_dev_def free_pages_def)

lemma sfs_room_heap [simp]: "sfs_room cf fs (st\<lparr>fh_avail := k\<rparr>) n m = sfs_room cf fs st n m"
  by (simp add: sfs_room_def split: option.splits)

lemma sfs_opened_split:
  assumes "sfs_inv cf fs st" and "sfs_opened fs h n p" and "sfs_dir fs n = Some c"
  obtains xs f ys where "fs = xs @ f # ys" "f_name f = n" "f_cont f = c" "h = ee_handle (f_inode f) (of_nat p)"
    "f_name f \<notin> f_name ` set xs" "sfs_inv cf (xs @ f # ys) st"
proof -
  obtain f where f: "f \<in> set fs" "f_name f = n" "h = ee_handle (f_inode f) (of_nat p)"
    using assms(2) by (auto simp: sfs_opened_def)
  moreover have "f_cont f = c" using sfs_dir_member [OF assms(1) f(1)] assms(3) f(2) by simp
  moreover obtain xs ys where "fs = xs @ f # ys" using f(1) by (meson split_list)
  moreover have "distinct (map f_name fs)" using assms(1) by (simp add: sfs_inv_def)
  ultimately show thesis using that assms(1) by auto
qed

lemma store_open_found:
  assumes "sfs_inv cf fs st" and "sfs_dir fs (cstr name) \<noteq> None" and "0 < fh_avail st"
  shows "\<exists>h st'. vfs_open (vfs_funcs cf fc) name st = Some (Some h, st') \<and> sfs_inv cf fs st' \<and> sfs_opened fs h (cstr name) 0
        \<and> fh_avail st' = fh_avail st - 1 \<and> (\<forall>n m. sfs_room cf fs st n m \<longrightarrow> sfs_room cf fs st' n m)"
proof -
  obtain f where f: "f \<in> set fs" "f_name f = cstr name" using assms(2) by (auto simp: sfs_dir_None)
  have "vfs_open (vfs_funcs cf fc) name st = Some (Some (ee_handle (f_inode f) 0), st\<lparr>fh_avail := fh_avail st - 1\<rparr>)"
    using open_found [OF assms(1) f] assms(3) by (simp add: vfs_open_def malloc_fh_def)
  then show ?thesis
    using assms(1) f by (auto simp: sfs_opened_def)
qed

lemma store_create:
  assumes inv: "sfs_inv cf fs st" and valid: "sfs_valid cf fc name" and avail: "0 < fh_avail st" and room: "sfs_room cf fs st (cstr name) m"
  shows "\<exists>fs' h st'. vfs_create (vfs_funcs cf fc) name st = Some (Some h, st') \<and> sfs_inv cf fs' st'
        \<and> sfs_dir fs' = (sfs_dir fs)(cstr name \<mapsto> []) \<and> sfs_opened fs' h (cstr name) 0 \<and> sfs_room cf fs' st' (cstr name) m
        \<and> fh_avail st' = fh_avail st - 1"
proof (cases "cstr name \<in> f_name ` set fs")
  case True
  then obtain f where f: "f \<in> set fs" "f_name f = cstr name" by auto
  then obtain xs ys where fs: "fs = xs @ f # ys" by (meson split_list)
  have dis: "distinct (map f_name fs)" using inv by (simp add: sfs_inv_def)
  define f' where "f' = f\<lparr>f_pages := [], f_cont := []\<rparr>"
  obtain s where s: "vfs_eeprom_create cf name st = Some (malloc_fh (ee_handle (f_inode f) 0) s)"
      "sfs_inv cf (xs @ f' # ys) s" "free_pages cf s = free_pages cf st \<union> set (f_pages f)" "fh_avail s = fh_avail st"
    using eeprom_create_old [OF inv [unfolded fs] f(2)] valid by (auto simp: sfs_valid_def f'_def)
  have "card (free_pages cf s) = card (free_pages cf st) + length (f_pages f)"
  proof -
    have "free_pages cf st \<inter> set (f_pages f) = {}" using free_not_used(2) [OF inv] pages_of_member [OF f(1)] by auto
    then show ?thesis
      using pages_distinct [OF inv f(1)] by (simp add: s(3) card_Un_disjoint distinct_card)
  qed
  then have "sfs_room cf (xs @ f' # ys) s (cstr name) m"
    using room find_name [of "xs @ f' # ys" f'] find_name [OF dis f(1)] f(2) s(2)
    by (simp add: sfs_room_def f'_def sfs_inv_def)
  moreover have "sfs_dir (xs @ f' # ys) = (sfs_dir fs)(cstr name \<mapsto> [])"
    using sfs_dir_split [of f xs f' ys] dis f(2) by (simp add: fs f'_def)
  ultimately show ?thesis
    using s f(2) avail
    by (intro exI [of _ "xs @ f' # ys"] exI [of _ "ee_handle (f_inode f) 0"] exI [of _ "s\<lparr>fh_avail := fh_avail s - 1\<rparr>"])
      (simp add: vfs_create_def malloc_fh_def sfs_opened_def f'_def)
next
  case False
  then have free: "pages_for cf m < card (free_pages cf st)" using room find_missing [OF False] by (simp add: sfs_room_def)
  then have "free_pages cf st \<noteq> {}" by auto
  then obtain i s where s: "vfs_eeprom_create cf name st = Some (malloc_fh (ee_handle i 0) s)"
      "sfs_inv cf (fs @ [\<lparr>f_inode = i, f_name = cstr name, f_pages = [], f_cont = []\<rparr>]) s"
      "i \<in> free_pages cf st" "free_pages cf s = free_pages cf st - {i}" "fh_avail s = fh_avail st"
    using eeprom_create_new [OF inv False] valid by (auto simp: sfs_valid_def)
  define f where "f = \<lparr>f_inode = i, f_name = cstr name, f_pages = [], f_cont = []\<rparr>"
  have "card (free_pages cf s) = card (free_pages cf st) - 1" using s(3,4) by simp
  then have "sfs_room cf (fs @ [f]) s (cstr name) m"
    using free find_name [of "fs @ [f]" f] s(2) by (simp add: sfs_room_def f_def sfs_inv_def)
  moreover have "sfs_dir (fs @ [f]) = (sfs_dir fs)(cstr name \<mapsto> [])"
  proof -
    have "sfs_dir fs (cstr name) = None" using False by (simp add: sfs_dir_None)
    moreover have "sfs_dir [f] = [cstr name \<mapsto> []]" by (simp add: sfs_dir_def f_def)
    ultimately show ?thesis by (auto simp: sfs_dir_append map_add_def fun_eq_iff split: option.splits)
  qed
  ultimately show ?thesis
    using s avail
    by (intro exI [of _ "fs @ [f]"] exI [of _ "ee_handle i 0"] exI [of _ "s\<lparr>fh_avail := fh_avail s - 1\<rparr>"])
      (simp add: vfs_create_def malloc_fh_def sfs_opened_def f_def)
qed

lemma store_write:
  assumes inv: "sfs_inv cf fs st" and op: "sfs_opened fs h n (length c)" and dir: "sfs_dir fs n = Some c"
    and room: "sfs_room cf fs st n m" and len: "length c + length data \<le> m"
  shows "\<exists>fs' h' st'. vfs_write (vfs_funcs cf fc) h data st = Some (of_nat (length data), h', st') \<and> sfs_inv cf fs' st'
        \<and> sfs_dir fs' = (sfs_dir fs)(n \<mapsto> c @ data) \<and> sfs_opened fs' h' n (length c + length data) \<and> sfs_room cf fs' st' n m
        \<and> fh_avail st' = fh_avail st \<and> (\<forall>h n p. sfs_opened fs h n p \<longrightarrow> sfs_opened fs' h n p)"
proof -
  obtain xs f ys where fs: "fs = xs @ f # ys" and f: "f_name f = n" "f_cont f = c" "h = ee_handle (f_inode f) (of_nat (length c))"
      "f_name f \<notin> f_name ` set xs" and inv': "sfs_inv cf (xs @ f # ys) st"
    using sfs_opened_split [OF inv op dir] by metis
  have dis: "distinct (map f_name fs)" using inv by (simp add: sfs_inv_def)
  have room': "pages_for cf m \<le> length (f_pages f) + card (free_pages cf st)"
    using room find_name [OF dis, of f] fs f(1) by (simp add: sfs_room_def)
  have "pages_for cf (length c + length data) \<le> pages_for cf m" using len by (simp add: pages_for_def div_le_mono)
  then obtain ns s where s: "vfs_eeprom_write cf h data st =
        Some (of_nat (length data), ee_handle (f_inode f) (of_nat (length c) + of_nat (length data)), s)"
      "sfs_inv cf (xs @ f\<lparr>f_pages := f_pages f @ ns, f_cont := c @ data\<rparr> # ys) s" "distinct ns"
      "set ns \<subseteq> free_pages cf st" "free_pages cf s = free_pages cf st - set ns" "fh_avail s = fh_avail st"
    using eeprom_write_end [OF inv', of "of_nat (length c)" data] f room' by auto
  define f' where "f' = f\<lparr>f_pages := f_pages f @ ns, f_cont := c @ data\<rparr>"
  have "card (free_pages cf st) = card (free_pages cf s) + length ns"
    using s(3-5) by (metis card_Diff_subset card_mono distinct_card finite_free finite_set le_add_diff_inverse2)
  then have "sfs_room cf (xs @ f' # ys) s n m"
    using room' find_name [of "xs @ f' # ys" f'] s(2) f(1) by (simp add: sfs_room_def f'_def sfs_inv_def)
  moreover have "sfs_dir (xs @ f' # ys) = (sfs_dir fs)(n \<mapsto> c @ data)"
    using sfs_dir_split [of f xs f' ys] f fs by (simp add: f'_def)
  moreover have "\<forall>h n p. sfs_opened fs h n p \<longrightarrow> sfs_opened (xs @ f' # ys) h n p"
    by (auto simp: sfs_opened_def fs f'_def)
  moreover have "vfs_write (vfs_funcs cf fc) h data st = vfs_eeprom_write cf h data st" by (simp add: vfs_write_def f(3))
  moreover have "sfs_opened (xs @ f' # ys) (ee_handle (f_inode f) (of_nat (length c) + of_nat (length data))) n (length c + length data)"
    using f(1) by (auto simp: sfs_opened_def f'_def)
  ultimately show ?thesis using s(1,2,6) unfolding f'_def by metis
qed

lemma store_read:
  assumes inv: "sfs_inv cf fs st" and op: "sfs_opened fs h n p" and dir: "sfs_dir fs n = Some c" and p: "p \<le> length c"
    and blk: "data_size cf dvd p" and r: "r = take (unat k) (drop p c)"
  shows "\<exists>h'. vfs_read (vfs_funcs cf fc) h k st = Some (of_nat (length r), r, h', st) \<and> sfs_opened fs h' n (p + length r)"
proof -
  obtain xs f ys where fs: "fs = xs @ f # ys" and f: "f_name f = n" "f_cont f = c" "h = ee_handle (f_inode f) (of_nat p)"
      and inv': "sfs_inv cf (xs @ f # ys) st"
    using sfs_opened_split [OF inv op dir] by metis
  have u: "unat (of_nat p :: u16) = p" using content_bound [OF inv', of f] f(2) p by (simp add: unat_of_nat)
  have "\<not> tail_lost cf c p (unat k)" using blk by (simp add: tail_lost_def)
  then have "vfs_eeprom_read cf h k st = Some (of_nat (length r), r, ee_handle (f_inode f) (of_nat (p + length r)), st)"
    using eeprom_read [OF inv', of f "of_nat p" k] f p u r by (simp add: Let_def)
  then show ?thesis
    using f fs by (auto simp: vfs_read_def sfs_opened_def)
qed

lemma store_seek_end:
  assumes inv: "sfs_inv cf fs st" and op: "sfs_opened fs h n p" and dir: "sfs_dir fs n = Some c"
  shows "\<exists>h'. vfs_fseek (vfs_funcs cf fc) h 0 SEEK_END st = Some (0, h', st) \<and> sfs_opened fs h' n (length c)"
proof -
  obtain xs f ys where fs: "fs = xs @ f # ys" and f: "f_name f = n" "f_cont f = c" "h = ee_handle (f_inode f) (of_nat p)"
      and inv': "sfs_inv cf (xs @ f # ys) st"
    using sfs_opened_split [OF inv op dir] by metis
  show ?thesis
    using eeprom_seek_end [OF inv', of f "of_nat p"] f fs by (auto simp: vfs_fseek_def sfs_opened_def)
qed

interpretation ee_store: vfs_store "vfs_funcs cf fc" "sfs_inv cf" sfs_dir sfs_opened "sfs_room cf" fh_avail "sfs_valid cf fc" "data_size cf"
  for cf fc
proof unfold_locales
  fix fs st name
  assume "sfs_inv cf fs st" "sfs_dir fs (cstr name) = None" "sfs_valid cf fc name"
  then show "vfs_open (vfs_funcs cf fc) name st = Some (None, st)"
    using open_not_found [of cf fs st name] by (simp add: vfs_open_def sfs_dir_None sfs_valid_def)
next
  fix fs st h n p
  assume "sfs_inv cf fs st" "sfs_opened fs h n p"
  then show "\<exists>st'. vfs_close (vfs_funcs cf fc) h st = Some st' \<and> sfs_inv cf fs st' \<and> fh_avail st' = Suc (fh_avail st)"
    by (auto simp: vfs_close_def sfs_opened_def vfs_eeprom_close_def free_fh_def)
qed (use store_open_found store_create store_write store_read store_seek_end in auto)

subsection \<open>A device for the examples\<close>

definition demo_conf :: "nat \<Rightarrow> sfs_conf" where
  "demo_conf n = \<lparr>SFS_PAGE_SIZE = 12, SFS_PAGE_COUNT = n, CONF_I2C_24CXX_PAGESIZE = 8\<rparr>"

text \<open>
  The superblock, the file \<open>a\<close> and its only data page with the bytes \<open>c\<close>, at most seven; \<open>free\<close> more
  pages are empty.
\<close>

definition demo_dev :: "u8 list \<Rightarrow> nat \<Rightarrow> sfs_state" where
  "demo_dev c free =
     \<lparr>fh_avail = 2,
      e_mem = superblock_bytes 0 1 @ [0, 0]
        @ ([SFS_MAGIC_FILE] @ le16 2 @ le16 0 @ [97, 0, 0, 0, 0, 0, 0])
        @ ([SFS_MAGIC_DATA] @ le16 0 @ [of_nat (length c)] @ c @ replicate (8 - length c) 0)
        @ replicate (12 * free) 0,
      e_acks = True\<rparr>"

definition demo_file :: "u8 list \<Rightarrow> sfs_file" where
  "demo_file c = \<lparr>f_inode = 1, f_name = [97], f_pages = [2], f_cont = c\<rparr>"

definition demo_flash :: flash_conf where
  "demo_flash = \<lparr>FLASHEND = 127, SPM_PAGESIZE = 64, flash = (\<lambda>_. 0xff), crc_upd = crc_ibutton_update\<rparr>"

lemma demo_pages:
  assumes "length c \<le> 7"
  shows "pg (demo_conf (3 + k)) (demo_dev c k) 0 = superblock_bytes 0 1 @ [0, 0]"
    and "pg (demo_conf (3 + k)) (demo_dev c k) 1 = [SFS_MAGIC_FILE] @ le16 2 @ le16 0 @ [97, 0, 0, 0, 0, 0, 0]"
    and "pg (demo_conf (3 + k)) (demo_dev c k) 2 =
      [SFS_MAGIC_DATA] @ le16 0 @ [of_nat (length c)] @ c @ replicate (8 - length c) 0"
  using assms by (simp_all add: pg_def demo_conf_def demo_dev_def superblock_bytes_def le16_def)

lemma demo_inv:
  assumes "length c \<le> 7" and "k \<le> 100"
  shows "sfs_inv (demo_conf (3 + k)) [demo_file c] (demo_dev c k)"
proof -
  have "unat (of_nat (length c) :: u8) = length c" using assms(1) by (simp add: unat_of_nat)
  then show ?thesis
    using assms demo_pages [OF assms(1), of k]
    by (simp add: sfs_inv_def sfs_dev_def file_ok_def demo_file_def pg_field_defs superblock_bytes_def le16_def get16_def
        cstr_def data_size_def pages_of_def)
      (simp add: demo_conf_def demo_dev_def superblock_bytes_def le16_def)
qed

lemma demo_free:
  assumes "length c \<le> 7" and "k \<le> 100"
  shows "free_pages (demo_conf (3 + k)) (demo_dev c k) = {p. 3 \<le> unat p \<and> unat p < 3 + k}"
proof -
  have high: "pg_magic (pg (demo_conf (3 + k)) (demo_dev c k) p) = 0" if p: "3 \<le> unat p" "unat p < 3 + k" for p
  proof -
    define pre where "pre = superblock_bytes 0 1 @ [0, 0] @ ([SFS_MAGIC_FILE] @ le16 2 @ le16 0 @ [97, 0, 0, 0, 0, 0, 0])
        @ ([SFS_MAGIC_DATA] @ le16 0 @ [of_nat (length c)] @ c @ replicate (8 - length c) 0)"
    have "e_mem (demo_dev c k) = pre @ replicate (12 * k) 0" "length pre = 36"
      using assms(1) by (simp_all add: demo_dev_def pre_def superblock_bytes_def)
    then have "drop (unat p * 12) (e_mem (demo_dev c k)) = replicate (12 * k - (unat p * 12 - 36)) 0"
      using p(1) by simp
    then show ?thesis using p by (simp add: pg_def demo_conf_def pg_magic_def)
  qed
  have "p \<in> {0, 1, 2}" if "unat p < 3" for p :: u16
    using that word_enum [of p 3 "\<lambda>p. p \<in> {0, 1, 2}"] by (simp add: upt_rec numeral_3_eq_3)
  then have low: "pg_magic (pg (demo_conf (3 + k)) (demo_dev c k) p) \<in> {SFS_MAGIC_SUPERBLOCK, SFS_MAGIC_FILE, SFS_MAGIC_DATA}"
    if "unat p < 3" for p
    using that demo_pages [OF assms(1), of k] by (fastforce simp: pg_magic_def superblock_bytes_def)
  have "p \<in> free_pages (demo_conf (3 + k)) (demo_dev c k) \<longleftrightarrow> 3 \<le> unat p \<and> unat p < 3 + k" for p
    using low [of p] high [of p]
    by (cases "3 \<le> unat p") (auto simp: free_pages_def sfs_magic_defs, auto simp: demo_conf_def)
  then show ?thesis by blast
qed

lemma card_pages: "b < 2 ^ 16 \<Longrightarrow> card {p :: u16. a \<le> unat p \<and> unat p < b} = b - a"
proof -
  assume b: "b < 2 ^ 16"
  have "unat ` {p :: u16. a \<le> unat p \<and> unat p < b} = {a..<b}"
  proof (intro equalityI subsetI)
    fix x assume "x \<in> {a..<b}"
    then have "unat (of_nat x :: u16) = x" using b by (simp add: unat_of_nat)
    then show "x \<in> unat ` {p :: u16. a \<le> unat p \<and> unat p < b}"
      using \<open>x \<in> {a..<b}\<close> by (metis (mono_tags, lifting) atLeastLessThan_iff imageI mem_Collect_eq)
  qed auto
  moreover have "inj_on unat {p :: u16. a \<le> unat p \<and> unat p < b}" by (simp add: inj_on_def word_unat_eq_iff)
  ultimately show ?thesis by (metis card_atLeastLessThan card_image)
qed

lemma demo_free_card:
  "length c \<le> 7 \<Longrightarrow> k \<le> 100 \<Longrightarrow> card (free_pages (demo_conf (3 + k)) (demo_dev c k)) = k"
  using card_pages [of "3 + k" 3] by (simp add: demo_free)

lemma demo_valid: "length (cstr name) \<le> 6 \<Longrightarrow> sfs_valid (demo_conf k) demo_flash name"
  by (simp add: sfs_valid_def valid_name_def demo_conf_def vfs_inline_open_def demo_flash_def inline_open_loop.simps
      inline_match_def VFS_INLINE_MAGIC_def)

subsection \<open>Properties\<close>

lemma sfs_dir_remove:
  assumes "distinct (map f_name (xs @ f # ys))"
  shows "sfs_dir (xs @ ys) = (sfs_dir (xs @ f # ys))(f_name f := None)"
proof -
  have "sfs_dir xs (f_name f) = None" "sfs_dir ys (f_name f) = None" using assms by (auto simp: sfs_dir_None)
  moreover have "sfs_dir (f # ys) = (sfs_dir ys)(f_name f \<mapsto> f_cont f)" by (simp add: sfs_dir_def)
  ultimately show ?thesis by (auto simp: sfs_dir_append map_add_def fun_eq_iff split: option.splits)
qed

text \<open>
  C9: \<^verbatim>\<open>vfs_file_append\<close> on the EEPROM file system: the file is created if it does not exist, the
  bytes are appended to its contents, all other files keep theirs, the file system stays
  well-formed and the handle is given back, provided the name is valid, a handle can be had and
  there is room.
\<close>

theorem vfs_append_refines:
  assumes "sfs_inv cf fs st" and "sfs_valid cf fc name" and "0 < fh_avail st"
    and "c = (case sfs_dir fs (cstr name) of None \<Rightarrow> [] | Some c \<Rightarrow> c)"
    and "sfs_room cf fs st (cstr name) (length c + length data)"
  shows "\<exists>fs' st'. vfs_file_append (vfs_funcs cf fc) name data st = Some (1, st') \<and> sfs_inv cf fs' st'
     \<and> sfs_dir fs' = (sfs_dir fs)(cstr name \<mapsto> c @ data) \<and> fh_avail st' = fh_avail st"
  using assms by (rule ee_store.file_append)

text \<open>Appending six bytes to the four of the file \<open>a\<close>, which then needs a second page.\<close>

theorem vfs_append_refines_witness:
  "\<exists>fs' st'. vfs_file_append (vfs_funcs (demo_conf 5) demo_flash) [97] [5, 6, 7, 8, 9, 10] (demo_dev [1, 2, 3, 4] 2) = Some (1, st')
     \<and> sfs_inv (demo_conf 5) fs' st' \<and> sfs_dir fs' = [[97] \<mapsto> [1, 2, 3, 4, 5, 6, 7, 8, 9, 10]] \<and> fh_avail st' = 2"
proof -
  have inv: "sfs_inv (demo_conf 5) [demo_file [1, 2, 3, 4]] (demo_dev [1, 2, 3, 4] 2)"
    using demo_inv [of "[1, 2, 3, 4]" 2] by simp
  have valid: "sfs_valid (demo_conf 5) demo_flash [97]" by (rule demo_valid) (simp add: cstr_def)
  have card: "card (free_pages (demo_conf 5) (demo_dev [1, 2, 3, 4] 2)) = 2"
    using demo_free_card [of "[1, 2, 3, 4]" 2] by simp
  have dir: "sfs_dir [demo_file [1, 2, 3, 4]] = [[97] \<mapsto> [1, 2, 3, 4]]" by (simp add: sfs_dir_def demo_file_def)
  have room: "sfs_room (demo_conf 5) [demo_file [1, 2, 3, 4]] (demo_dev [1, 2, 3, 4] 2) (cstr [97])
      (length [1, 2, 3, 4 :: u8] + length [5, 6, 7, 8, 9, 10 :: u8])"
    using card by (simp add: sfs_room_def demo_file_def cstr_def pages_for_def data_size_def) (simp add: demo_conf_def)
  have avail: "fh_avail (demo_dev [1, 2, 3, 4] 2) = 2" by (simp add: demo_dev_def)
  have old: "[1, 2, 3, 4] = (case sfs_dir [demo_file [1, 2, 3, 4]] (cstr [97]) of None \<Rightarrow> [] | Some c \<Rightarrow> c)"
    by (simp add: dir cstr_def)
  show ?thesis
    using vfs_append_refines [OF inv valid _ old room] avail by (simp add: dir cstr_def)
qed

text \<open>
  C13: \<^verbatim>\<open>vfs_copy_file\<close> on the EEPROM file system makes the destination a copy of the source, keeps
  all other files and closes both handles, provided there is room for the copy and the size of
  the network buffer is a multiple of the data size of a page.
\<close>

theorem vfs_copy_correct:
  assumes "sfs_inv cf fs st" and "sfs_valid cf fc dest" and "2 \<le> fh_avail st" and "cstr src \<noteq> cstr dest"
    and "sfs_dir fs (cstr src) = Some c" and "sfs_room cf fs st (cstr dest) (length c)"
    and "data_size cf dvd bufsize" and "0 < bufsize" and "bufsize < 2 ^ 16"
  shows "\<exists>fs' st'. vfs_copy_file (vfs_funcs cf fc) bufsize dest src st = Some (0, st') \<and> sfs_inv cf fs' st'
     \<and> sfs_dir fs' = (sfs_dir fs)(cstr dest \<mapsto> c) \<and> fh_avail st' = fh_avail st"
  using assms by (rule ee_store.copy_file)

theorem vfs_copy_correct_witness:
  "\<exists>fs' st'. vfs_copy_file (vfs_funcs (demo_conf 6) demo_flash) 8 [98] [97] (demo_dev [1, 2, 3, 4] 3) = Some (0, st')
     \<and> sfs_inv (demo_conf 6) fs' st' \<and> sfs_dir fs' = [[97] \<mapsto> [1, 2, 3, 4], [98] \<mapsto> [1, 2, 3, 4]] \<and> fh_avail st' = 2"
proof -
  have inv: "sfs_inv (demo_conf 6) [demo_file [1, 2, 3, 4]] (demo_dev [1, 2, 3, 4] 3)"
    using demo_inv [of "[1, 2, 3, 4]" 3] by simp
  have valid: "sfs_valid (demo_conf 6) demo_flash [98]" by (rule demo_valid) (simp add: cstr_def)
  have card: "card (free_pages (demo_conf 6) (demo_dev [1, 2, 3, 4] 3)) = 3"
    using demo_free_card [of "[1, 2, 3, 4]" 3] by simp
  have dir: "sfs_dir [demo_file [1, 2, 3, 4]] = [[97] \<mapsto> [1, 2, 3, 4]]" by (simp add: sfs_dir_def demo_file_def)
  have room: "sfs_room (demo_conf 6) [demo_file [1, 2, 3, 4]] (demo_dev [1, 2, 3, 4] 3) (cstr [98]) (length [1, 2, 3, 4 :: u8])"
    using card by (simp add: sfs_room_def demo_file_def cstr_def pages_for_def data_size_def) (simp add: demo_conf_def)
  have avail: "fh_avail (demo_dev [1, 2, 3, 4] 3) = 2" by (simp add: demo_dev_def)
  have src: "sfs_dir [demo_file [1, 2, 3, 4]] (cstr [97]) = Some [1, 2, 3, 4]" by (simp add: dir cstr_def)
  have d: "data_size (demo_conf 6) dvd 8" by (simp add: data_size_def demo_conf_def)
  show ?thesis
    using vfs_copy_correct [OF inv valid _ _ src room d] avail by (simp add: dir cstr_def)
qed

text \<open>
  C28: reading from a file of the EEPROM stores exactly the bytes from the position on, as many as
  asked for or as there are, and moves the position behind them.  The result is their number,
  with one exception: if the position is inside the last page and more is asked for than is left,
  the result is 0 although the bytes were stored.
\<close>

theorem eeprom_read_exact:
  assumes "sfs_inv cf fs st" and "f \<in> set fs" and "unat off \<le> length (f_cont f)"
  shows "vfs_eeprom_read cf (ee_handle (f_inode f) off) n st =
    (let r = take (unat n) (drop (unat off) (f_cont f))
     in Some (if unat off mod data_size cf \<noteq> 0 \<and> unat off div data_size cf = length (f_cont f) div data_size cf
                 \<and> length (f_cont f) < unat off + unat n
              then 0 else of_nat (length r), r,
              ee_handle (f_inode f) (off + of_nat (length r)), st))"
  using eeprom_read [OF assms] unfolding tail_lost_def .

theorem eeprom_read_exact_witness:
  "vfs_eeprom_read (demo_conf 3) (ee_handle 1 0) 9 (demo_dev [1, 2, 3, 4] 0) =
     Some (4, [1, 2, 3, 4], ee_handle 1 4, demo_dev [1, 2, 3, 4] 0)
   \<and> vfs_eeprom_read (demo_conf 3) (ee_handle 1 1) 2 (demo_dev [1, 2, 3, 4] 0) =
     Some (2, [2, 3], ee_handle 1 3, demo_dev [1, 2, 3, 4] 0)
   \<and> vfs_eeprom_read (demo_conf 3) (ee_handle 1 1) 9 (demo_dev [1, 2, 3, 4] 0) =
     Some (0, [2, 3, 4], ee_handle 1 4, demo_dev [1, 2, 3, 4] 0)"
proof -
  have inv: "sfs_inv (demo_conf 3) [demo_file [1, 2, 3, 4]] (demo_dev [1, 2, 3, 4] 0)"
    using demo_inv [of "[1, 2, 3, 4]" 0] by simp
  have f: "f_inode (demo_file [1, 2, 3, 4]) = 1" "f_cont (demo_file [1, 2, 3, 4]) = [1, 2, 3, 4]" by (simp_all add: demo_file_def)
  have d: "data_size (demo_conf 3) = 8" by (simp add: data_size_def demo_conf_def)
  note ex = eeprom_read_exact [OF inv, of "demo_file [1, 2, 3, 4]"]
  show ?thesis using ex [of 0 9] ex [of 1 2] ex [of 1 9] by (simp add: f d Let_def)
qed

text \<open>
  C29: \<^verbatim>\<open>vfs_unlink\<close> removes exactly the named file and keeps the file system well-formed; if there
  is no such file the result is 1 and nothing changes.  Only one page is free again, the one of
  the file's node: the data pages of the file stay marked as used.
\<close>

theorem vfs_unlink_correct:
  assumes "sfs_inv cf fs st"
  shows "\<exists>fs' st'. vfs_unlink (vfs_funcs cf fc) name st = Some (if sfs_dir fs (cstr name) = None then 1 else 0, st')
     \<and> sfs_inv cf fs' st' \<and> sfs_dir fs' = (sfs_dir fs)(cstr name := None) \<and> fh_avail st' = fh_avail st
     \<and> card (free_pages cf st') = card (free_pages cf st) + (if sfs_dir fs (cstr name) = None then 0 else 1)"
proof (cases "sfs_dir fs (cstr name)")
  case None
  then have "vfs_eeprom_unlink cf name st = Some (1, st)"
    using eeprom_unlink_missing [OF assms] by (simp add: sfs_dir_None)
  then show ?thesis
    using None assms by (intro exI [of _ fs] exI [of _ st]) (simp add: vfs_unlink_def fun_upd_idem)
next
  case (Some c)
  then obtain f where f: "f \<in> set fs" "f_name f = cstr name" using sfs_dir_Some [OF assms] by metis
  then obtain xs ys where fs: "fs = xs @ f # ys" by (meson split_list)
  obtain st' where st': "vfs_eeprom_unlink cf name st = Some (0, st')" "sfs_inv cf (xs @ ys) st'"
      "free_pages cf st' = insert (f_inode f) (free_pages cf st)" "fh_avail st' = fh_avail st"
    using eeprom_unlink_found [OF assms [unfolded fs] f(2)] by auto
  have "f_inode f \<notin> free_pages cf st" using free_not_used(2) [OF assms] pages_of_member [OF f(1)] by auto
  moreover have "sfs_dir (xs @ ys) = (sfs_dir fs)(cstr name := None)"
    using sfs_dir_remove [of xs f ys] assms f(2) by (simp add: sfs_inv_def fs)
  ultimately show ?thesis
    using Some st' by (intro exI [of _ "xs @ ys"] exI [of _ st']) (simp add: vfs_unlink_def)
qed

theorem vfs_unlink_correct_witness:
  "\<exists>fs' st'. vfs_unlink (vfs_funcs (demo_conf 5) demo_flash) [97] (demo_dev [1, 2, 3, 4] 2) = Some (0, st')
     \<and> sfs_inv (demo_conf 5) fs' st' \<and> sfs_dir fs' = Map.empty \<and> card (free_pages (demo_conf 5) st') = 3"
proof -
  have inv: "sfs_inv (demo_conf 5) [demo_file [1, 2, 3, 4]] (demo_dev [1, 2, 3, 4] 2)"
    using demo_inv [of "[1, 2, 3, 4]" 2] by simp
  have card: "card (free_pages (demo_conf 5) (demo_dev [1, 2, 3, 4] 2)) = 2"
    using demo_free_card [of "[1, 2, 3, 4]" 2] by simp
  have dir: "sfs_dir [demo_file [1, 2, 3, 4]] = [[97] \<mapsto> [1, 2, 3, 4]]" by (simp add: sfs_dir_def demo_file_def)
  show ?thesis
    using vfs_unlink_correct [OF inv, of demo_flash "[97]"] by (auto simp: dir cstr_def card)
qed

text \<open>
  C30: a write that needs a page never returns when no page is free and the last page of the file
  is the last page of the device: the search for a free page starts behind the device and does
  not notice that it has seen every page.
\<close>

theorem eeprom_write_hangs:
  assumes inv: "sfs_inv cf fs st" and f: "f \<in> set fs" "f_pages f \<noteq> []"
    and last: "unat (last (f_pages f)) + 1 = SFS_PAGE_COUNT cf" and full: "free_pages cf st = {}"
    and more: "length (f_pages f) < pages_for cf (length (f_cont f) + length data)"
    and small: "length (f_cont f) + length data < 2 ^ 16"
  shows "vfs_eeprom_write cf (ee_handle (f_inode f) (of_nat (length (f_cont f)))) data st = None"
proof -
  let ?c = "f_cont f" and ?qs = "f_pages f" and ?D = "data_size cf"
  have dev: "sfs_dev cf st" and super: "pg_magic (pg cf st 0) = SFS_MAGIC_SUPERBLOCK" using inv by (auto simp: sfs_inv_def)
  have st: "stored cf st (pg_next_page (pg cf st (f_inode f))) ?qs ?c" using file_stored(2) [OF inv f(1)] f(2) by simp
  note D = data_size_bounds [OF dev]
  have u: "unat (of_nat (length ?c) :: u16) = length ?c" using small by (simp add: unat_of_nat)
  have "pages_for cf (length ?c + length data) \<le> length ?c + length data + 1" by (simp add: pages_for_def)
  moreover have "pages_for cf (length ?c + length data) < 2 ^ 16"
  proof -
    have "(length ?c + length data) div ?D \<le> (length ?c + length data) div 2" using D by (intro div_le_mono2) auto
    then show ?thesis using small by (simp add: pages_for_def)
  qed
  ultimately have need: "unat (of_nat (pages_for cf (length ?c + length data)) :: u16) = pages_for cf (length ?c + length data)"
    by (simp add: unat_of_nat)
  have lq: "unat (of_nat (length ?qs) :: u16) = length ?qs"
    using more \<open>pages_for cf (length ?c + length data) < 2 ^ 16\<close> by (simp add: unat_of_nat)
  define k where "k = pages_for cf (length ?c + length data) - length ?qs"
  have count: "(if (of_nat (pages_for cf (length ?c + length data)) :: u16) > of_nat (length ?qs)
      then unat (of_nat (pages_for cf (length ?c + length data)) - of_nat (length ?qs) :: u16) else 0) = k"
    using need lq more by (simp add: word_less_nat_alt unat_sub word_le_nat_alt k_def)
  have "unat (last ?qs + 1) = SFS_PAGE_COUNT cf" using last unat_Suc_page [OF dev, of "last ?qs"] by simp
  then have never: "vfs_eeprom_find_free_page cf (last ?qs + 1) st = None" by (rule find_free_never [OF dev super full])
  obtain k' where k': "k = Suc k'" using more unfolding k_def by (metis Suc_diff_Suc)
  have "last ?qs \<noteq> f_inode f" using pages_distinct [OF inv f(1)] f(2) by (metis distinct.simps(2) last_in_set)
  moreover have pl: "pages_loop cf (pg_next_page (pg cf st (f_inode f))) 0 (f_inode f) 0 (of_nat (length ?c div ?D)) st =
      Some (of_nat (length ?qs), last ?qs, last ?qs)"
    using pages_loop_end [OF st content_bound [OF inv f(1)], of 0 "f_inode f"] by simp
  ultimately show ?thesis
    unfolding vfs_eeprom_write_def ee_of_handle Option.bind.bind_lunit vfs_file_handle_eeprom_t.select_convs
      read_inode_page [OF inv f(1)] u pl prod.case Let_def pages_for_def [symmetric] count k'
    using never by simp
qed

theorem eeprom_write_hangs_witness:
  "vfs_eeprom_write (demo_conf 3) (ee_handle 1 7) [9] (demo_dev [1, 2, 3, 4, 5, 6, 7] 0) = None"
proof -
  define c where "c = [1, 2, 3, 4, 5, 6, 7 :: u8]"
  have c: "length c = 7" by (simp add: c_def)
  have inv: "sfs_inv (demo_conf 3) [demo_file c] (demo_dev c 0)" using demo_inv [of c 0] c by simp
  have "free_pages (demo_conf 3) (demo_dev c 0) = {}" using demo_free [of c 0] c by auto
  then show ?thesis
    using eeprom_write_hangs [OF inv, of "demo_file c" "[9]"] c
    by (simp add: demo_file_def pages_for_def data_size_def) (simp add: demo_conf_def c_def)
qed

text \<open>
  at start-up a device without a valid superblock is formatted: it is then a well-formed file
  system without files, in which every page but the superblock is free; a formatted device is
  left as it is.
\<close>

theorem eeprom_init_formats:
  assumes "sfs_dev cf st"
  shows "\<exists>st'. vfs_eeprom_init cf st = Some st' \<and> fh_avail st' = fh_avail st
     \<and> (if formatted cf st then st' = st
        else sfs_inv cf [] st' \<and> formatted cf st' \<and> free_pages cf st' = {p. in_dev cf p \<and> p \<noteq> 0})"
  using assms by (rule eeprom_init)

theorem eeprom_init_formats_witness:
  "\<exists>st'. vfs_eeprom_init (demo_conf 4) \<lparr>fh_avail = 2, e_mem = replicate 48 0xff, e_acks = True\<rparr> = Some st'
     \<and> sfs_inv (demo_conf 4) [] st' \<and> card (free_pages (demo_conf 4) st') = 3"
proof -
  define st :: sfs_state where "st = \<lparr>fh_avail = 2, e_mem = replicate 48 0xff, e_acks = True\<rparr>"
  have dev: "sfs_dev (demo_conf 4) st" by (simp add: sfs_dev_def demo_conf_def st_def)
  have "\<not> formatted (demo_conf 4) st"
    by (simp add: formatted_def pg_def demo_conf_def st_def pg_magic_def SFS_MAGIC_SUPERBLOCK_def)
  then obtain st' where st': "vfs_eeprom_init (demo_conf 4) st = Some st'" "sfs_inv (demo_conf 4) [] st'"
      "free_pages (demo_conf 4) st' = {p. in_dev (demo_conf 4) p \<and> p \<noteq> 0}"
    using eeprom_init_formats [OF dev] by auto
  have "{p :: u16. in_dev (demo_conf 4) p \<and> p \<noteq> 0} = {p. 1 \<le> unat p \<and> unat p < 4}"
    by (auto simp: demo_conf_def unat_gt_0 Suc_le_eq)
  then have "card (free_pages (demo_conf 4) st') = 3" using card_pages [of 4 1] by (simp add: st'(3))
  then show ?thesis using st' by (auto simp: st_def)
qed

text \<open>
  A buffer that is not a multiple of the data size of a page: \<^verbatim>\<open>vfs_copy_file\<close> reports success but
  the copy ends early (here after five of seven bytes), because the read of the rest returns 0.
\<close>

lemma vfs_copy_loses_tail:
  "do {
     (ret, st) \<leftarrow> vfs_copy_file (vfs_funcs (demo_conf 6) demo_flash) 5 [98] [97] (demo_dev [1, 2, 3, 4, 5, 6, 7] 3);
     (h, st) \<leftarrow> vfs_eeprom_open (demo_conf 6) [98] st;
     n \<leftarrow> vfs_eeprom_filesize (demo_conf 6) (the h) st;
     Some (ret, n)
   } = Some (0, 5)"
  by code_simp

text \<open>
  Writing in the middle of a file cuts it off: the length of the page is set to the end of the
  bytes written.
\<close>

lemma eeprom_overwrite_truncates:
  "do {
     (r, h, st) \<leftarrow> vfs_eeprom_write (demo_conf 4) (ee_handle 1 0) [9] (demo_dev [1, 2, 3, 4] 1);
     n \<leftarrow> vfs_eeprom_filesize (demo_conf 4) h st;
     Some (r, n)
   } = Some (1, 1)"
  by code_simp

end
