(* ===== verification/E6_Net.thy ===== *)
theory E6_Net
  imports E6_Cstring
begin

text \<open>
  Numbers in network order, as \<^verbatim>\<open>HTONS\<close> and \<^verbatim>\<open>ntohs\<close> store and read them in packets.
\<close>

definition be16 :: "u16 \<Rightarrow> u8 list" where
  "be16 w = [ucast (drop_bit 8 w), ucast w]"

definition get_be16 :: "u8 list \<Rightarrow> nat \<Rightarrow> u16 option" where
  "get_be16 b i = do { h \<leftarrow> peek b i; l \<leftarrow> peek b (i + 1); Some (push_bit 8 (ucast h) OR ucast l) }"

lemma length_be16 [simp]: "length (be16 w) = 2"
  by (simp add: be16_def)

lemma get_be16_at: "get_be16 (xs @ be16 w @ r) (length xs) = Some w"
proof -
  have "push_bit 8 (ucast (ucast (drop_bit 8 w) :: u8)) OR ucast (ucast w :: u8) = w"
    by (rule bit_word_eqI) (auto simp: bit_simps)
  then show ?thesis by (simp add: get_be16_def be16_def peek_def nth_append)
qed

lemma get_be16_first [simp]: "get_be16 (be16 w @ r) 0 = Some w"
  using get_be16_at [of "[]"] by simp

lemma get_be16_second [simp]: "get_be16 (be16 v @ be16 w @ r) 2 = Some w"
  using get_be16_at [of "be16 v"] by simp

end
