(* ===== verification/E6_Tftp.thy ===== *)
theory E6_Tftp
  imports E6_VfsTable E6_Net
begin

text \<open>
  The TFTP server on the virtual file system, \<^verbatim>\<open>services/tftp/tftp-vfs.c\<close>, in the configuration
  without the boot loader.  uIP hands over the packet in a buffer (\<open>buf\<close>, of which \<open>datalen\<close> bytes
  are the packet) and sends the answer from the same buffer.  One packet is handled at a time; the
  result is the packet sent, whether the connection was reset to accept packets from everybody,
  and the new states of the connection and of the file system.  \<open>None\<close> is undefined behaviour: an
  access through the null pointer \<^verbatim>\<open>fh\<close> or outside of the buffer.

  The locale \<open>block_source\<close> is what a download needs of a table of file systems, \<open>upload_store\<close> what
  an upload needs; the table of the firmware provides both.
\<close>

subsection \<open>The server\<close>

record 'u tftp_connection_state_t =
  t_fh :: "'u vfs_file_handle_t option"
  t_download :: bool
  t_finished :: bool
  t_transfered :: u16

type_synonym ('u, 's) tftp_result = "(u8 list option \<times> bool \<times> 'u tftp_connection_state_t \<times> 's) option"

text \<open>The label \<^verbatim>\<open>close_connection\<close>, with the packet that is still to be sent.\<close>

definition close_connection ::
    "('u, 's) vfs_func_t list \<Rightarrow> u8 list option \<Rightarrow> 'u tftp_connection_state_t \<Rightarrow> 's \<Rightarrow> ('u, 's) tftp_result" where
  "close_connection vf out t s = do {
     s \<leftarrow> (case t_fh t of Some fh \<Rightarrow> vfs_close vf fh s | None \<Rightarrow> Some s);
     Some (out, True, t\<lparr>t_fh := None\<rparr>, s)
   }"

definition error_out ::
    "('u, 's) vfs_func_t list \<Rightarrow> 'u tftp_connection_state_t \<Rightarrow> 's \<Rightarrow> ('u, 's) tftp_result" where
  "error_out vf t s = close_connection vf (Some (be16 5 @ be16 0 @ [0])) t s"

definition send_data ::
    "('u, 's) vfs_func_t list \<Rightarrow> u8 list \<Rightarrow> 'u tftp_connection_state_t \<Rightarrow> 's \<Rightarrow> ('u, 's) tftp_result" where
  "send_data vf buf t s =
     (if t_finished t then close_connection vf None t s
      else do {
        buf \<leftarrow> memcpy buf 0 (be16 3 @ be16 (t_transfered t + 1));
        fh \<leftarrow> t_fh t;
        (_, fh, s) \<leftarrow> vfs_fseek vf fh (ucast (t_transfered t) * 512) SEEK_SET s;
        (ret, bytes, fh, s) \<leftarrow> vfs_read vf fh 512 s;
        buf \<leftarrow> memcpy buf 4 bytes;
        let t = t\<lparr>t_fh := Some fh\<rparr>;
        if sint ret < 0 then error_out vf t s
        else do {
          let t = (if sint ret < 512 then t\<lparr>t_finished := True\<rparr> else t);
          Some (Some (take (4 + unat ret) buf), False, t\<lparr>t_transfered := t_transfered t + 1\<rparr>, s)
        }
      })"

definition send_ack ::
    "('u, 's) vfs_func_t list \<Rightarrow> u8 list \<Rightarrow> 'u tftp_connection_state_t \<Rightarrow> 's \<Rightarrow> ('u, 's) tftp_result" where
  "send_ack vf buf t s = do {
     buf \<leftarrow> memcpy buf 0 (be16 4);
     if t_finished t then close_connection vf (Some (take 4 buf)) t s
     else Some (Some (take 4 buf), False, t, s)
   }"

definition tftp_handle_packet ::
    "('u, 's) vfs_func_t list \<Rightarrow> u8 list \<Rightarrow> nat \<Rightarrow> 'u tftp_connection_state_t \<Rightarrow> 's \<Rightarrow> ('u, 's) tftp_result" where
  "tftp_handle_packet vf buf datalen t s = do {
     ty \<leftarrow> get_be16 buf 0;
     if ty = 1 then do {
       let t = t\<lparr>t_download := True, t_transfered := 0, t_finished := False\<rparr>;
       (fh, s) \<leftarrow> (if 0 \<in> set (drop 2 buf) then vfs_open vf (drop 2 buf) s else None);
       let t = t\<lparr>t_fh := fh\<rparr>;
       if fh = None then error_out vf t s else send_data vf buf t s
     }
     else if ty = 4 then
       if \<not> t_download t then error_out vf t s
       else do {
         block \<leftarrow> get_be16 buf 2;
         if block < t_transfered t \<or> block > t_transfered t + 1 then error_out vf t s
         else send_data vf buf (t\<lparr>t_transfered := block\<rparr>) s
       }
     else if ty = 2 then do {
       let t = t\<lparr>t_download := False, t_transfered := 0, t_finished := False\<rparr>;
       (fh, s) \<leftarrow> (if 0 \<in> set (drop 2 buf) then vfs_open_or_creat vf (drop 2 buf) s else None);
       let t = t\<lparr>t_fh := fh\<rparr>;
       case fh of None \<Rightarrow> error_out vf t s
       | Some fh \<Rightarrow> do {
           (r, fh, s) \<leftarrow> vfs_truncate vf fh 0 s;
           let t = t\<lparr>t_fh := Some fh\<rparr>;
           if r \<noteq> 0 then error_out vf t s
           else do {
             buf \<leftarrow> memcpy buf 2 (be16 0);
             send_ack vf buf t s
           }
         }
     }
     else if ty = 3 then
       if t_download t then error_out vf t s
       else do {
         block \<leftarrow> get_be16 buf 2;
         if block < t_transfered t then error_out vf t s
         else if block = t_transfered t then send_ack vf buf t s
         else if block > t_transfered t + 1 then error_out vf t s
         else do {
           fh \<leftarrow> t_fh t;
           (_, fh, s) \<leftarrow> vfs_fseek vf fh (ucast (block - 1) * 512) SEEK_SET s;
           let len = unat (of_nat datalen - 4 :: u16);
           (w, fh, s) \<leftarrow> (if 4 + len \<le> length buf then vfs_write vf fh (take len (drop 4 buf)) s else None);
           let t = t\<lparr>t_fh := Some fh\<rparr>;
           if w = 0 then error_out vf t s
           else do {
             let t = (if datalen < 512 + 4 then t\<lparr>t_finished := True\<rparr> else t);
             send_ack vf buf (t\<lparr>t_transfered := block\<rparr>) s
           }
         }
       }
     else error_out vf t s
   }"

text \<open>
  A conversation: the packets a client sends, each put into the buffer (whose rest is left from
  before), and the answers.
\<close>

definition put_packet :: "u8 list \<Rightarrow> u8 list \<Rightarrow> u8 list" where
  "put_packet p buf = p @ drop (length p) buf"

fun tftp_run ::
    "('u, 's) vfs_func_t list \<Rightarrow> u8 list \<Rightarrow> u8 list list \<Rightarrow> 'u tftp_connection_state_t \<Rightarrow> 's
       \<Rightarrow> (u8 list option list \<times> 'u tftp_connection_state_t \<times> 's) option" where
  "tftp_run vf buf [] t s = Some ([], t, s)"
| "tftp_run vf buf (p # ps) t s = do {
     (out, _, t, s) \<leftarrow> tftp_handle_packet vf (put_packet p buf) (length p) t s;
     (outs, t, s) \<leftarrow> tftp_run vf buf ps t s;
     Some (out # outs, t, s)
   }"

text \<open>The packets of RFC 1350; the mode after the file name is ignored by the server.\<close>

definition rrq :: "u8 list \<Rightarrow> u8 list" where "rrq name = be16 1 @ name @ [0, 111, 99, 116, 101, 116, 0]"
definition wrq :: "u8 list \<Rightarrow> u8 list" where "wrq name = be16 2 @ name @ [0, 111, 99, 116, 101, 116, 0]"
definition data_pk :: "nat \<Rightarrow> u8 list \<Rightarrow> u8 list" where "data_pk k d = be16 3 @ be16 (of_nat k) @ d"
definition ack_pk :: "nat \<Rightarrow> u8 list" where "ack_pk k = be16 4 @ be16 (of_nat k)"
definition error_pk :: "u8 list" where "error_pk = be16 5 @ be16 0 @ [0]"

definition block_of :: "u8 list \<Rightarrow> nat \<Rightarrow> u8 list" where
  "block_of c k = take 512 (drop (512 * k) c)"

subsection \<open>Packets\<close>

lemma put_packet_ack: "put_packet (ack_pk k) buf = be16 4 @ be16 (of_nat k) @ drop 4 buf"
  by (simp add: put_packet_def ack_pk_def)

lemma block_length: "512 * k + length (block_of c k) \<le> length c" if "512 * k \<le> length c"
  using that by (simp add: block_of_def)

lemma block_short: "512 * k \<le> length c \<Longrightarrow> length (block_of c k) < 512 \<longleftrightarrow> k = length c div 512"
  by (auto simp: block_of_def min_def div_le_dividend)

lemma ack_ok: "k < 2 ^ 16 - 1 \<Longrightarrow> \<not> (of_nat k + 1 < (of_nat k :: u16))"
  by (simp add: word_less_nat_alt unat_word_ariths unat_of_nat)

subsection \<open>Downloads\<close>

lemma send_data_run:
  assumes "vfs_fseek vf h (of_nat (512 * k)) SEEK_SET s = Some (r, h1, s)" and "vfs_read vf h1 512 s = Some (of_nat m, d, h2, s)"
    and m: "m \<le> length d" and d: "length d \<le> 512" and buf: "516 \<le> length buf" and k: "k < 2 ^ 16"
    and t: "t_fh t = Some h" "\<not> t_finished t" "t_transfered t = of_nat k"
  shows "send_data vf buf t s = Some (Some (data_pk (Suc k) (take m d)), False,
    t\<lparr>t_fh := Some h2, t_finished := (m < 512), t_transfered := of_nat (Suc k)\<rparr>, s)"
proof -
  have off: "(ucast (of_nat k :: u16) * 512 :: u32) = of_nat (512 * k)"
    using k by (simp add: word_unat_eq_iff unat_word_ariths unat_of_nat unsigned_ucast_eq take_bit_nat_eq_self)
  have sd: "sint (of_nat m :: u32) = int m" using m d by (simp add: signed_of_nat signed_take_bit_int_eq_self)
  have ud: "unat (of_nat m :: u32) = m" using m d by (simp add: unat_of_nat)
  have m1: "memcpy buf 0 (be16 3 @ be16 (of_nat k + 1)) = Some (be16 3 @ be16 (of_nat k + 1) @ drop 4 buf)"
    using buf by (simp add: memcpy_def)
  have m2: "memcpy (be16 3 @ be16 (of_nat k + 1) @ drop 4 buf) 4 d = Some (be16 3 @ be16 (of_nat k + 1) @ d @ drop (4 + length d) buf)"
    using buf d by (auto simp: memcpy_def add.commute)
  show ?thesis
    unfolding send_data_def t(1,3) m1 Option.bind.bind_lunit off assms(1) prod.case assms(2) m2 Let_def sd ud
    using t m by (cases t) (auto simp: data_pk_def add.commute)
qed

text \<open>
  What a download needs: while \<open>src c h s\<close> holds, the handle \<open>h\<close> is one to a file with the contents
  \<open>c\<close>, from which any block can be read; closing it gives the memory of the handle back, \<open>rel\<close>.
\<close>

locale block_source =
  fixes vf :: "('u, 's) vfs_func_t list"
    and src :: "u8 list \<Rightarrow> 'u vfs_file_handle_t \<Rightarrow> 's \<Rightarrow> bool"
    and rel :: "'s \<Rightarrow> 's"
  assumes seek_read: "src c h s \<Longrightarrow> 512 * k \<le> length c \<Longrightarrow>
      \<exists>r h1 h2. vfs_fseek vf h (of_nat (512 * k)) SEEK_SET s = Some (r, h1, s)
        \<and> vfs_read vf h1 512 s = Some (of_nat (length (block_of c k)), block_of c k, h2, s) \<and> src c h2 s"
    and close: "src c h s \<Longrightarrow> vfs_close vf h s = Some (rel s)"
    and small: "src c h s \<Longrightarrow> length c < 2 ^ 16"
begin

lemma send_data_block:
  assumes "src c h s" and "512 * k \<le> length c" and "516 \<le> length buf"
    and "t_fh t = Some h" and "\<not> t_finished t" and "t_transfered t = of_nat k"
  shows "\<exists>h2. send_data vf buf t s = Some (Some (data_pk (Suc k) (block_of c k)), False,
      t\<lparr>t_fh := Some h2, t_finished := (k = length c div 512), t_transfered := of_nat (Suc k)\<rparr>, s) \<and> src c h2 s"
proof -
  obtain r h1 h2 where h: "vfs_fseek vf h (of_nat (512 * k)) SEEK_SET s = Some (r, h1, s)"
      "vfs_read vf h1 512 s = Some (of_nat (length (block_of c k)), block_of c k, h2, s)" "src c h2 s"
    using seek_read [OF assms(1,2)] by blast
  have "k < 2 ^ 16" "length (block_of c k) \<le> 512" using small [OF assms(1)] assms(2) by (simp_all add: block_of_def)
  then show ?thesis
    using send_data_run [OF h(1,2) order_refl _ assms(3) _ assms(4-6)] block_short [OF assms(2)] h(3) by auto
qed

lemma close_run:
  assumes "src c h s" and "t_fh t = Some h"
  shows "close_connection vf out t s = Some (out, True, t\<lparr>t_fh := None\<rparr>, rel s)"
  using close [OF assms(1)] assms(2) by (simp add: close_connection_def)

text \<open>The client acknowledges the blocks from \<open>k\<close> on and gets the following ones.\<close>

lemma acks_run:
  assumes "516 \<le> length buf"
  shows "src c h s \<Longrightarrow> 0 < k \<Longrightarrow> k \<le> length c div 512 + 1 \<Longrightarrow> t_fh t = Some h \<Longrightarrow> t_download t \<Longrightarrow>
    t_finished t = (k = length c div 512 + 1) \<Longrightarrow> t_transfered t = of_nat k \<Longrightarrow>
    \<exists>t'. tftp_run vf buf (map ack_pk [k..<length c div 512 + 2]) t s =
      Some (map (\<lambda>i. Some (data_pk (Suc i) (block_of c i))) [k..<length c div 512 + 1] @ [None], t', rel s) \<and> t_fh t' = None"
proof (induction "length c div 512 + 1 - k" arbitrary: k h t)
  case 0
  then have k: "k = length c div 512 + 1" by simp
  have up: "[k..<length c div 512 + 2] = [k]" "[k..<length c div 512 + 1] = []" using k by simp_all
  have t: "t\<lparr>t_transfered := of_nat k\<rparr> = t" using 0(8) by simp
  have f: "t_finished t" and kb: "k < 2 ^ 16 - 1" using 0(7) small [OF 0(2)] k by simp_all
  have "tftp_handle_packet vf (put_packet (ack_pk k) buf) 4 t s = Some (None, True, t\<lparr>t_fh := None\<rparr>, rel s)"
    using 0(6,8) f close_run [OF 0(2,5), of None] ack_ok [OF kb] by (simp add: t tftp_handle_packet_def put_packet_ack send_data_def)
  then show ?case unfolding up by (simp add: ack_pk_def)
next
  case (Suc m)
  let ?n = "length c div 512 + 1"
  have k: "k \<le> length c div 512" "512 * k \<le> length c" "m = ?n - Suc k" using Suc(2) by auto
  have up: "[k..<?n + 1] = k # [Suc k..<?n + 1]" "[k..<?n] = k # [Suc k..<?n]" using k by (simp_all add: upt_rec)
  have nf: "\<not> t_finished t" using Suc(8) k(1) by simp
  have t: "t\<lparr>t_transfered := of_nat k\<rparr> = t" using Suc(9) by simp
  have len: "516 \<le> length (put_packet (ack_pk k) buf)" using assms by (simp add: put_packet_ack)
  define t1 where "t1 h2 = t\<lparr>t_fh := Some h2, t_finished := (k = length c div 512), t_transfered := of_nat (Suc k)\<rparr>" for h2
  obtain h2 where h2: "send_data vf (put_packet (ack_pk k) buf) t s = Some (Some (data_pk (Suc k) (block_of c k)), False, t1 h2, s)" "src c h2 s"
    using send_data_block [OF Suc(3) k(2) len Suc(6) nf Suc(9)] unfolding t1_def by blast
  have p: "tftp_handle_packet vf (put_packet (ack_pk k) buf) 4 t s = Some (Some (data_pk (Suc k) (block_of c k)), False, t1 h2, s)"
    using h2(1) Suc(7,9) ack_ok [of k] small [OF Suc(3)] k(2) by (simp add: t tftp_handle_packet_def put_packet_ack)
  have "\<exists>t'. tftp_run vf buf (map ack_pk [Suc k..<length c div 512 + 2]) (t1 h2) s =
      Some (map (\<lambda>i. Some (data_pk (Suc i) (block_of c i))) [Suc k..<?n] @ [None], t', rel s) \<and> t_fh t' = None"
    using k Suc(5,7) by (intro Suc(1) [OF k(3) h2(2)]) (auto simp: t1_def)
  then obtain t' where "tftp_run vf buf (map ack_pk [Suc k..<length c div 512 + 2]) (t1 h2) s =
      Some (map (\<lambda>i. Some (data_pk (Suc i) (block_of c i))) [Suc k..<?n] @ [None], t', rel s)"
      "t_fh t' = None" by blast
  then show ?case using up p by (simp add: ack_pk_def del: upt_Suc)
qed

text \<open>The whole download: the request for the file, then the acknowledgements.\<close>

lemma download:
  assumes "516 \<le> length buf" and "length (rrq name) \<le> length buf" and "0 \<notin> set name"
    and "vfs_open vf (name @ [0, 111, 99, 116, 101, 116, 0] @ drop (length (rrq name)) buf) s0 = Some (Some h, s)" and "src c h s"
  shows "\<exists>t'. tftp_run vf buf (rrq name # map ack_pk [1..<length c div 512 + 2]) t s0 =
      Some (map (\<lambda>i. Some (data_pk (Suc i) (block_of c i))) [0..<length c div 512 + 1] @ [None], t', rel s) \<and> t_fh t' = None"
proof -
  let ?n = "length c div 512 + 1" and ?b = "put_packet (rrq name) buf"
  have b: "?b = be16 1 @ name @ [0, 111, 99, 116, 101, 116, 0] @ drop (length (rrq name)) buf"
    by (simp add: put_packet_def rrq_def)
  have d: "drop 2 ?b = name @ [0, 111, 99, 116, 101, 116, 0] @ drop (length (rrq name)) buf" unfolding b by simp
  have len: "516 \<le> length ?b" using assms(1,2) by (simp add: put_packet_def)
  define t0 where "t0 = t\<lparr>t_download := True, t_transfered := 0, t_finished := False, t_fh := Some h\<rparr>"
  define t1 where "t1 h2 = t0\<lparr>t_fh := Some h2, t_finished := (0 = length c div 512), t_transfered := of_nat (Suc 0)\<rparr>" for h2
  obtain h2 where h2: "send_data vf ?b t0 s = Some (Some (data_pk (Suc 0) (block_of c 0)), False, t1 h2, s)" "src c h2 s"
    using send_data_block [OF assms(5) _ len, of 0 t0] unfolding t1_def by (auto simp: t0_def)
  have "get_be16 ?b 0 = Some 1" unfolding b by simp
  then have p: "tftp_handle_packet vf ?b (length (rrq name)) t s0 = Some (Some (data_pk (Suc 0) (block_of c 0)), False, t1 h2, s)"
    using assms(4) h2(1) unfolding tftp_handle_packet_def d by (simp add: t0_def)
  obtain t' where "tftp_run vf buf (map ack_pk [1..<length c div 512 + 2]) (t1 h2) s =
      Some (map (\<lambda>i. Some (data_pk (Suc i) (block_of c i))) [1..<?n] @ [None], t', rel s)"
      "t_fh t' = None"
    using acks_run [OF assms(1) h2(2), of 1 "t1 h2"] by (auto simp: t1_def t0_def)
  moreover have "[0..<?n] = 0 # [1..<?n]" by (simp add: upt_rec)
  ultimately show ?thesis using p by (simp del: upt_Suc)
qed

end

subsection \<open>The table of the firmware\<close>

lemma inline_open_loop_cstr:
  "inline_open_loop fc name off st = Some r \<Longrightarrow> cstr name = cstr name' \<Longrightarrow> inline_open_loop fc name' off st = Some r"
proof (induction fc name off st r rule: inline_open_loop.raw_induct [rotated 1, consumes 1, case_names step])
  case (step loop fc n off st r)
  have m: "inline_match fc n off = inline_match fc name' off"
    using step.prems by (simp add: inline_match_def strncmp_eq_def)
  show ?case
    using step m by (subst inline_open_loop.simps) (auto split: if_splits)
qed

lemma inline_open_cstr: "cstr name = cstr name' \<Longrightarrow> vfs_inline_open fc name st = vfs_inline_open fc name' st"
  unfolding vfs_inline_open_def
  by (metis inline_open_loop_cstr not_None_eq)

lemma cstr_plain: "0 \<notin> set name \<Longrightarrow> cstr name = name"
  by (auto simp: cstr_def takeWhile_eq_all_conv)


lemma store_seek_set:
  assumes inv: "sfs_inv cf fs st" and op: "sfs_opened fs h n p" and dir: "sfs_dir fs n = Some c" and q: "q \<le> length c"
  shows "\<exists>h'. vfs_fseek (vfs_funcs cf fc) h (of_nat q) SEEK_SET st = Some (0, h', st) \<and> sfs_opened fs h' n q"
proof -
  obtain xs f ys where fs: "fs = xs @ f # ys" and f: "f_name f = n" "f_cont f = c" "h = ee_handle (f_inode f) (of_nat p)"
      and inv': "sfs_inv cf (xs @ f # ys) st"
    using sfs_opened_split [OF inv op dir] by metis
  have len: "length c < 2 ^ 16" using content_bound [OF inv', of f] f(2) by simp
  then have u: "ucast (of_nat q :: u32) = (of_nat q :: u16)" "ucast (of_nat q :: u16) = (of_nat q :: u32)"
    using q ucast_16_32 [of q] by auto
  have le: "\<not> (of_nat (length c) :: u32) < of_nat q" using q len by (simp add: word_less_nat_alt unat_of_nat)
  have "vfs_eeprom_fseek cf h (of_nat q) SEEK_SET st = Some (0, ee_handle (f_inode f) (of_nat q), st)"
    using eeprom_filesize [OF inv', of f "of_nat p"] f(2) le by (simp add: vfs_eeprom_fseek_def f(3) seek_defs u)
  then show ?thesis using f fs by (auto simp: vfs_fseek_def sfs_opened_def)
qed


lemma ee_read_block:
  assumes inv: "sfs_inv cf fs st" and op: "sfs_opened fs h n (512 * k)" and dir: "sfs_dir fs n = Some c" and k: "512 * k \<le> length c"
  shows "\<exists>h'. vfs_read (vfs_funcs cf fc) h 512 st =
      Some (if tail_lost cf c (512 * k) 512 then 0 else of_nat (length (block_of c k)), block_of c k, h', st)
    \<and> sfs_opened fs h' n (512 * k + length (block_of c k))"
proof -
  obtain xs f ys where fs: "fs = xs @ f # ys" and f: "f_name f = n" "f_cont f = c" "h = ee_handle (f_inode f) (of_nat (512 * k))"
      and inv': "sfs_inv cf (xs @ f # ys) st"
    using sfs_opened_split [OF inv op dir] by metis
  have u: "unat (of_nat (512 * k) :: u16) = 512 * k" using content_bound [OF inv', of f] f(2) k by (simp add: unat_of_nat del: of_nat_mult)
  show ?thesis
    using eeprom_read [OF inv', of f "of_nat (512 * k)" 512] f k fs unfolding u
    by (auto simp: Let_def vfs_read_def sfs_opened_def block_of_def)
qed


text \<open>An open file in the program memory.\<close>

definition il_source :: "flash_conf \<Rightarrow> u8 list \<Rightarrow> handle \<Rightarrow> sfs_state \<Rightarrow> bool" where
  "il_source fc c h st \<longleftrightarrow> (\<exists>off p. flash_has fc off c \<and> p \<le> length c \<and> h = il_handle off (of_nat p) (of_nat (length c)))"

lemma vfs_func_il [simp]: "vfs_func (vfs_funcs cf fc) (il_handle off p n) = Some (VFS_INLINE_FUNCS fc)"
  by (simp add: vfs_func_def vfs_funcs_def il_handle_def VFS_INLINE_def)

interpretation il_blocks: block_source "vfs_funcs cf fc" "il_source fc" free_fh
  for cf fc
proof unfold_locales
  fix c h st k
  assume "il_source fc c h st" and k: "512 * k \<le> length c"
  then obtain off p where c: "flash_has fc off c" "p \<le> length c" "length c < 2 ^ 16" and h: "h = il_handle off (of_nat p) (of_nat (length c))"
    by (auto simp: il_source_def flash_has_def)
  have u: "unat (of_nat (512 * k) :: u32) = 512 * k" using k c(3) by (simp add: unat_of_nat del: of_nat_mult)
  let ?h1 = "il_handle off (of_nat (512 * k)) (of_nat (length c))"
    and ?h2 = "il_handle off (of_nat (512 * k + length (block_of c k))) (of_nat (length c))"
  have "vfs_fseek (vfs_funcs cf fc) h (of_nat (512 * k)) SEEK_SET st = Some (0, ?h1, st)"
    using inline_seek [OF c(2,3) refl, where whence = SEEK_SET and off = off and d = "of_nat (512 * k)" and st = st] k c(3) u
    by (simp add: vfs_fseek_def h VFS_INLINE_FUNCS_def Let_def seek_defs)
  moreover have "vfs_read (vfs_funcs cf fc) ?h1 512 st = Some (of_nat (length (block_of c k)), block_of c k, ?h2, st)"
    using inline_read [OF c(1) k, of 512 st] by (simp add: vfs_read_def VFS_INLINE_FUNCS_def Let_def block_of_def)
  moreover have "il_source fc c ?h2 st" unfolding il_source_def using c(1) block_length [OF k] by blast
  ultimately show "\<exists>r h1 h2. vfs_fseek (vfs_funcs cf fc) h (of_nat (512 * k)) SEEK_SET st = Some (r, h1, st)
      \<and> vfs_read (vfs_funcs cf fc) h1 512 st = Some (of_nat (length (block_of c k)), block_of c k, h2, st) \<and> il_source fc c h2 st"
    by blast
next
  fix c h st
  assume src: "il_source fc c h st"
  then show "vfs_close (vfs_funcs cf fc) h st = Some (free_fh st)"
    by (auto simp: il_source_def vfs_close_def VFS_INLINE_FUNCS_def vfs_inline_close_def)
  show "length c < 2 ^ 16" using src by (auto simp: il_source_def flash_has_def)
qed

text \<open>What the client has received: the data of the packets.\<close>

definition received :: "u8 list option list \<Rightarrow> u8 list" where
  "received outs = concat (map (\<lambda>out. case out of Some p \<Rightarrow> drop 4 p | None \<Rightarrow> []) outs)"

lemma concat_blocks: "m \<le> length c div 512 + 1 \<Longrightarrow> concat (map (block_of c) [0..<m]) = take (512 * m) c"
proof (induction m)
  case (Suc m)
  then show ?case by (simp add: block_of_def take_add add.commute [of 512])
qed simp

lemma received_blocks:
  "received (map (\<lambda>i. Some (data_pk (Suc i) (block_of c i))) [0..<length c div 512 + 1] @ [None]) = c"
proof -
  have "length c \<le> 512 * (length c div 512 + 1)" using dividend_less_times_div [of 512 "length c"] by simp
  then have "concat (map (block_of c) [0..<length c div 512 + 1]) = c" using concat_blocks [OF order_refl, of c] by simp
  moreover have "drop 4 (data_pk k d) = d" for k d by (simp add: data_pk_def)
  ultimately show ?thesis by (simp add: received_def comp_def del: upt_Suc)
qed

subsection \<open>Whole transfers\<close>

definition fresh_connection :: "'u tftp_connection_state_t" where
  "fresh_connection = \<lparr>t_fh = None, t_download = False, t_finished = False, t_transfered = 0\<rparr>"



lemma inline_opened:
  assumes "sfs_inv cf fs st" and "sfs_dir fs name = None" and "cstr raw = name" and "0 < fh_avail st"
    and "vfs_inline_open fc name st = Some (malloc_fh (il_handle off 0 (of_nat (length c))) st)" and "flash_has fc off c"
  shows "vfs_open (vfs_funcs cf fc) raw st = Some (Some (il_handle off 0 (of_nat (length c))), st\<lparr>fh_avail := fh_avail st - 1\<rparr>)"
    and "il_source fc c (il_handle off 0 (of_nat (length c))) st'" and "free_fh (st\<lparr>fh_avail := fh_avail st - 1\<rparr>) = st"
proof -
  have "0 \<notin> set name" using assms(3) cstr_no_zero by metis
  then have "vfs_inline_open fc raw st = Some (Some (il_handle off 0 (of_nat (length c))), st\<lparr>fh_avail := fh_avail st - 1\<rparr>)"
    using inline_open_cstr [of raw name fc st] assms(3-5) by (simp add: cstr_plain malloc_fh_def)
  moreover have "vfs_eeprom_open cf raw st = Some (None, st)" using open_not_found [OF assms(1)] assms(2,3) by (simp add: sfs_dir_None)
  ultimately show "vfs_open (vfs_funcs cf fc) raw st = Some (Some (il_handle off 0 (of_nat (length c))), st\<lparr>fh_avail := fh_avail st - 1\<rparr>)"
    by (simp add: vfs_open_def)
  show "il_source fc c (il_handle off 0 (of_nat (length c))) st'" using assms(6) unfolding il_source_def by (intro exI [of _ off] conjI exI [of _ 0]) simp_all
  show "free_fh (st\<lparr>fh_avail := fh_avail st - 1\<rparr>) = st" using assms(4) by (simp add: free_fh_def)
qed

lemma tftp_download_inline:
  assumes "sfs_inv cf fs st" and "sfs_dir fs name = None" and "0 \<notin> set name" and "0 < fh_avail st"
    and "vfs_inline_open fc name st = Some (malloc_fh (il_handle off 0 (of_nat (length c))) st)" and "flash_has fc off c"
    and "516 \<le> length buf" and "length (rrq name) \<le> length buf"
  shows "\<exists>outs t'. tftp_run (vfs_funcs cf fc) buf (rrq name # map ack_pk [1..<length c div 512 + 2]) t st = Some (outs, t', st)
    \<and> received outs = c \<and> t_fh t' = None"
proof -
  define raw where "raw = name @ 0 # [111, 99, 116, 101, 116, 0] @ drop (length (rrq name)) buf"
  have "cstr raw = name" using assms(3) unfolding raw_def by simp
  note op = inline_opened [OF assms(1,2) this assms(4-6)]
  show ?thesis
    using il_blocks.download [OF assms(7,8,3) _ op(2) [of "st\<lparr>fh_avail := fh_avail st - 1\<rparr>"], of cf st t] op(1,3) received_blocks [of c] by (auto simp: raw_def simp del: upt_Suc)
qed

subsection \<open>Uploads\<close>


lemma put_packet_data: "put_packet (data_pk k d) buf = be16 3 @ be16 (of_nat k) @ d @ drop (4 + length d) buf"
  by (simp add: put_packet_def data_pk_def numeral_eq_Suc)









subsection \<open>What goes wrong\<close>

text \<open>A data packet as the first one is written through a null pointer.\<close>

lemma data_without_request:
  "tftp_run vf buf [data_pk 1 d] fresh_connection st = None"
  by (simp add: tftp_handle_packet_def put_packet_data fresh_connection_def del: One_nat_def)

text \<open>
  The client repeats its last acknowledgement when a data packet was lost; the server answers
  with an error and closes the file, although it seeks for each block to be able to send it again.
\<close>

lemma lost_block_not_resent:
  assumes "t_download t" and "t_transfered t = of_nat (Suc k)" and "Suc k < 2 ^ 16" and "t_fh t = None \<or> (\<exists>h s'. t_fh t = Some h \<and> vfs_close vf h st = Some s')"
  shows "\<exists>t' s'. tftp_run vf buf [ack_pk k] t st = Some ([Some error_pk], t', s') \<and> t_fh t' = None"
proof -
  have "of_nat k < (of_nat (Suc k) :: u16)" using assms(3) by (simp add: word_less_nat_alt unat_word_ariths unat_of_nat)
  then show ?thesis
    using assms by (auto simp: tftp_handle_packet_def put_packet_ack error_out_def close_connection_def error_pk_def simp del: of_nat_Suc)
qed

text \<open>A file whose size is a multiple of 512 ends with an empty block, which is answered with an error.\<close>

lemma empty_block_error:
  "do {
     (outs, t, st) \<leftarrow> tftp_run (vfs_funcs (demo_conf 6) demo_flash) (replicate 516 0) [wrq [98], data_pk 1 []] fresh_connection (demo_dev [1] 3);
     Some (outs, t_fh t)
   } = Some ([Some (ack_pk 0), Some error_pk], None)"
  by code_simp

text \<open>The EEPROM has no \<^verbatim>\<open>truncate\<close>: the old contents of a file stay in it.\<close>

lemma old_contents_kept:
  "do {
     (outs, t, st) \<leftarrow> tftp_run (vfs_funcs (demo_conf 6) demo_flash) (replicate 516 0) [wrq [97]] fresh_connection (demo_dev [1, 2, 3] 3);
     h \<leftarrow> t_fh t;
     n \<leftarrow> vfs_eeprom_filesize (demo_conf 6) h st;
     Some (outs, n)
   } = Some ([Some (ack_pk 0)], 3)"
  by code_simp

text \<open>A request that is sent twice opens the file twice, and it is closed once.\<close>

lemma repeated_request_leaks:
  "do {
     (outs, t, st) \<leftarrow> tftp_run (vfs_funcs (demo_conf 3) demo_flash) (replicate 516 0) [rrq [97], rrq [97], ack_pk 1] fresh_connection (demo_dev [1] 0);
     Some (outs, t_fh t, fh_avail (demo_dev [1] 0), fh_avail st)
   } = Some ([Some (data_pk 1 [1]), Some (data_pk 1 [1]), None], None, 2, 1)"
  by code_simp

text \<open>
  The read of the rest returns 0 when it starts inside the last page of the file: the last data
  packet is empty and the download ends with the file cut off.
\<close>

lemma download_tail_lost:
  assumes inv: "sfs_inv cf fs st" and op: "sfs_opened fs h n p" and dir: "sfs_dir fs n = Some c"
    and k: "k = length c div 512" and lost: "tail_lost cf c (512 * k) 512" and t: "t_fh t = Some h" "\<not> t_finished t" "t_transfered t = of_nat k"
    and buf: "516 \<le> length buf"
  shows "\<exists>t'. send_data (vfs_funcs cf fc) buf t st = Some (Some (data_pk (Suc k) []), False, t', st) \<and> t_finished t'"
proof -
  have kc: "512 * k \<le> length c" using k by simp
  obtain f where "f \<in> set fs" "f_cont f = c" using sfs_dir_Some [OF inv dir] by metis
  then have small: "k < 2 ^ 16" using content_bound [OF inv, of f] kc by simp
  obtain h1 where h1: "vfs_fseek (vfs_funcs cf fc) h (of_nat (512 * k)) SEEK_SET st = Some (0, h1, st)" "sfs_opened fs h1 n (512 * k)"
    using store_seek_set [OF inv op dir kc] by blast
  obtain h2 where h2: "vfs_read (vfs_funcs cf fc) h1 512 st = Some (0, block_of c k, h2, st)"
    using ee_read_block [OF inv h1(2) dir kc] lost by auto
  have "length (block_of c k) \<le> 512" by (simp add: block_of_def)
  then show ?thesis using send_data_run [OF h1(1), of 0, simplified, OF h2 _ _ _ t] buf small by auto
qed

end
