(* ===== verification/E6_Tty.thy ===== *)
theory E6_Tty
  imports E6_Cstring E6_Queue
begin

text \<open>
  The curses-like text layer of \<^verbatim>\<open>core/tty/tty.c\<close>: windows on one off-screen image, which is kept
  in step with the attached displays by low-level calls.  The calls of the display drivers
  (\<^verbatim>\<open>tty_ll_clear\<close>, \<^verbatim>\<open>tty_ll_goto\<close>, \<^verbatim>\<open>tty_ll_put\<close>) are recorded in \<open>ll_out\<close>, in their order; what
  the displays show is the replay of that record.  The functions that print call each other
  (\<^verbatim>\<open>waddch\<close>, \<^verbatim>\<open>wscroll\<close>, \<^verbatim>\<open>wclrtobot\<close>, \<^verbatim>\<open>waddch\<close>): those below \<^verbatim>\<open>waddch\<close> take it as their first
  argument, and \<open>waddch\<close> has the number of its nested activations as fuel.  \<open>None\<close> is an access
  outside of the image, a loop that does not end, or a lack of fuel; none of them happens
  with fuel two and windows inside of the screen.
\<close>

subsection \<open>Data\<close>

text \<open>The size of the screen, as \<^verbatim>\<open>core/tty/config.in\<close> sets it by default.\<close>

definition LINES :: nat where "LINES = 4"
definition COLS :: nat where "COLS = 16"

datatype ll_cmd = LL_clear | LL_goto u8 u8 | LL_put u8 u8 u8

record tty =
  tty_image :: "u8 list"
  tty_ll_y :: u8
  tty_ll_x :: u8
  ll_out :: "ll_cmd list"

record WINDOW =
  is_subwin :: bool
  linewrap :: bool
  scrollok :: bool
  leaveok :: bool
  cur_y :: u8
  cur_x :: u8
  maxy :: u8
  maxx :: u8
  begy :: u8
  begx :: u8

type_synonym win_st = "WINDOW \<times> tty"
type_synonym add_fun = "u8 \<Rightarrow> win_st \<Rightarrow> win_st option"

definition map_idx :: "WINDOW \<Rightarrow> nat \<Rightarrow> nat \<Rightarrow> nat" where
  "map_idx win y x = (y + unat (begy win)) * COLS + (x + unat (begx win))"

subsection \<open>Low-level output\<close>

definition tty_ll_clear :: "tty \<Rightarrow> tty" where
  "tty_ll_clear t = t\<lparr>ll_out := ll_out t @ [LL_clear]\<rparr>"

definition tty_ll_goto :: "u8 \<Rightarrow> u8 \<Rightarrow> tty \<Rightarrow> tty" where
  "tty_ll_goto y x t =
     (if y = tty_ll_y t \<and> x = tty_ll_x t then t
      else t\<lparr>ll_out := ll_out t @ [LL_goto y x], tty_ll_y := y, tty_ll_x := x\<rparr>)"

definition tty_ll_put :: "u8 \<Rightarrow> u8 \<Rightarrow> u8 \<Rightarrow> tty \<Rightarrow> tty" where
  "tty_ll_put y x ch t =
     (let t = (if y \<noteq> tty_ll_y t \<or> x \<noteq> tty_ll_x t then tty_ll_goto y x t else t);
          t = t\<lparr>ll_out := ll_out t @ [LL_put y x ch]\<rparr>
      in t\<lparr>tty_ll_x := tty_ll_x t + 1\<rparr>)"

definition initscr :: "win_st \<Rightarrow> win_st" where
  "initscr st =
     (case st of (curscr, t) \<Rightarrow>
        (curscr\<lparr>linewrap := True, scrollok := True, leaveok := True,
                maxx := of_nat COLS - 1, maxy := of_nat LINES - 1\<rparr>,
         tty_ll_clear t))"

subsection \<open>Windows\<close>

definition wmove :: "u8 \<Rightarrow> u8 \<Rightarrow> win_st \<Rightarrow> win_st" where
  "wmove y x st =
     (case st of (win, t) \<Rightarrow>
        if y > maxy win \<or> x > maxx win then st
        else (let win = win\<lparr>cur_y := y, cur_x := x\<rparr>
              in (win, if \<not> leaveok win then tty_ll_goto (y + begy win) (x + begx win) t else t)))"

primrec add_spaces :: "add_fun \<Rightarrow> nat \<Rightarrow> win_st \<Rightarrow> win_st option" where
  "add_spaces add 0 st = Some st"
| "add_spaces add (Suc i) st = do { st \<leftarrow> add ch_space st; add_spaces add i st }"

definition wspacetoeol :: "add_fun \<Rightarrow> win_st \<Rightarrow> win_st option" where
  "wspacetoeol add st =
     (let i = maxx (fst st) - cur_x (fst st) + 1 in add_spaces add (unat i) st)"

definition wclrtoeol :: "add_fun \<Rightarrow> win_st \<Rightarrow> win_st option" where
  "wclrtoeol add st =
     (let y = cur_y (fst st); x = cur_x (fst st) in do {
        st \<leftarrow> wspacetoeol add st;
        Some (wmove y x st)
      })"

partial_function (option) clr_rows :: "add_fun \<Rightarrow> u8 \<Rightarrow> win_st \<Rightarrow> win_st option" where
  "clr_rows add y st =
     (if y \<le> maxy (fst st) then do {
        st \<leftarrow> wspacetoeol add (wmove y 0 st);
        clr_rows add (y + 1) st
      } else Some st)"

declare clr_rows.simps [code]

definition wclrtobot :: "add_fun \<Rightarrow> win_st \<Rightarrow> win_st option" where
  "wclrtobot add st =
     (let y = cur_y (fst st); x = cur_x (fst st) in do {
        st \<leftarrow> wspacetoeol add st;
        st \<leftarrow> clr_rows add (y + 1) st;
        Some (wmove y x st)
      })"

definition wclear :: "add_fun \<Rightarrow> win_st \<Rightarrow> win_st option" where
  "wclear add st =
     (case st of (win, t) \<Rightarrow>
        if \<not> is_subwin win then
          Some (win\<lparr>cur_y := 0, cur_x := 0\<rparr>,
                tty_ll_clear (t\<lparr>tty_image := replicate (LINES * COLS) 32\<rparr>))
        else wclrtobot add (wmove 0 0 st))"

partial_function (option) copy_row :: "add_fun \<Rightarrow> nat \<Rightarrow> u8 \<Rightarrow> win_st \<Rightarrow> win_st option" where
  "copy_row add src x st =
     (if x \<le> maxx (fst st) then do {
        ch \<leftarrow> peek (tty_image (snd st)) (map_idx (fst st) src (unat (cur_x (fst st))));
        st \<leftarrow> add ch st;
        copy_row add src (x + 1) st
      } else Some st)"

partial_function (option) copy_rows :: "add_fun \<Rightarrow> u8 \<Rightarrow> u8 \<Rightarrow> win_st \<Rightarrow> win_st option" where
  "copy_rows add ls y st =
     (if int (unat y) \<le> int (unat (maxy (fst st))) - int (unat ls) then do {
        st \<leftarrow> copy_row add (unat y + unat ls) 0 (wmove y 0 st);
        copy_rows add ls (y + 1) st
      } else Some st)"

declare copy_row.simps [code] copy_rows.simps [code]

definition wscroll :: "add_fun \<Rightarrow> u8 \<Rightarrow> win_st \<Rightarrow> win_st option" where
  "wscroll add ls st =
     (if ls > maxy (fst st) then wclear add st
      else do {
        st \<leftarrow> copy_rows add ls 0 st;
        wclrtobot add (wmove (maxy (fst st) - ls + 1) 0 st)
      })"

text \<open>The end of \<^verbatim>\<open>waddch\<close>: the character is put at the cursor, which is inside of the window.\<close>

definition waddch_put :: "u8 \<Rightarrow> win_st \<Rightarrow> win_st option" where
  "waddch_put ch st =
     (case st of (win, t) \<Rightarrow>
        if ch = ch_nl \<or> ch = ch_cr then
          let win = (if ch = ch_nl then win\<lparr>cur_y := cur_y win + 1\<rparr> else win);
              win = win\<lparr>cur_x := 0\<rparr>
          in Some (win, if \<not> leaveok win
                        then tty_ll_goto (cur_y win + begy win) (cur_x win + begx win) t else t)
        else
          let i = map_idx win (unat (cur_y win)) (unat (cur_x win)) in do {
            old \<leftarrow> peek (tty_image t) i;
            t \<leftarrow> (if old \<noteq> ch then do {
                   img \<leftarrow> poke (tty_image t) i ch;
                   Some (tty_ll_put (cur_y win + begy win) (cur_x win + begx win) ch
                           (t\<lparr>tty_image := img\<rparr>))
                 } else Some t);
            Some (if cur_x win = maxx win
                  then let win = (if linewrap win then win\<lparr>cur_y := cur_y win + 1, cur_x := 0\<rparr> else win)
                       in (win, if \<not> leaveok win then tty_ll_goto (cur_y win + begy win) (begx win) t else t)
                  else (win\<lparr>cur_x := cur_x win + 1\<rparr>, t))
          })"

primrec waddch :: "nat \<Rightarrow> u8 \<Rightarrow> win_st \<Rightarrow> win_st option" where
  "waddch 0 ch st = None"
| "waddch (Suc n) ch st =
     (if cur_y (fst st) > maxy (fst st) then
        if \<not> scrollok (fst st) then Some st
        else do {
          st \<leftarrow> wscroll (waddch n) (cur_y (fst st) - maxy (fst st)) st;
          waddch_put ch st
        }
      else waddch_put ch st)"

primrec waddstr :: "add_fun \<Rightarrow> u8 list \<Rightarrow> win_st \<Rightarrow> win_st option" where
  "waddstr add [] st = None"
| "waddstr add (c # cs) st = (if c = 0 then Some st else do { st \<leftarrow> add c st; waddstr add cs st })"

definition waddstr_P :: "add_fun \<Rightarrow> u8 list \<Rightarrow> win_st \<Rightarrow> win_st option" where
  "waddstr_P = waddstr"

text \<open>\<open>txt\<close> is the expansion of the format; \<^verbatim>\<open>vsnprintf\<close> cuts it to the buffer of \<^verbatim>\<open>COLS + 1\<close> bytes.\<close>

definition wprintw :: "add_fun \<Rightarrow> u8 list \<Rightarrow> win_st \<Rightarrow> win_st option" where
  "wprintw add txt st = waddstr add (take COLS txt @ [0]) st"

definition wprintw_P :: "add_fun \<Rightarrow> u8 list \<Rightarrow> win_st \<Rightarrow> win_st option" where
  "wprintw_P add txt st = waddstr add (take COLS txt @ [0]) st"

definition subwin :: "bool \<Rightarrow> u8 \<Rightarrow> u8 \<Rightarrow> u8 \<Rightarrow> u8 \<Rightarrow> WINDOW option" where
  "subwin malloc ls cols oy ox =
     (if \<not> malloc then None
      else Some \<lparr>is_subwin = True, linewrap = True, scrollok = True, leaveok = True,
                 cur_y = 0, cur_x = 0, maxy = ls - 1, maxx = cols - 1, begy = oy, begx = ox\<rparr>)"

subsection \<open>The input queue\<close>

text \<open>\<^verbatim>\<open>tty_input_queue\<close>: eight bytes, the characters up to the first zero.\<close>

definition getch :: "u8 list \<Rightarrow> (u8 \<times> u8 list) option" where
  "getch q = do {
     ch \<leftarrow> peek q 0;
     if ch \<noteq> 0 then do {
       len \<leftarrow> strlen q;
       q \<leftarrow> memmove q 0 1 len;
       Some (ch, q)
     } else Some (ch, q)
   }"

definition getch_queue :: "u8 \<Rightarrow> u8 list \<Rightarrow> (u8 \<times> u8 list) option" where
  "getch_queue ch q = do {
     len \<leftarrow> strlen q;
     if len + 1 < length q then do {
       q \<leftarrow> poke q len ch;
       q \<leftarrow> poke q (len + 1) 0;
       Some (0, q)
     } else Some (1, q)
   }"

end
