(* ===== verification/E6_TtyScreen.thy ===== *)
theory E6_TtyScreen
  imports E6_Tty
begin

text \<open>
  What the text layer puts on the screen.  The image is read as a grid of characters; the
  reference semantics of a window works on the grid with plain row shifts, and the functions of
  \<^verbatim>\<open>core/tty/tty.c\<close>, which move every character through \<^verbatim>\<open>waddch\<close>, are shown to implement it.
\<close>

subsection \<open>The image as a grid\<close>

type_synonym grid = "nat \<Rightarrow> nat \<Rightarrow> u8"

definition cells :: "tty \<Rightarrow> grid" where
  "cells t Y X = (if Y < LINES \<and> X < COLS then tty_image t ! (Y * COLS + X) else 0)"

definition set_cell :: "nat \<Rightarrow> nat \<Rightarrow> u8 \<Rightarrow> grid \<Rightarrow> grid" where
  "set_cell y x ch g = (\<lambda>Y X. if Y = y \<and> X = x then ch else g Y X)"

definition image_ok :: "tty \<Rightarrow> bool" where
  "image_ok t \<longleftrightarrow> length (tty_image t) = LINES * COLS \<and> ch_nl \<notin> set (tty_image t) \<and> ch_cr \<notin> set (tty_image t)"

definition win_ok :: "WINDOW \<Rightarrow> bool" where
  "win_ok w \<longleftrightarrow> unat (begy w) + unat (maxy w) < LINES \<and> unat (begx w) + unat (maxx w) < COLS
     \<and> (\<not> is_subwin w \<longrightarrow> begy w = 0 \<and> begx w = 0 \<and> unat (maxy w) + 1 = LINES \<and> unat (maxx w) + 1 = COLS)"

text \<open>The cursor is in the window, or at the beginning of the line below.\<close>

definition cur_ok :: "WINDOW \<Rightarrow> bool" where
  "cur_ok w \<longleftrightarrow> unat (cur_x w) \<le> unat (maxx w)
     \<and> (unat (cur_y w) \<le> unat (maxy w) \<or> unat (cur_y w) = unat (maxy w) + 1 \<and> cur_x w = 0)"

definition at :: "nat \<Rightarrow> nat \<Rightarrow> WINDOW \<Rightarrow> WINDOW" where
  "at y x w = w\<lparr>cur_y := of_nat y, cur_x := of_nat x\<rparr>"

lemmas screen_size = LINES_def COLS_def

lemma idx_less: "Y < LINES \<Longrightarrow> X < COLS \<Longrightarrow> Y * COLS + X < LINES * COLS"
  by (auto simp: screen_size)

lemma idx_eq_iff: "X < COLS \<Longrightarrow> X' < COLS \<Longrightarrow> Y * COLS + X = Y' * COLS + X' \<longleftrightarrow> Y = Y' \<and> X = X'"
  unfolding COLS_def by (auto; presburger)

lemma cells_outside: "\<not> (Y < LINES \<and> X < COLS) \<Longrightarrow> cells t Y X = 0"
  by (auto simp: cells_def)

lemma cells_update:
  assumes "length (tty_image t) = LINES * COLS" and "y < LINES" and "x < COLS"
  shows "cells (t\<lparr>tty_image := (tty_image t)[y * COLS + x := ch]\<rparr>) = set_cell y x ch (cells t)"
  using assms idx_less [of y x] idx_less
  by (auto simp: cells_def set_cell_def fun_eq_iff nth_list_update idx_eq_iff)

lemma cells_irrelevant [simp]:
  "cells (t\<lparr>ll_out := a\<rparr>) = cells t" "cells (t\<lparr>tty_ll_y := b\<rparr>) = cells t" "cells (t\<lparr>tty_ll_x := b\<rparr>) = cells t"
  by (simp_all add: cells_def fun_eq_iff)

lemma cells_ll [simp]:
  "cells (tty_ll_clear t) = cells t" "cells (tty_ll_goto y x t) = cells t" "cells (tty_ll_put y x ch t) = cells t"
  by (simp_all add: tty_ll_clear_def tty_ll_goto_def tty_ll_put_def Let_def)

lemma image_ll [simp]:
  "tty_image (tty_ll_clear t) = tty_image t" "tty_image (tty_ll_goto y x t) = tty_image t"
  "tty_image (tty_ll_put y x ch t) = tty_image t"
  by (simp_all add: tty_ll_clear_def tty_ll_goto_def tty_ll_put_def Let_def)

lemma image_ok_ll [simp]:
  "image_ok (tty_ll_clear t) = image_ok t" "image_ok (tty_ll_goto y x t) = image_ok t"
  "image_ok (tty_ll_put y x ch t) = image_ok t"
  by (simp_all add: image_ok_def)

subsection \<open>What may happen to the terminal state\<close>

text \<open>
  All that the operations do to the image and the displays is made of four primitive
  changes: a cell is written and put to the displays, a character that is there already is
  not put again, the cursor of the displays is moved, everything is cleared.
\<close>

definition cell_put :: "nat \<Rightarrow> nat \<Rightarrow> u8 \<Rightarrow> tty \<Rightarrow> tty" where
  "cell_put y x ch t =
     (if tty_image t ! (y * COLS + x) = ch then t
      else tty_ll_put (of_nat y) (of_nat x) ch (t\<lparr>tty_image := (tty_image t)[y * COLS + x := ch]\<rparr>))"

definition clear_all :: "tty \<Rightarrow> tty" where
  "clear_all t = tty_ll_clear (t\<lparr>tty_image := replicate (LINES * COLS) 32\<rparr>)"

inductive leads :: "tty \<Rightarrow> tty \<Rightarrow> bool" where
  refl: "leads t t"
| put: "leads t t' \<Longrightarrow> y < LINES \<Longrightarrow> x < COLS \<Longrightarrow> ch \<noteq> ch_nl \<Longrightarrow> ch \<noteq> ch_cr \<Longrightarrow> leads t (cell_put y x ch t')"
| goto: "leads t t' \<Longrightarrow> leads t (tty_ll_goto y x t')"
| clear: "leads t t' \<Longrightarrow> leads t (clear_all t')"

lemma leads_trans: "leads t' t'' \<Longrightarrow> leads t t' \<Longrightarrow> leads t t''"
  by (induction rule: leads.induct) (auto intro: leads.intros)

lemma cells_cell_put:
  "image_ok t \<Longrightarrow> y < LINES \<Longrightarrow> x < COLS \<Longrightarrow> cells (cell_put y x ch t) = set_cell y x ch (cells t)"
proof (cases "tty_image t ! (y * COLS + x) = ch")
  case True
  then show "y < LINES \<Longrightarrow> x < COLS \<Longrightarrow> ?thesis"
    by (auto simp: cell_put_def set_cell_def fun_eq_iff cells_def)
next
  case False
  then show "image_ok t \<Longrightarrow> y < LINES \<Longrightarrow> x < COLS \<Longrightarrow> ?thesis"
    using cells_update [of t y x ch] by (simp add: cell_put_def image_ok_def)
qed

lemma cells_clear_all: "cells (clear_all t) = (\<lambda>Y X. if Y < LINES \<and> X < COLS then 32 else 0)"
  by (auto simp: clear_all_def cells_def fun_eq_iff idx_less)

lemma image_ok_put: "image_ok t \<Longrightarrow> ch \<noteq> ch_nl \<Longrightarrow> ch \<noteq> ch_cr \<Longrightarrow> image_ok (cell_put y x ch t)"
  using set_update_subset_insert [of "tty_image t" "y * COLS + x" ch]
  by (auto simp: cell_put_def image_ok_def)

lemma leads_image_ok: "leads t t' \<Longrightarrow> image_ok t \<Longrightarrow> image_ok t'"
  by (induction rule: leads.induct) (auto simp: image_ok_put, simp add: image_ok_def clear_all_def)

subsection \<open>The cursor\<close>

lemma at_simps [simp]:
  "maxy (at y x w) = maxy w" "maxx (at y x w) = maxx w" "begy (at y x w) = begy w" "begx (at y x w) = begx w"
  "is_subwin (at y x w) = is_subwin w" "linewrap (at y x w) = linewrap w"
  "scrollok (at y x w) = scrollok w" "leaveok (at y x w) = leaveok w"
  "cur_y (at y x w) = of_nat y" "cur_x (at y x w) = of_nat x" "at y x (at y' x' w) = at y x w"
  "win_ok (at y x w) = win_ok w"
  by (simp_all add: at_def win_ok_def)

lemma at_self: "at (unat (cur_y w)) (unat (cur_x w)) w = w"
  by (simp add: at_def)

lemma map_idx_at [simp]: "map_idx (at y x w) = map_idx w"
  by (simp add: map_idx_def fun_eq_iff)

lemma win_bounds:
  assumes "win_ok w"
  shows "y \<le> unat (maxy w) \<Longrightarrow> y + unat (begy w) < LINES" "x \<le> unat (maxx w) \<Longrightarrow> x + unat (begx w) < COLS"
    "unat (maxy w) < 4" "unat (maxx w) < 16" "unat (begy w) < 4" "unat (begx w) < 16"
  using assms by (auto simp: win_ok_def screen_size)

lemma u8_of_nat [simp]: "y < 256 \<Longrightarrow> unat (of_nat y :: u8) = y"
  by (simp add: unat_of_nat)

lemma u8_of_nat_le: "y < 256 \<Longrightarrow> (of_nat y :: u8) \<le> m \<longleftrightarrow> y \<le> unat m" "y < 256 \<Longrightarrow> m < (of_nat y :: u8) \<longleftrightarrow> unat m < y"
  "y < 256 \<Longrightarrow> (of_nat y :: u8) = m \<longleftrightarrow> y = unat m"
  by (simp_all add: word_le_nat_alt word_less_nat_alt word_unat_eq_iff)

lemma wmove_at:
  assumes "win_ok w" and "y \<le> unat (maxy w)" and "x \<le> unat (maxx w)"
  shows "\<exists>t'. wmove (of_nat y) (of_nat x) (at y' x' w, t) = (at y x w, t') \<and> leads t t' \<and> cells t' = cells t"
  using assms win_bounds [OF assms(1)]
  by (auto simp: wmove_def Let_def u8_of_nat_le leads.intros at_def)

subsection \<open>A character inside of the window\<close>

definition advance :: "nat \<Rightarrow> nat \<Rightarrow> WINDOW \<Rightarrow> WINDOW" where
  "advance y x w =
     (if x = unat (maxx w) then if linewrap w then at (y + 1) 0 w else at y x w else at y (x + 1) w)"

lemma advance_at: "\<exists>y' x'. advance y x w = at y' x' w"
  unfolding advance_def by (cases "x = unat (maxx w)"; cases "linewrap w") auto

lemma waddch_put_at:
  assumes "win_ok w" and "image_ok t" and "y \<le> unat (maxy w)" and "x \<le> unat (maxx w)"
    and ch: "ch \<noteq> ch_nl" "ch \<noteq> ch_cr"
  shows "\<exists>t'. waddch_put ch (at y x w, t) = Some (advance y x w, t') \<and> leads t t'
           \<and> cells t' = set_cell (y + unat (begy w)) (x + unat (begx w)) ch (cells t)"
proof -
  note b = win_bounds [OF assms(1)]
  define Y where "Y = y + unat (begy w)"
  define X where "X = x + unat (begx w)"
  have yx: "Y < LINES" "X < COLS" using b(1,2) assms(3,4) by (simp_all add: Y_def X_def)
  have y: "y < 256" "x < 256" "Y < 256" "X < 256" using b assms(3,4) by (simp_all add: Y_def X_def)
  have i: "map_idx (at y x w) (unat (cur_y (at y x w))) (unat (cur_x (at y x w))) = Y * COLS + X"
    using y by (simp add: map_idx_def Y_def X_def)
  have len: "length (tty_image t) = LINES * COLS" using assms(2) by (simp add: image_ok_def)
  have o: "(of_nat y :: u8) + begy w = of_nat Y" "(of_nat x :: u8) + begx w = of_nat X" by (simp_all add: Y_def X_def)
  let ?t = "cell_put Y X ch t"
  have t: "leads t ?t" "cells ?t = set_cell Y X ch (cells t)"
    using yx ch assms(2) by (auto intro: leads.intros cells_cell_put)
  have g: "leads t (tty_ll_goto a c ?t)" for a c using t(1) by (rule leads.goto)
  have "\<exists>t'. waddch_put ch (at y x w, t) = Some (advance y x w, t') \<and> (t' = ?t \<or> (\<exists>a c. t' = tty_ll_goto a c ?t))"
    unfolding waddch_put_def prod.case i
    using ch yx idx_less [OF yx] y len
    by (auto simp: peek_def poke_def o advance_def u8_of_nat_le cell_put_def Let_def at_def)
  then show ?thesis using t g Y_def X_def by auto
qed

subsection \<open>Rows\<close>

text \<open>\<open>fill\<close>: the columns from \<open>x\<close> on of the rows of a window between \<open>y\<close> and \<open>y'\<close> get the characters of \<open>f\<close>.\<close>

definition fill :: "WINDOW \<Rightarrow> nat \<Rightarrow> nat \<Rightarrow> nat \<Rightarrow> grid \<Rightarrow> grid \<Rightarrow> grid" where
  "fill w y y' x f g = (\<lambda>Y X. if y + unat (begy w) \<le> Y \<and> Y \<le> y' + unat (begy w)
       \<and> x + unat (begx w) \<le> X \<and> X \<le> unat (maxx w) + unat (begx w) then f Y X else g Y X)"

definition row_below :: "nat \<Rightarrow> grid \<Rightarrow> grid" where
  "row_below n g Y X = g (Y + n) X"

lemma fill_at [simp]: "fill (at a b w) = fill w"
  by (simp add: fill_def fun_eq_iff)

lemma fill_last: "x = unat (maxx w) \<Longrightarrow> fill w y y x f g = set_cell (y + unat (begy w)) (x + unat (begx w)) (f (y + unat (begy w)) (x + unat (begx w))) g"
  by (auto simp: fill_def set_cell_def fun_eq_iff)

lemma fill_step:
  assumes "x < unat (maxx w)"
  shows "fill w y y (x + 1) f (set_cell (y + unat (begy w)) (x + unat (begx w)) (f (y + unat (begy w)) (x + unat (begx w))) g)
    = fill w y y x f g"
  using assms by (auto simp: fill_def set_cell_def fun_eq_iff)

lemma fill_rows: "y \<le> y' \<Longrightarrow> fill w (y + 1) y' 0 f (fill w y y 0 f g) = fill w y y' 0 f g"
  by (auto simp: fill_def fun_eq_iff not_le)

lemma fill_none: "y' < y \<Longrightarrow> fill w y y' x f g = g"
  by (auto simp: fill_def fun_eq_iff)

lemma image_char:
  assumes "image_ok t" and "Y < LINES" and "X < COLS"
  shows "peek (tty_image t) (Y * COLS + X) = Some (cells t Y X)" "cells t Y X \<noteq> ch_nl" "cells t Y X \<noteq> ch_cr"
proof -
  have l: "Y * COLS + X < length (tty_image t)" using assms idx_less by (simp add: image_ok_def)
  then show "peek (tty_image t) (Y * COLS + X) = Some (cells t Y X)" using assms by (simp add: peek_def cells_def)
  show "cells t Y X \<noteq> ch_nl" "cells t Y X \<noteq> ch_cr"
    using assms nth_mem [OF l] by (auto simp: cells_def image_ok_def)
qed

lemma fill_cong: "(\<And>Y X. y + unat (begy w) \<le> Y \<Longrightarrow> Y \<le> y' + unat (begy w) \<Longrightarrow> f Y X = f' Y X) \<Longrightarrow> fill w y y' x f g = fill w y y' x f' g"
  by (auto simp: fill_def fun_eq_iff)

lemma fill_below:
  assumes "y \<le> y'" and "0 < n"
  shows "fill w (y + 1) y' 0 (row_below n (fill w y y 0 (row_below n g) g)) (fill w y y 0 (row_below n g) g)
    = fill w y y' 0 (row_below n g) g"
  using assms by (auto simp: fill_def row_below_def fun_eq_iff not_le)

lemma copy_rows_unfold:
  "copy_rows add ls y st =
     (if unat y + unat ls \<le> unat (maxy (fst st)) then do {
        st \<leftarrow> copy_row add (unat y + unat ls) 0 (wmove y 0 st);
        copy_rows add ls (y + 1) st
      } else Some st)"
proof -
  have "int (unat y) \<le> int (unat (maxy (fst st))) - int (unat ls) \<longleftrightarrow> unat y + unat ls \<le> unat (maxy (fst st))"
    by linarith
  then show ?thesis by (subst copy_rows.simps) (simp only:)
qed

text \<open>
  The reference for scrolling: the rows of a window move up by \<open>n\<close> and blank rows follow;
  everything outside of the window stays.
\<close>

definition scroll_up :: "WINDOW \<Rightarrow> nat \<Rightarrow> grid \<Rightarrow> grid" where
  "scroll_up w n g = (\<lambda>Y X.
     if unat (begy w) \<le> Y \<and> Y \<le> unat (begy w) + unat (maxy w)
        \<and> unat (begx w) \<le> X \<and> X \<le> unat (begx w) + unat (maxx w)
     then if Y + n \<le> unat (begy w) + unat (maxy w) then g (Y + n) X else 32
     else g Y X)"

lemma scroll_up_at [simp]: "scroll_up (at a b w) = scroll_up w"
  by (simp add: scroll_up_def fun_eq_iff)

lemma scroll_up_fill:
  assumes "0 < n" and "n \<le> unat (maxy w)"
  shows "fill w (unat (maxy w) - n + 1) (unat (maxy w)) 0 (\<lambda>_ _. 32)
      (fill w 0 (unat (maxy w) - n) 0 (row_below n g) g) = scroll_up w n g"
  using assms by (auto simp: fill_def scroll_up_def row_below_def fun_eq_iff not_le)

lemma scroll_up_all: "unat (maxy w) < n \<Longrightarrow> fill w 0 (unat (maxy w)) 0 (\<lambda>_ _. 32) g = scroll_up w n g"
  by (auto simp: fill_def scroll_up_def fun_eq_iff)

lemma scroll_up_root:
  assumes "win_ok w" and "\<not> is_subwin w" and "unat (maxy w) < n"
  shows "cells (clear_all t) = scroll_up w n (cells t)"
  using assms by (auto simp: cells_clear_all scroll_up_def win_ok_def fun_eq_iff cells_outside)

text \<open>
  The interface of the functions that print: what they need of \<^verbatim>\<open>waddch\<close> as long as the cursor is
  inside of the window.
\<close>

locale printer =
  fixes add :: add_fun
  assumes add_in: "win_ok w \<Longrightarrow> image_ok t \<Longrightarrow> y \<le> unat (maxy w) \<Longrightarrow> x \<le> unat (maxx w) \<Longrightarrow>
      ch \<noteq> ch_nl \<Longrightarrow> ch \<noteq> ch_cr \<Longrightarrow>
      \<exists>t'. add ch (at y x w, t) = Some (advance y x w, t') \<and> leads t t'
        \<and> cells t' = set_cell (y + unat (begy w)) (x + unat (begx w)) ch (cells t)"
begin

lemma add_spaces_row:
  assumes "win_ok w" and "y \<le> unat (maxy w)"
  shows "image_ok t \<Longrightarrow> x \<le> unat (maxx w) \<Longrightarrow> k = unat (maxx w) - x \<Longrightarrow>
    \<exists>y' x' t'. add_spaces add (Suc k) (at y x w, t) = Some (at y' x' w, t') \<and> leads t t'
      \<and> cells t' = fill w y y x (\<lambda>_ _. 32) (cells t)"
proof (induction k arbitrary: x t)
  case 0
  then have x: "x = unat (maxx w)" by simp
  obtain t' where "add ch_space (at y x w, t) = Some (advance y x w, t')" "leads t t'"
      "cells t' = set_cell (y + unat (begy w)) (x + unat (begx w)) 32 (cells t)"
    using add_in [OF assms(1) 0(1) assms(2) 0(2), of ch_space] by auto
  then show ?case by (auto simp: fill_last [OF x] advance_def)
next
  case (Suc k)
  then have x: "x < unat (maxx w)" "k = unat (maxx w) - (x + 1)" by simp_all
  obtain t' where t': "add ch_space (at y x w, t) = Some (at y (x + 1) w, t')" "leads t t'"
      "cells t' = set_cell (y + unat (begy w)) (x + unat (begx w)) 32 (cells t)"
    using add_in [OF assms(1) Suc.prems(1) assms(2) Suc.prems(2), of ch_space] x by (auto simp: advance_def)
  from Suc.IH [OF leads_image_ok [OF t'(2) Suc.prems(1)] _ x(2)] x(1)
  obtain y' x' t'' where "add_spaces add (Suc k) (at y (x + 1) w, t') = Some (at y' x' w, t'')" "leads t' t''"
      "cells t'' = fill w y y (x + 1) (\<lambda>_ _. 32) (cells t')"
    by auto
  then show ?case using t' fill_step [OF x(1), of y "\<lambda>_ _. 32" "cells t"]
    by (auto simp del: add_spaces.simps(2) simp: add_spaces.simps(2) [of add "Suc k"] intro: leads_trans)
qed

lemma wspacetoeol_row:
  assumes "win_ok w" and "image_ok t" and "y \<le> unat (maxy w)" and "x \<le> unat (maxx w)"
  shows "\<exists>y' x' t'. wspacetoeol add (at y x w, t) = Some (at y' x' w, t') \<and> leads t t'
      \<and> cells t' = fill w y y x (\<lambda>_ _. 32) (cells t)"
proof -
  have "unat (maxx w) < 16" using win_bounds [OF assms(1)] by simp
  moreover have "maxx w - of_nat x + 1 = of_nat (Suc (unat (maxx w) - x))"
    using assms(4) by (simp add: of_nat_diff)
  ultimately have "unat (maxx w - of_nat x + 1) = Suc (unat (maxx w) - x)"
    by (simp only: u8_of_nat)
  then show ?thesis
    using add_spaces_row [OF assms(1,3,2,4) HOL.refl] by (simp add: wspacetoeol_def)
qed

lemma clr_rows_ok:
  assumes "win_ok w"
  shows "image_ok t \<Longrightarrow> y \<le> unat (maxy w) + 1 \<Longrightarrow>
    \<exists>y' x' t'. clr_rows add (of_nat y) (at a b w, t) = Some (at y' x' w, t') \<and> leads t t'
      \<and> cells t' = fill w y (unat (maxy w)) 0 (\<lambda>_ _. 32) (cells t)"
proof (induction "unat (maxy w) + 1 - y" arbitrary: y a b t)
  case 0
  then have "\<not> (of_nat y \<le> maxy w)" "unat (maxy w) < y"
    using win_bounds(3) [OF assms(1)] by (simp_all only: u8_of_nat_le)
  then show ?case by (subst clr_rows.simps) (auto simp: fill_none leads.refl)
next
  case (Suc k)
  have y: "y \<le> unat (maxy w)" "k = unat (maxy w) + 1 - (y + 1)" using Suc(2) by simp_all
  obtain t1 where t1: "wmove (of_nat y) 0 (at a b w, t) = (at y 0 w, t1)" "leads t t1" "cells t1 = cells t"
    using wmove_at [OF assms y(1), of 0 a b t] by auto
  obtain a' b' t2 where t2: "wspacetoeol add (at y 0 w, t1) = Some (at a' b' w, t2)" "leads t1 t2"
      "cells t2 = fill w y y 0 (\<lambda>_ _. 32) (cells t1)"
    using wspacetoeol_row [OF assms leads_image_ok [OF t1(2) Suc(3)] y(1), of 0] by auto
  have "image_ok t2" using t1 t2 Suc(3) leads_image_ok by blast
  then obtain a'' b'' t3 where t3: "clr_rows add (of_nat (y + 1)) (at a' b' w, t2) = Some (at a'' b'' w, t3)" "leads t2 t3"
      "cells t3 = fill w (y + 1) (unat (maxy w)) 0 (\<lambda>_ _. 32) (cells t2)"
    using Suc(1) [OF y(2), of t2 a' b'] y(1) by auto
  have "clr_rows add (of_nat y) (at a b w, t) = Some (at a'' b'' w, t3)"
    using y(1) win_bounds [OF assms(1)] t1 t2 t3 by (subst clr_rows.simps) (auto simp: u8_of_nat_le add.commute)
  then show ?case using t1 t2 t3 fill_rows [OF y(1)] by (auto intro: leads_trans)
qed

lemma wclrtobot_ok:
  assumes "win_ok w" and "image_ok t" and "y \<le> unat (maxy w)"
  shows "\<exists>t'. wclrtobot add (at y 0 w, t) = Some (at y 0 w, t') \<and> leads t t'
      \<and> cells t' = fill w y (unat (maxy w)) 0 (\<lambda>_ _. 32) (cells t)"
proof -
  obtain a b t1 where t1: "wspacetoeol add (at y 0 w, t) = Some (at a b w, t1)" "leads t t1"
      "cells t1 = fill w y y 0 (\<lambda>_ _. 32) (cells t)"
    using wspacetoeol_row [OF assms, of 0] by auto
  obtain a' b' t2 where t2: "clr_rows add (of_nat (y + 1)) (at a b w, t1) = Some (at a' b' w, t2)" "leads t1 t2"
      "cells t2 = fill w (y + 1) (unat (maxy w)) 0 (\<lambda>_ _. 32) (cells t1)"
    using clr_rows_ok [OF assms(1) leads_image_ok [OF t1(2) assms(2)], of "y + 1" a b] assms(3) by auto
  obtain t3 where t3: "wmove (of_nat y) 0 (at a' b' w, t2) = (at y 0 w, t3)" "leads t2 t3" "cells t3 = cells t2"
    using wmove_at [OF assms(1,3), of 0 a' b' t2] by auto
  show ?thesis using t1 t2 t3 fill_rows [OF assms(3)]
    by (auto simp: wclrtobot_def Let_def add.commute intro: leads_trans)
qed

lemma copy_row_ok:
  assumes "win_ok w" and "y \<le> unat (maxy w)" and "src \<le> unat (maxy w)" and "src \<noteq> y"
  shows "image_ok t \<Longrightarrow> x \<le> unat (maxx w) \<Longrightarrow>
    \<exists>y' x' t'. copy_row add src (of_nat x) (at y x w, t) = Some (at y' x' w, t') \<and> leads t t'
      \<and> cells t' = fill w y y x (\<lambda>_. cells t (src + unat (begy w))) (cells t)"
proof (induction "unat (maxx w) - x" arbitrary: x t)
  case (0 x t)
  then have x: "x = unat (maxx w)" by simp
  note c = image_char [OF 0(2) win_bounds(1) [OF assms(1,3)] win_bounds(2) [OF assms(1) 0(3)]]
  obtain t' where t': "add (cells t (src + unat (begy w)) (x + unat (begx w))) (at y x w, t) = Some (advance y x w, t')" "leads t t'"
      "cells t' = set_cell (y + unat (begy w)) (x + unat (begx w)) (cells t (src + unat (begy w)) (x + unat (begx w))) (cells t)"
    using add_in [OF assms(1) 0(2) assms(2) 0(3) c(2,3)] by auto
  obtain y' x' where a: "advance y x w = at y' x' w" using advance_at by blast
  have le: "(of_nat x :: u8) \<le> maxx w" "\<not> (of_nat (x + 1) \<le> maxx w)" "unat (of_nat x :: u8) = x"
    using x win_bounds(4) [OF assms(1)] by (simp_all only: u8_of_nat_le u8_of_nat) 
  have "copy_row add src (of_nat (x + 1)) (at y' x' w, t') = Some (at y' x' w, t')"
    using le(2) by (subst copy_row.simps) simp
  then have "copy_row add src (of_nat x) (at y x w, t) = Some (at y' x' w, t')"
    using le c(1) t'(1) a by (subst copy_row.simps) (simp add: map_idx_def add.commute)
  then show ?case using t' by (auto simp: fill_last [OF x])
next
  case (Suc k x t)
  then have x: "x < unat (maxx w)" "k = unat (maxx w) - (x + 1)" by simp_all
  note c = image_char [OF Suc(3) win_bounds(1) [OF assms(1,3)] win_bounds(2) [OF assms(1) Suc(4)]]
  obtain t' where t': "add (cells t (src + unat (begy w)) (x + unat (begx w))) (at y x w, t) = Some (at y (x + 1) w, t')" "leads t t'"
      "cells t' = set_cell (y + unat (begy w)) (x + unat (begx w)) (cells t (src + unat (begy w)) (x + unat (begx w))) (cells t)"
    using add_in [OF assms(1) Suc(3) assms(2) Suc(4) c(2,3)] x(1) by (auto simp: advance_def)
  obtain y' x' t'' where t'': "copy_row add src (of_nat (x + 1)) (at y (x + 1) w, t') = Some (at y' x' w, t'')" "leads t' t''"
      "cells t'' = fill w y y (x + 1) (\<lambda>_. cells t' (src + unat (begy w))) (cells t')"
    using Suc(1) [OF x(2) leads_image_ok [OF t'(2) Suc(3)]] x(1) by auto
  have src: "cells t' (src + unat (begy w)) = cells t (src + unat (begy w))"
    using assms(4) t'(3) by (simp add: set_cell_def fun_eq_iff)
  have le: "(of_nat x :: u8) \<le> maxx w" "unat (of_nat x :: u8) = x"
    using x win_bounds(4) [OF assms(1)] by (simp_all add: u8_of_nat_le)
  have "copy_row add src (of_nat x) (at y x w, t) = Some (at y' x' w, t'')"
    using le c(1) t'(1) t''(1) by (subst copy_row.simps) (simp add: map_idx_def add.commute)
  then show ?case using t' t'' src fill_step [OF x(1), of y "\<lambda>_. cells t (src + unat (begy w))" "cells t"]
    by (auto intro: leads_trans)
qed

lemma copy_rows_ok:
  assumes "win_ok w" and "0 < unat ls" and "unat ls \<le> unat (maxy w)"
  shows "image_ok t \<Longrightarrow> y \<le> unat (maxy w) - unat ls + 1 \<Longrightarrow>
    \<exists>y' x' t'. copy_rows add ls (of_nat y) (at a b w, t) = Some (at y' x' w, t') \<and> leads t t'
      \<and> cells t' = fill w y (unat (maxy w) - unat ls) 0 (row_below (unat ls) (cells t)) (cells t)"
proof (induction "unat (maxy w) - unat ls + 1 - y" arbitrary: y a b t)
  case (0 y a b t)
  then have "unat (maxy w) - unat ls < y" "unat (of_nat y :: u8) = y"
    using win_bounds(3) [OF assms(1)] by (simp_all only: u8_of_nat)
  then show ?case using assms(3) by (subst copy_rows_unfold) (auto simp: fill_none leads.refl)
next
  case (Suc k y a b t)
  have y: "y \<le> unat (maxy w) - unat ls" "k = unat (maxy w) - unat ls + 1 - (y + 1)" using Suc(2) by simp_all
  then have y': "y \<le> unat (maxy w)" "y + unat ls \<le> unat (maxy w)" "y + unat ls \<noteq> y" "unat (of_nat y :: u8) = y"
    using assms(2,3) win_bounds(3) [OF assms(1)] by simp_all
  obtain t1 where t1: "wmove (of_nat y) 0 (at a b w, t) = (at y 0 w, t1)" "leads t t1" "cells t1 = cells t"
    using wmove_at [OF assms(1) y'(1), of 0 a b t] by auto
  obtain a' b' t2 where t2: "copy_row add (y + unat ls) 0 (at y 0 w, t1) = Some (at a' b' w, t2)" "leads t1 t2"
      "cells t2 = fill w y y 0 (\<lambda>_. cells t1 (y + unat ls + unat (begy w))) (cells t1)"
    using copy_row_ok [OF assms(1) y'(1,2,3) leads_image_ok [OF t1(2) Suc(3)], of 0] by auto
  have c2: "cells t2 = fill w y y 0 (row_below (unat ls) (cells t)) (cells t)"
    unfolding t2(3) t1(3) by (rule fill_cong) (auto simp: row_below_def fun_eq_iff ac_simps)
  have "image_ok t2" using t1 t2 Suc(3) leads_image_ok by blast
  then obtain a'' b'' t3 where t3: "copy_rows add ls (of_nat (y + 1)) (at a' b' w, t2) = Some (at a'' b'' w, t3)" "leads t2 t3"
      "cells t3 = fill w (y + 1) (unat (maxy w) - unat ls) 0 (row_below (unat ls) (cells t2)) (cells t2)"
    using Suc(1) [OF y(2), of t2 a' b'] y(1) by auto
  have "copy_rows add ls (of_nat y) (at a b w, t) = Some (at a'' b'' w, t3)"
    using y'(2,4) t1 t2 t3 by (subst copy_rows_unfold) (auto simp: add.commute)
  then show ?case using t1 t2(2) t3 c2 fill_below [OF y(1) assms(2), of w "cells t"] by (auto intro: leads_trans)
qed

lemma wclear_ok:
  assumes "win_ok w" and "image_ok t"
  shows "\<exists>t'. wclear add (at a b w, t) = Some (at 0 0 w, t') \<and> leads t t'
      \<and> cells t' = scroll_up w (Suc (unat (maxy w))) (cells t)"
proof (cases "is_subwin w")
  case True
  obtain t1 where t1: "wmove 0 0 (at a b w, t) = (at 0 0 w, t1)" "leads t t1" "cells t1 = cells t"
    using wmove_at [OF assms(1), of 0 0 a b t] by auto
  obtain t2 where "wclrtobot add (at 0 0 w, t1) = Some (at 0 0 w, t2)" "leads t1 t2"
      "cells t2 = fill w 0 (unat (maxy w)) 0 (\<lambda>_ _. 32) (cells t1)"
    using wclrtobot_ok [OF assms(1) leads_image_ok [OF t1(2) assms(2)], of 0] by auto
  then show ?thesis using True t1 by (auto simp: wclear_def scroll_up_all intro: leads_trans)
next
  case False
  then have "wclear add (at a b w, t) = Some (at 0 0 w, clear_all t)"
    by (simp add: wclear_def clear_all_def at_def)
  then show ?thesis using scroll_up_root [OF assms(1) False] by (auto intro: leads.intros)
qed

lemma wscroll_ok:
  assumes "win_ok w" and "image_ok t" and "0 < unat ls"
  shows "\<exists>t'. wscroll add ls (at a b w, t) = Some (at (unat (maxy w) + 1 - unat ls) 0 w, t') \<and> leads t t'
      \<and> cells t' = scroll_up w (unat ls) (cells t)"
proof (cases "unat ls \<le> unat (maxy w)")
  case True
  obtain a' b' t1 where t1: "copy_rows add ls 0 (at a b w, t) = Some (at a' b' w, t1)" "leads t t1"
      "cells t1 = fill w 0 (unat (maxy w) - unat ls) 0 (row_below (unat ls) (cells t)) (cells t)"
    using copy_rows_ok [OF assms(1,3) True assms(2), of 0 a b] by auto
  let ?y = "unat (maxy w) - unat ls + 1"
  have y: "?y \<le> unat (maxy w)" using True assms(3) by simp
  have w: "maxy w - ls + 1 = of_nat ?y" using True by (simp add: of_nat_diff)
  obtain t2 where t2: "wmove (of_nat ?y) 0 (at a' b' w, t1) = (at ?y 0 w, t2)" "leads t1 t2" "cells t2 = cells t1"
    using wmove_at [OF assms(1) y, of 0 a' b' t1] by auto
  have "image_ok t2" using t1 t2 assms(2) leads_image_ok by blast
  then obtain t3 where t3: "wclrtobot add (at ?y 0 w, t2) = Some (at ?y 0 w, t3)" "leads t2 t3"
      "cells t3 = fill w ?y (unat (maxy w)) 0 (\<lambda>_ _. 32) (cells t2)"
    using wclrtobot_ok [OF assms(1) _ y] by blast
  have "wscroll add ls (at a b w, t) = Some (at ?y 0 w, t3)"
    using True t1 t2 t3 unfolding wscroll_def w [symmetric] by (simp add: word_less_nat_alt)
  then show ?thesis using t1 t2 t3 True scroll_up_fill [OF assms(3) True]
    by (auto simp: Suc_diff_le intro: leads_trans)
next
  case False
  then have "scroll_up w (unat ls) g = scroll_up w (Suc (unat (maxy w))) g" for g
    by (auto simp: scroll_up_def fun_eq_iff)
  then show ?thesis using wclear_ok [OF assms(1,2), of a b] False
    by (simp add: wscroll_def word_less_nat_alt)
qed

end

end
