(* ===== verification/E6_TtyDisplay.thy ===== *)
theory E6_TtyDisplay
  imports E6_TtyScreen
begin

text \<open>
  \<^verbatim>\<open>waddch\<close> and everything that prints through it implements the reference semantics of a
  scrolling window, for every window inside of the screen and every cursor; it always returns;
  and the displays, which see only the low-level calls, show the image.
\<close>

subsection \<open>The reference semantics\<close>

type_synonym screen = "grid \<times> nat \<times> nat"

definition view :: "win_st \<Rightarrow> screen" where
  "view st = (case st of (w, t) \<Rightarrow> (cells t, unat (cur_y w), unat (cur_x w)))"

definition scr_put :: "WINDOW \<Rightarrow> u8 \<Rightarrow> screen \<Rightarrow> screen" where
  "scr_put w ch s =
     (case s of (g, y, x) \<Rightarrow>
        if ch = ch_nl then (g, y + 1, 0)
        else if ch = ch_cr then (g, y, 0)
        else let g = set_cell (y + unat (begy w)) (x + unat (begx w)) ch g
             in if x < unat (maxx w) then (g, y, x + 1)
                else if linewrap w then (g, y + 1, 0) else (g, y, x))"

definition scr_addch :: "WINDOW \<Rightarrow> screen \<Rightarrow> u8 \<Rightarrow> screen" where
  "scr_addch w s ch =
     (case s of (g, y, x) \<Rightarrow>
        if y \<le> unat (maxy w) then scr_put w ch (g, y, x)
        else if scrollok w then scr_put w ch (scroll_up w 1 g, unat (maxy w), 0)
        else (g, y, x))"

subsection \<open>waddch\<close>

interpretation inner: printer "waddch (Suc n)" for n
proof
  fix w t y x ch
  assume a: "win_ok w" "image_ok t" "y \<le> unat (maxy w)" "x \<le> unat (maxx w)" "ch \<noteq> ch_nl" "ch \<noteq> ch_cr"
  have "\<not> maxy w < (of_nat y :: u8)" using a(3) win_bounds(3) [OF a(1)] by (simp add: u8_of_nat_le)
  then have "waddch (Suc n) ch (at y x w, t) = waddch_put ch (at y x w, t)" by simp
  then show "\<exists>t'. waddch (Suc n) ch (at y x w, t) = Some (advance y x w, t') \<and> leads t t'
      \<and> cells t' = set_cell (y + unat (begy w)) (x + unat (begx w)) ch (cells t)"
    using waddch_put_at [OF a] by simp
qed

lemma waddch_put_refines:
  assumes "win_ok w" and "image_ok t" and "y \<le> unat (maxy w)" and "x \<le> unat (maxx w)"
  shows "\<exists>y' x' t'. waddch_put ch (at y x w, t) = Some (at y' x' w, t') \<and> leads t t' \<and> cur_ok (at y' x' w)
      \<and> scr_put w ch (cells t, y, x) = (cells t', y', x')"
proof (cases "ch = ch_nl \<or> ch = ch_cr")
  case True
  have b: "y < 256" "unat (maxy w) < 4" using win_bounds(3) [OF assms(1)] assms(3) by simp_all
  define y' where "y' = (if ch = ch_nl then y + 1 else y)"
  have c: "cur_ok (at y' 0 w)" using b assms(3) by (auto simp: cur_ok_def y'_def)
  have "\<exists>t'. waddch_put ch (at y x w, t) = Some (at y' 0 w, t') \<and> leads t t' \<and> cells t' = cells t"
    using True b by (auto simp: waddch_put_def at_def Let_def y'_def add.commute intro: leads.intros)
  moreover have "scr_put w ch (cells t, y, x) = (cells t, y', 0)" using True by (auto simp: scr_put_def y'_def)
  ultimately show ?thesis using c by auto
next
  case False
  then obtain t' where t': "waddch_put ch (at y x w, t) = Some (advance y x w, t')" "leads t t'"
      "cells t' = set_cell (y + unat (begy w)) (x + unat (begx w)) ch (cells t)"
    using waddch_put_at [OF assms, of ch] by auto
  define y' where "y' = (if x = unat (maxx w) \<and> linewrap w then y + 1 else y)"
  define x' where "x' = (if x < unat (maxx w) then x + 1 else if linewrap w then 0 else x)"
  have "advance y x w = at y' x' w" using assms(4) by (auto simp: advance_def y'_def x'_def)
  moreover have "y' < 256" "x' < 256" "x' \<le> unat (maxx w)" "y' \<le> unat (maxy w) \<or> y' = unat (maxy w) + 1 \<and> x' = 0"
    using win_bounds(3,4) [OF assms(1)] assms(3,4) by (auto simp: y'_def x'_def)
  then have "cur_ok (at y' x' w)" by (auto simp: cur_ok_def)
  moreover have "scr_put w ch (cells t, y, x) = (cells t', y', x')"
    using False t'(3) assms(4) by (auto simp: scr_put_def Let_def y'_def x'_def)
  ultimately show ?thesis using t'(1,2) by auto
qed

lemma waddch_refines:
  assumes "win_ok w" and "image_ok t" and "cur_ok w"
  shows "\<exists>y x t'. waddch (Suc (Suc n)) ch (w, t) = Some (at y x w, t') \<and> leads t t' \<and> cur_ok (at y x w)
      \<and> scr_addch w (view (w, t)) ch = view (at y x w, t')"
proof -
  have s: "at (unat (cur_y w)) (unat (cur_x w)) w = w" by (rule at_self)
  note b = win_bounds(3,4) [OF assms(1)]
  have v: "cur_ok (at y x w) \<Longrightarrow> y < 256 \<Longrightarrow> x < 256 \<Longrightarrow> view (at y x w, t') = (cells t', y, x)" for y x t'
    by (simp add: view_def)
  have r: "y < 256 \<and> x < 256" if "scr_put w ch (cells t1, y0, x0) = (g, y, x)" "y0 \<le> unat (maxy w)" "x0 \<le> unat (maxx w)"
    for t1 y0 x0 g y x
    using that b by (auto simp: scr_put_def Let_def split: if_splits)
  show ?thesis
  proof (cases "unat (cur_y w) \<le> unat (maxy w)")
    case True
    have x: "unat (cur_x w) \<le> unat (maxx w)" using assms(3) by (simp add: cur_ok_def)
    obtain y' x' t' where *: "waddch_put ch (w, t) = Some (at y' x' w, t')" "leads t t'" "cur_ok (at y' x' w)"
        "scr_put w ch (cells t, unat (cur_y w), unat (cur_x w)) = (cells t', y', x')"
      using waddch_put_refines [OF assms(1,2) True x] unfolding s by blast
    have "waddch (Suc (Suc n)) ch (w, t) = waddch_put ch (w, t)" using True by (simp add: word_less_nat_alt)
    moreover have "scr_addch w (view (w, t)) ch = view (at y' x' w, t')"
      using True *(4) v [OF *(3)] r [OF *(4) True x] by (simp add: scr_addch_def view_def)
    ultimately show ?thesis using * by auto
  next
    case False
    then have y: "unat (cur_y w) = unat (maxy w) + 1" "cur_x w = 0" using assms(3) by (auto simp: cur_ok_def)
    then have "cur_y w = maxy w + 1" using b by (simp add: word_unat_eq_iff unat_word_ariths)
    then have d: "cur_y w - maxy w = 1" by simp
    show ?thesis
    proof (cases "scrollok w")
      case True
      obtain t1 where t1: "wscroll (waddch (Suc n)) 1 (w, t) = Some (at (unat (maxy w)) 0 w, t1)" "leads t t1"
          "cells t1 = scroll_up w 1 (cells t)"
        using inner.wscroll_ok [OF assms(1,2), of 1 n "unat (cur_y w)" "unat (cur_x w)"] unfolding s by auto
      obtain y' x' t' where *: "waddch_put ch (at (unat (maxy w)) 0 w, t1) = Some (at y' x' w, t')" "leads t1 t'" "cur_ok (at y' x' w)"
          "scr_put w ch (cells t1, unat (maxy w), 0) = (cells t', y', x')"
        using waddch_put_refines [OF assms(1) leads_image_ok [OF t1(2) assms(2)], of "unat (maxy w)" 0 ch] by auto
      have "waddch (Suc (Suc n)) ch (w, t) = Some (at y' x' w, t')"
        using False True t1 *(1) d by (simp add: word_less_nat_alt del: at_simps)
      moreover have "scr_addch w (view (w, t)) ch = view (at y' x' w, t')"
        using False True *(4) t1(3) v [OF *(3)] r [OF *(4)] by (simp add: scr_addch_def view_def)
      ultimately show ?thesis using * t1 by (auto intro: leads_trans)
    next
      case c: False
      have "waddch (Suc (Suc n)) ch (w, t) = Some (w, t)" using False c by (simp add: word_less_nat_alt)
      moreover have "scr_addch w (view (w, t)) ch = view (w, t)" using False c by (simp add: scr_addch_def view_def)
      ultimately show ?thesis using s assms(3) leads.refl by metis
    qed
  qed
qed

lemma scr_addch_at [simp]: "scr_addch (at y x w) = scr_addch w"
  by (auto simp: scr_addch_def scr_put_def Let_def fun_eq_iff)

lemma waddstr_refines:
  assumes "win_ok w"
  shows "image_ok t \<Longrightarrow> cur_ok (at y x w) \<Longrightarrow> 0 \<notin> set cs \<Longrightarrow>
    \<exists>y' x' t'. waddstr (waddch (Suc (Suc n))) (cs @ 0 # rest) (at y x w, t) = Some (at y' x' w, t') \<and> leads t t' \<and> cur_ok (at y' x' w)
      \<and> foldl (scr_addch w) (view (at y x w, t)) cs = view (at y' x' w, t')"
proof (induction cs arbitrary: y x t)
  case Nil
  then show ?case by (auto intro: leads.refl)
next
  case (Cons c cs)
  obtain y' x' t1 where t1: "waddch (Suc (Suc n)) c (at y x w, t) = Some (at y' x' w, t1)" "leads t t1" "cur_ok (at y' x' w)"
      "scr_addch w (view (at y x w, t)) c = view (at y' x' w, t1)"
    using waddch_refines [of "at y x w" t n c] assms Cons.prems by (auto simp del: waddch.simps)
  from Cons.IH [OF leads_image_ok [OF t1(2) Cons.prems(1)] t1(3)] Cons.prems t1
  show ?case by (auto simp del: waddch.simps intro: leads_trans)
qed

subsection \<open>Everything returns\<close>

text \<open>\<open>keeps\<close>: the operation changed only the cursor of its window, and kept it sane.\<close>

definition keeps :: "win_st \<Rightarrow> win_st \<Rightarrow> bool" where
  "keeps st st' \<longleftrightarrow> (\<exists>y x. fst st' = at y x (fst st)) \<and> cur_ok (fst st') \<and> leads (snd st) (snd st')"

definition st_ok :: "win_st \<Rightarrow> bool" where
  "st_ok st \<longleftrightarrow> win_ok (fst st) \<and> cur_ok (fst st) \<and> image_ok (snd st)"

lemma keepsD:
  assumes "keeps st st'"
  shows "maxy (fst st') = maxy (fst st)" "maxx (fst st') = maxx (fst st)" "begy (fst st') = begy (fst st)"
    "begx (fst st') = begx (fst st)" "is_subwin (fst st') = is_subwin (fst st)"
    "st_ok st \<Longrightarrow> st_ok st'"
  using assms by (auto simp: keeps_def st_ok_def dest: leads_image_ok)

lemma keeps_refl: "st_ok st \<Longrightarrow> keeps st st"
  using at_self by (auto simp: keeps_def st_ok_def leads.refl; metis)

lemma keeps_trans: "keeps st st' \<Longrightarrow> keeps st' st'' \<Longrightarrow> keeps st st''"
  unfolding keeps_def by (metis at_simps(11) leads_trans)

lemma keeps_bind:
  assumes "st_ok st" and "\<exists>s1. r = Some s1 \<and> keeps st s1"
    and "\<And>s1. keeps st s1 \<Longrightarrow> st_ok s1 \<Longrightarrow> \<exists>s2. f s1 = Some s2 \<and> keeps s1 s2"
  shows "\<exists>s2. r \<bind> f = Some s2 \<and> keeps st s2"
proof -
  obtain s1 where s1: "r = Some s1" "keeps st s1" using assms(2) by blast
  then obtain s2 where "f s1 = Some s2" "keeps s1 s2" using assms(1,3) keepsD(6) by blast
  then show ?thesis using s1 keeps_trans by auto
qed

lemma wmove_keeps:
  assumes "st_ok st"
  shows "keeps st (wmove y x st)"
proof (cases "unat y \<le> unat (maxy (fst st)) \<and> unat x \<le> unat (maxx (fst st))")
  case True
  then obtain t' where "wmove y x st = (at (unat y) (unat x) (fst st), t')" "leads (snd st) t'"
    using wmove_at [of "fst st" "unat y" "unat x" "unat (cur_y (fst st))" "unat (cur_x (fst st))" "snd st"] assms
    by (auto simp: st_ok_def at_self)
  then show ?thesis using True by (auto simp: keeps_def cur_ok_def)
next
  case False
  then have "wmove y x st = st" by (auto simp: wmove_def word_less_nat_alt not_le split: prod.splits)
  then show ?thesis using assms by (simp add: keeps_refl)
qed

text \<open>
  The second part of the interface of \<^verbatim>\<open>waddch\<close>: from every sane state it returns, and the state
  stays sane.
\<close>

locale writer = printer +
  assumes add_keeps: "st_ok st \<Longrightarrow> \<exists>st'. add ch st = Some st' \<and> keeps st st'"
begin

lemma add_spaces_keeps: "st_ok st \<Longrightarrow> \<exists>st'. add_spaces add k st = Some st' \<and> keeps st st'"
proof (induction k arbitrary: st)
  case (Suc k)
  then show ?case using keeps_bind [OF _ add_keeps [of st ch_space], of "add_spaces add k"] by simp
qed (simp add: keeps_refl)

lemma wspacetoeol_keeps: "st_ok st \<Longrightarrow> \<exists>st'. wspacetoeol add st = Some st' \<and> keeps st st'"
  unfolding wspacetoeol_def Let_def by (rule add_spaces_keeps)

lemma wclrtoeol_keeps:
  assumes "st_ok st"
  shows "\<exists>st'. wclrtoeol add st = Some st' \<and> keeps st st'"
  unfolding wclrtoeol_def Let_def
  by (rule keeps_bind [OF assms wspacetoeol_keeps [OF assms]]) (simp add: wmove_keeps)

lemma clr_rows_keeps:
  "st_ok st \<Longrightarrow> y \<le> unat (maxy (fst st)) + 1 \<Longrightarrow> \<exists>st'. clr_rows add (of_nat y) st = Some st' \<and> keeps st st'"
proof (induction "unat (maxy (fst st)) + 1 - y" arbitrary: y st)
  case 0
  then have "unat (maxy (fst st)) < y" "y < 256" using win_bounds(3) [of "fst st"] by (auto simp: st_ok_def)
  then have "\<not> (of_nat y \<le> maxy (fst st))" by (simp add: u8_of_nat_le)
  then show ?case using 0 by (subst clr_rows.simps) (simp add: keeps_refl)
next
  case (Suc k)
  then have b: "y \<le> unat (maxy (fst st))" "unat (maxy (fst st)) < 4" by (auto simp: st_ok_def win_bounds)
  then have y: "(of_nat y :: u8) \<le> maxy (fst st)" by (simp add: u8_of_nat_le)
  let ?m = "wmove (of_nat y) 0 st"
  have m: "keeps st ?m" "st_ok ?m" using wmove_keeps Suc.prems(1) keepsD(6) by blast+
  obtain s1 where s1: "wspacetoeol add ?m = Some s1" "keeps ?m s1" using wspacetoeol_keeps [OF m(2)] by auto
  then have k: "keeps st s1" "st_ok s1" "maxy (fst s1) = maxy (fst st)"
    using m keeps_trans keepsD(1,6) by (blast, blast, metis)
  have "k = unat (maxy (fst s1)) + 1 - (y + 1)" "y + 1 \<le> unat (maxy (fst s1)) + 1" using Suc.hyps(2) b k(3) by simp_all
  from Suc.hyps(1) [OF this(1) k(2) this(2)] obtain s2 where "clr_rows add (of_nat (y + 1)) s1 = Some s2" "keeps s1 s2" by auto
  then show ?case using y s1 k keeps_trans by (subst clr_rows.simps) (auto simp: add.commute)
qed

lemma wclrtobot_keeps:
  assumes "st_ok st"
  shows "\<exists>st'. wclrtobot add st = Some st' \<and> keeps st st'"
proof -
  obtain s1 where s1: "wspacetoeol add st = Some s1" "keeps st s1" using wspacetoeol_keeps [OF assms] by auto
  have o: "st_ok s1" using s1 keepsD(6) assms by blast
  have y: "unat (cur_y (fst st)) + 1 \<le> unat (maxy (fst s1)) + 1 \<or> unat (cur_y (fst st)) = unat (maxy (fst s1)) + 1"
    using assms s1 keepsD(1) by (auto simp: st_ok_def cur_ok_def)
  have "\<exists>s2. clr_rows add (of_nat (unat (cur_y (fst st)) + 1)) s1 = Some s2 \<and> keeps s1 s2"
  proof (cases "unat (cur_y (fst st)) + 1 \<le> unat (maxy (fst s1)) + 1")
    case True
    then show ?thesis by (rule clr_rows_keeps [OF o])
  next
    case False
    then have "unat (maxy (fst s1)) < unat (cur_y (fst st)) + 1" "unat (cur_y (fst st)) + 1 < 256"
      using y o win_bounds(3) [of "fst s1"] by (auto simp: st_ok_def)
    then have "\<not> (of_nat (unat (cur_y (fst st)) + 1) \<le> maxy (fst s1))" by (simp only: u8_of_nat_le not_le)
    then show ?thesis using o by (subst clr_rows.simps) (simp add: keeps_refl)
  qed
  then have "\<exists>s2. clr_rows add (cur_y (fst st) + 1) s1 = Some s2 \<and> keeps s1 s2" by (simp add: add.commute)
  from keeps_bind [OF o this, of "\<lambda>s. Some (wmove (cur_y (fst st)) (cur_x (fst st)) s)"]
  obtain s2 where "clr_rows add (cur_y (fst st) + 1) s1 \<bind> (\<lambda>s. Some (wmove (cur_y (fst st)) (cur_x (fst st)) s)) = Some s2" "keeps s1 s2"
    by (auto simp: wmove_keeps)
  then show ?thesis using s1 keeps_trans by (auto simp: wclrtobot_def Let_def)
qed

lemma wclear_keeps:
  assumes "st_ok st"
  shows "\<exists>st'. wclear add st = Some st' \<and> keeps st st'"
proof -
  obtain t' where "wclear add st = Some (at 0 0 (fst st), t')" "leads (snd st) t'"
    using wclear_ok [of "fst st" "snd st" "unat (cur_y (fst st))" "unat (cur_x (fst st))"] assms
    by (auto simp: st_ok_def at_self)
  then show ?thesis by (auto simp: keeps_def cur_ok_def)
qed

lemma copy_row_keeps:
  "st_ok st \<Longrightarrow> src \<le> unat (maxy (fst st)) \<Longrightarrow> x \<le> unat (maxx (fst st)) + 1 \<Longrightarrow>
    \<exists>st'. copy_row add src (of_nat x) st = Some st' \<and> keeps st st'"
proof (induction "unat (maxx (fst st)) + 1 - x" arbitrary: x st)
  case 0
  then have "unat (maxx (fst st)) < x" "x < 256" using win_bounds(4) [of "fst st"] by (auto simp: st_ok_def)
  then have "\<not> (of_nat x \<le> maxx (fst st))" by (simp add: u8_of_nat_le)
  then show ?case using 0 by (subst copy_row.simps) (simp add: keeps_refl)
next
  case (Suc k)
  then have b: "x \<le> unat (maxx (fst st))" "unat (maxx (fst st)) < 16" by (auto simp: st_ok_def win_bounds)
  have w: "win_ok (fst st)" "image_ok (snd st)" "unat (cur_x (fst st)) \<le> unat (maxx (fst st))"
    using Suc.prems(1) by (auto simp: st_ok_def cur_ok_def)
  obtain ch where ch: "peek (tty_image (snd st)) (map_idx (fst st) src (unat (cur_x (fst st)))) = Some ch"
    using image_char(1) [OF w(2) win_bounds(1) [OF w(1) Suc.prems(2)] win_bounds(2) [OF w(1,3)]] by (simp add: map_idx_def)
  have "\<exists>st'. add ch st \<bind> copy_row add src (of_nat (x + 1)) = Some st' \<and> keeps st st'"
  proof (rule keeps_bind [OF Suc.prems(1) add_keeps [OF Suc.prems(1)]])
    fix s1 assume s1: "keeps st s1" "st_ok s1"
    show "\<exists>s2. copy_row add src (of_nat (x + 1)) s1 = Some s2 \<and> keeps s1 s2"
      using Suc.hyps b Suc.prems(2) keepsD(1,2) [OF s1(1)] by (intro Suc.hyps(1)) (auto simp: s1)
  qed
  then show ?case using b ch by (subst copy_row.simps) (simp add: u8_of_nat_le add.commute)
qed

lemma copy_rows_keeps:
  "st_ok st \<Longrightarrow> unat ls \<le> unat (maxy (fst st)) \<Longrightarrow> y \<le> unat (maxy (fst st)) - unat ls + 1 \<Longrightarrow>
    \<exists>st'. copy_rows add ls (of_nat y) st = Some st' \<and> keeps st st'"
proof (induction "unat (maxy (fst st)) - unat ls + 1 - y" arbitrary: y st)
  case 0
  then have "unat (maxy (fst st)) < y + unat ls" "y < 256" using win_bounds(3) [of "fst st"] by (auto simp: st_ok_def)
  then show ?case using 0 by (subst copy_rows_unfold) (simp add: keeps_refl)
next
  case (Suc k)
  then have b: "y + unat ls \<le> unat (maxy (fst st))" "y < 256" using win_bounds(3) [of "fst st"] by (auto simp: st_ok_def)
  let ?m = "wmove (of_nat y) 0 st"
  have m: "keeps st ?m" "st_ok ?m" using wmove_keeps Suc.prems(1) keepsD(6) by blast+
  have "\<exists>st'. copy_row add (y + unat ls) 0 ?m \<bind> copy_rows add ls (of_nat (y + 1)) = Some st' \<and> keeps ?m st'"
  proof (rule keeps_bind [OF m(2)])
    show "\<exists>s1. copy_row add (y + unat ls) 0 ?m = Some s1 \<and> keeps ?m s1"
      using copy_row_keeps [OF m(2), of "y + unat ls" 0] b keepsD(1) [OF m(1)] by simp
    fix s1 assume s1: "keeps ?m s1" "st_ok s1"
    show "\<exists>s2. copy_rows add ls (of_nat (y + 1)) s1 = Some s2 \<and> keeps s1 s2"
      using Suc.hyps(2) Suc.prems b keepsD(1) [OF s1(1)] keepsD(1) [OF m(1)] by (intro Suc.hyps(1)) (auto simp: s1)
  qed
  then show ?case using b keeps_trans [OF m(1)] by (subst copy_rows_unfold) (auto simp: add.commute)
qed

lemma wscroll_keeps:
  assumes "st_ok st"
  shows "\<exists>st'. wscroll add ls st = Some st' \<and> keeps st st'"
proof (cases "maxy (fst st) < ls")
  case False
  then have "\<exists>s1. copy_rows add ls 0 st = Some s1 \<and> keeps st s1"
    using copy_rows_keeps [OF assms, of ls 0] by (simp add: word_less_nat_alt)
  then have "\<exists>s2. copy_rows add ls 0 st \<bind> (\<lambda>s. wclrtobot add (wmove (maxy (fst s) - ls + 1) 0 s)) = Some s2 \<and> keeps st s2"
  proof (rule keeps_bind [OF assms])
    fix s1 assume s1: "st_ok s1"
    have m: "keeps s1 (wmove (maxy (fst s1) - ls + 1) 0 s1)" using s1 by (rule wmove_keeps)
    then show "\<exists>s2. wclrtobot add (wmove (maxy (fst s1) - ls + 1) 0 s1) = Some s2 \<and> keeps s1 s2"
      using wclrtobot_keeps keepsD(6) [OF m s1] keeps_trans by blast
  qed
  then show ?thesis using False by (simp add: wscroll_def)
qed (simp add: wscroll_def wclear_keeps [OF assms] del: split_paired_Ex)

lemma waddstr_keeps: "st_ok st \<Longrightarrow> 0 \<in> set cs \<Longrightarrow> \<exists>st'. waddstr add cs st = Some st' \<and> keeps st st'"
proof (induction cs arbitrary: st)
  case (Cons c cs)
  show ?case
  proof (cases "c = 0")
    case False
    then show ?thesis using keeps_bind [OF Cons.prems(1) add_keeps [OF Cons.prems(1), of c], of "waddstr add cs"] Cons
      by (simp del: split_paired_Ex)
  qed (use keeps_refl [OF Cons.prems(1)] in simp)
qed simp

end

text \<open>Two nested activations of \<^verbatim>\<open>waddch\<close> are enough.\<close>

interpretation tty: writer "waddch (Suc (Suc n))" for n
proof
  fix st ch assume "st_ok st"
  then show "\<exists>st'. waddch (Suc (Suc n)) ch st = Some st' \<and> keeps st st'"
    using waddch_refines [of "fst st" "snd st" n ch] by (auto simp: st_ok_def keeps_def simp del: waddch.simps)
qed

subsection \<open>A program that uses the layer\<close>

text \<open>
  The calls a program makes, on the window with a given number; window zero is \<^verbatim>\<open>curscr\<close>, the
  others are made by \<^verbatim>\<open>subwin\<close> (the first argument: does \<^verbatim>\<open>malloc\<close> succeed).  \<open>Flags\<close> are the
  fields a program sets by itself.
\<close>

datatype tty_op =
    Subwin bool u8 u8 u8 u8
  | Addch nat u8
  | Addstr nat "u8 list"
  | Printw nat "u8 list"
  | Move nat u8 u8
  | Clear nat
  | ClrToEol nat
  | ClrToBot nat
  | Scroll nat u8
  | Flags nat bool bool bool

type_synonym tty_sys = "WINDOW list \<times> tty"

definition on_win :: "nat \<Rightarrow> (win_st \<Rightarrow> win_st option) \<Rightarrow> tty_sys \<Rightarrow> tty_sys option" where
  "on_win i f s =
     (if i < length (fst s) then do {
        r \<leftarrow> f (fst s ! i, snd s);
        Some ((fst s)[i := fst r], snd r)
      } else None)"

fun tty_exec :: "tty_op \<Rightarrow> tty_sys \<Rightarrow> tty_sys option" where
  "tty_exec (Subwin m ls cols oy ox) s =
     Some (case subwin m ls cols oy ox of Some w \<Rightarrow> (fst s @ [w], snd s) | None \<Rightarrow> s)"
| "tty_exec (Addch i ch) s = on_win i (waddch 2 ch) s"
| "tty_exec (Addstr i cs) s = on_win i (waddstr (waddch 2) cs) s"
| "tty_exec (Printw i txt) s = on_win i (wprintw (waddch 2) txt) s"
| "tty_exec (Move i y x) s = on_win i (\<lambda>st. Some (wmove y x st)) s"
| "tty_exec (Clear i) s = on_win i (wclear (waddch 2)) s"
| "tty_exec (ClrToEol i) s = on_win i (wclrtoeol (waddch 2)) s"
| "tty_exec (ClrToBot i) s = on_win i (wclrtobot (waddch 2)) s"
| "tty_exec (Scroll i n) s = on_win i (wscroll (waddch 2) n) s"
| "tty_exec (Flags i a b c) s =
     on_win i (\<lambda>(w, t). Some (w\<lparr>linewrap := a, scrollok := b, leaveok := c\<rparr>, t)) s"

fun tty_run :: "tty_op list \<Rightarrow> tty_sys \<Rightarrow> tty_sys option" where
  "tty_run [] s = Some s"
| "tty_run (p # ps) s = do { s \<leftarrow> tty_exec p s; tty_run ps s }"

text \<open>
  What is asked of the program: windows that exist, sub-windows inside of the screen, strings
  with an end.
\<close>

fun op_valid :: "nat \<Rightarrow> tty_op \<Rightarrow> bool" where
  "op_valid n (Subwin m ls cols oy ox) \<longleftrightarrow> 0 < unat ls \<and> 0 < unat cols
     \<and> unat oy + unat ls \<le> LINES \<and> unat ox + unat cols \<le> COLS"
| "op_valid n (Addstr i cs) \<longleftrightarrow> i < n \<and> 0 \<in> set cs"
| "op_valid n (Addch i _) \<longleftrightarrow> i < n"
| "op_valid n (Printw i _) \<longleftrightarrow> i < n"
| "op_valid n (Move i _ _) \<longleftrightarrow> i < n"
| "op_valid n (Clear i) \<longleftrightarrow> i < n"
| "op_valid n (ClrToEol i) \<longleftrightarrow> i < n"
| "op_valid n (ClrToBot i) \<longleftrightarrow> i < n"
| "op_valid n (Scroll i _) \<longleftrightarrow> i < n"
| "op_valid n (Flags i _ _ _) \<longleftrightarrow> i < n"

fun ops_valid :: "nat \<Rightarrow> tty_op list \<Rightarrow> bool" where
  "ops_valid n [] \<longleftrightarrow> True"
| "ops_valid n (p # ps) \<longleftrightarrow> op_valid n p
     \<and> ops_valid (case p of Subwin m _ _ _ _ \<Rightarrow> if m then n + 1 else n | _ \<Rightarrow> n) ps"

text \<open>The state the layer starts in: all data is zero, then \<^verbatim>\<open>initscr\<close> runs.\<close>

definition tty_boot :: "tty_sys" where
  "tty_boot =
     (case initscr (\<lparr>is_subwin = False, linewrap = False, scrollok = False, leaveok = False,
                    cur_y = 0, cur_x = 0, maxy = 0, maxx = 0, begy = 0, begx = 0\<rparr>,
                   \<lparr>tty_image = replicate (LINES * COLS) 0, tty_ll_y = 0, tty_ll_x = 0, ll_out = []\<rparr>)
      of (w, t) \<Rightarrow> ([w], t))"

definition sys_ok :: "tty_sys \<Rightarrow> bool" where
  "sys_ok s \<longleftrightarrow> (\<forall>w\<in>set (fst s). win_ok w \<and> cur_ok w) \<and> image_ok (snd s)"

lemma on_win_ok:
  assumes "sys_ok s" and "i < length (fst s)"
    and "\<And>st. st_ok st \<Longrightarrow> \<exists>st'. f st = Some st' \<and> st_ok st' \<and> leads (snd st) (snd st')"
  shows "\<exists>s'. on_win i f s = Some s' \<and> sys_ok s' \<and> leads (snd s) (snd s') \<and> length (fst s') = length (fst s)"
proof -
  have "st_ok (fst s ! i, snd s)" using assms(1,2) by (simp add: sys_ok_def st_ok_def)
  then obtain r where r: "f (fst s ! i, snd s) = Some r" "st_ok r" "leads (snd s) (snd r)" using assms(3) by force
  then have "sys_ok ((fst s)[i := fst r], snd r)"
    using assms(1) set_update_subset_insert [of "fst s" i "fst r"] by (auto simp: sys_ok_def st_ok_def)
  then show ?thesis using assms(2) r by (simp add: on_win_def)
qed

lemma keeps_ok: "st_ok st \<Longrightarrow> \<exists>st'. r = Some st' \<and> keeps st st' \<Longrightarrow> \<exists>st'. r = Some st' \<and> st_ok st' \<and> leads (snd st) (snd st')"
  using keepsD(6) keeps_def by blast

lemma subwin_ok:
  assumes "op_valid n (Subwin True ls cols oy ox)"
  shows "\<exists>w. subwin True ls cols oy ox = Some w \<and> win_ok w \<and> cur_ok w"
proof -
  have "ls \<noteq> 0" "cols \<noteq> 0" using assms by auto
  then have "unat (ls - 1) = unat ls - 1" "unat (cols - 1) = unat cols - 1" by (simp_all add: unat_minus_one)
  then show ?thesis using assms by (auto simp: subwin_def win_ok_def cur_ok_def)
qed

lemma tty_exec_ok:
  assumes "sys_ok s" and "op_valid (length (fst s)) p"
  shows "\<exists>s'. tty_exec p s = Some s' \<and> sys_ok s' \<and> leads (snd s) (snd s')
    \<and> length (fst s') = (case p of Subwin m _ _ _ _ \<Rightarrow> if m then length (fst s) + 1 else length (fst s) | _ \<Rightarrow> length (fst s))"
proof (cases p)
  case (Subwin m ls cols oy ox)
  then show ?thesis using assms subwin_ok [of "length (fst s)" ls cols oy ox]
    by (cases m) (auto simp: sys_ok_def leads.refl subwin_def)
next
  case (Flags i a b c)
  have "\<exists>st'. (\<lambda>(w, t). Some (w\<lparr>linewrap := a, scrollok := b, leaveok := c\<rparr>, t)) st = Some st' \<and> st_ok st' \<and> leads (snd st) (snd st')"
    if "st_ok st" for st
    using that by (auto simp: st_ok_def win_ok_def cur_ok_def leads.refl split: prod.splits)
  from on_win_ok [OF assms(1) _ this, of i] show ?thesis using assms(2) Flags by (simp del: split_paired_Ex)
next
  case (Printw i cs)
  have "0 \<in> set (take COLS cs @ [0])" by simp
  then show ?thesis using assms Printw on_win_ok [OF assms(1), of i "wprintw (waddch 2) cs"]
      keeps_ok [OF _ tty.waddstr_keeps [of _ _ 0]] by (auto simp: wprintw_def numeral_2_eq_2 simp del: waddch.simps)
qed (use assms in \<open>auto simp: numeral_2_eq_2 wmove_keeps simp del: waddch.simps split_paired_Ex
      intro!: on_win_ok keeps_ok tty.add_keeps tty.waddstr_keeps tty.wclear_keeps tty.wclrtoeol_keeps tty.wclrtobot_keeps tty.wscroll_keeps\<close>)

lemma tty_run_ok:
  "sys_ok s \<Longrightarrow> ops_valid (length (fst s)) ps \<Longrightarrow>
    \<exists>s'. tty_run ps s = Some s' \<and> sys_ok s' \<and> leads (snd s) (snd s')"
proof (induction ps arbitrary: s)
  case (Cons p ps)
  then obtain s1 where s1: "tty_exec p s = Some s1" "sys_ok s1" "leads (snd s) (snd s1)"
      "length (fst s1) = (case p of Subwin m _ _ _ _ \<Rightarrow> if m then length (fst s) + 1 else length (fst s) | _ \<Rightarrow> length (fst s))"
    using tty_exec_ok [of s p] by auto
  from Cons.IH [OF s1(2)] Cons.prems(2) s1 show ?case by (auto intro: leads_trans)
qed (auto intro: leads.refl)

lemma tty_boot_ok: "sys_ok tty_boot" "length (fst tty_boot) = 1"
  by (auto simp: sys_ok_def tty_boot_def initscr_def win_ok_def cur_ok_def image_ok_def screen_size)

subsection \<open>What the displays show\<close>

text \<open>
  Two kinds of displays, as the drivers use them: one is given the position of every
  character (\<^verbatim>\<open>tty-s1d15g10.h\<close>, \<^verbatim>\<open>tty-s1d13305.h\<close>), the other writes at its own cursor, which
  follows the characters and returns home when the display is cleared (\<^verbatim>\<open>tty-hd44780.h\<close>,
  \<^verbatim>\<open>tty-vt100.c\<close>).
\<close>

fun pos_display :: "grid \<Rightarrow> ll_cmd \<Rightarrow> grid" where
  "pos_display g LL_clear = (\<lambda>_ _. 32)"
| "pos_display g (LL_goto y x) = g"
| "pos_display g (LL_put y x ch) = set_cell (unat y) (unat x) ch g"

fun cur_display :: "screen \<Rightarrow> ll_cmd \<Rightarrow> screen" where
  "cur_display (g, y, x) LL_clear = (\<lambda>_ _. 32, 0, 0)"
| "cur_display (g, y, x) (LL_goto y' x') = (g, unat y', unat x')"
| "cur_display (g, y, x) (LL_put y' x' ch) = (set_cell y x ch g, y, x + 1)"

text \<open>
  A display shows the image; a cell that was never written is zero in the image and blank on
  the display.
\<close>

definition displays :: "grid \<Rightarrow> tty \<Rightarrow> bool" where
  "displays g t \<longleftrightarrow> (\<forall>y<LINES. \<forall>x<COLS. g y x = tty_image t ! (y * COLS + x)
      \<or> tty_image t ! (y * COLS + x) = 0 \<and> g y x = 32)"

definition pos_inv :: "grid \<Rightarrow> tty \<Rightarrow> bool" where
  "pos_inv g0 t \<longleftrightarrow> displays (foldl pos_display g0 (ll_out t)) t"

definition cur_inv :: "screen \<Rightarrow> tty \<Rightarrow> bool" where
  "cur_inv s0 t \<longleftrightarrow> ll_out t \<noteq> [] \<and> (LL_clear \<notin> set (tl (ll_out t)) \<longrightarrow>
     (case foldl cur_display s0 (ll_out t) of (g, y, x) \<Rightarrow>
        displays g t \<and> y = unat (tty_ll_y t) \<and> x = unat (tty_ll_x t)))"

lemma displays_put:
  assumes "displays g t" and "image_ok t" and "y < LINES" and "x < COLS"
  shows "displays (set_cell y x ch g) (t\<lparr>tty_image := (tty_image t)[y * COLS + x := ch]\<rparr>)"
  using assms idx_less [of y x] idx_less
  by (auto simp: displays_def set_cell_def image_ok_def nth_list_update idx_eq_iff)

lemma displays_cong: "tty_image t' = tty_image t \<Longrightarrow> displays g t' = displays g t"
  by (simp add: displays_def)

lemma u8_pos: "y < LINES \<Longrightarrow> unat (of_nat y :: u8) = y" "x < COLS \<Longrightarrow> unat (of_nat x :: u8) = x"
  "x < COLS \<Longrightarrow> unat (of_nat x + 1 :: u8) = x + 1"
  using u8_of_nat [of "x + 1"] by (simp_all add: screen_size add.commute)

lemma leads_pos_inv: "leads t t' \<Longrightarrow> image_ok t \<Longrightarrow> pos_inv g0 t \<Longrightarrow> pos_inv g0 t'"
proof (induction rule: leads.induct)
  case (put t t' y x ch)
  then have o: "image_ok t'" "displays (foldl pos_display g0 (ll_out t')) t'" using leads_image_ok by (auto simp: pos_inv_def)
  then show ?case using displays_put [OF o(2,1) put(2,3), of ch] put
    by (auto simp: pos_inv_def cell_put_def tty_ll_put_def tty_ll_goto_def Let_def u8_pos displays_def)
next
  case (goto t t' y x)
  then show ?case by (auto simp: pos_inv_def tty_ll_goto_def displays_def)
next
  case (clear t t')
  then show ?case by (auto simp: pos_inv_def clear_all_def tty_ll_clear_def displays_def idx_less)
qed simp

lemma leads_cur_inv: "leads t t' \<Longrightarrow> image_ok t \<Longrightarrow> cur_inv s0 t \<Longrightarrow> cur_inv s0 t'"
proof (induction rule: leads.induct)
  case (put t t' y x ch)
  then have i: "cur_inv s0 t'" "image_ok t'" using leads_image_ok by auto
  obtain g cy cx where f: "foldl cur_display s0 (ll_out t') = (g, cy, cx)" by (metis prod_cases3)
  have "displays g t' \<Longrightarrow> displays (set_cell y x ch g) (t'\<lparr>tty_image := (tty_image t')[y * COLS + x := ch]\<rparr>)"
    using displays_put i(2) put(2,3) by blast
  moreover have "of_nat y = tty_ll_y t' \<Longrightarrow> unat (tty_ll_y t') = y" "of_nat x = tty_ll_x t' \<Longrightarrow> unat (tty_ll_x t') = x"
      "of_nat x = tty_ll_x t' \<Longrightarrow> unat (tty_ll_x t' + 1) = x + 1"
    using u8_pos put(2,3) by metis+
  ultimately show ?case using i(1) f put(2,3)
    by (auto simp: cur_inv_def cell_put_def tty_ll_put_def tty_ll_goto_def Let_def u8_pos displays_def)
next
  case (goto t t' y x)
  then show ?case by (auto simp: cur_inv_def tty_ll_goto_def displays_def split: prod.splits)
next
  case (clear t t')
  then show ?case by (auto simp: cur_inv_def clear_all_def tty_ll_clear_def)
qed simp

lemma tty_boot_inv: "pos_inv g0 (snd tty_boot)" "cur_inv s0 (snd tty_boot)"
  by (cases s0; auto simp: tty_boot_def initscr_def tty_ll_clear_def pos_inv_def cur_inv_def displays_def idx_less)+

subsection \<open>Properties\<close>

text \<open>
  C10: printing follows the reference semantics of a scrolling window.  For every window inside
  of the screen, \<^verbatim>\<open>waddstr\<close> returns, and image and cursor are those of the reference, character
  by character: newline and return move the cursor, another character is written at the
  cursor, which advances and wraps, and a character below the last line scrolls the window
  up by one row first (or is dropped when scrolling is off); nothing outside of the window
  changes.\<close>

theorem tty_print_refines:
  assumes "win_ok w" and "image_ok t" and "cur_ok w" and "0 \<notin> set cs"
  shows "\<exists>w' t'. waddstr (waddch 2) (cs @ [0]) (w, t) = Some (w', t')
           \<and> view (w', t') = foldl (scr_addch w) (view (w, t)) cs"
  using waddstr_refines [of w t "unat (cur_y w)" "unat (cur_x w)" cs 0 "[]"] assms
  by (auto simp: at_self numeral_2_eq_2 simp del: waddch.simps)

definition demo_win :: WINDOW where
  "demo_win = \<lparr>is_subwin = True, linewrap = True, scrollok = True, leaveok = True,
     cur_y = 0, cur_x = 0, maxy = 1, maxx = 2, begy = 1, begx = 4\<rparr>"

definition demo_tty :: tty where
  "demo_tty = \<lparr>tty_image = replicate (LINES * COLS) 46, tty_ll_y = 0, tty_ll_x = 0, ll_out = []\<rparr>"

theorem tty_print_refines_witness:
  "\<exists>w' t'. waddstr (waddch 2) ([97, 98, 99, 100, 10, 101] @ [0]) (demo_win, demo_tty) = Some (w', t')
     \<and> cells t' 1 4 = 100 \<and> cells t' 1 5 = 46 \<and> cells t' 2 5 = 32 \<and> cells t' 2 4 = 101 \<and> cells t' 2 3 = 46
     \<and> cur_y w' = 1 \<and> cur_x w' = 1"
proof -
  have a: "win_ok demo_win" "image_ok demo_tty" "cur_ok demo_win" "0 \<notin> set [97, 98, 99, 100, 10, 101 :: u8]"
    by (simp_all add: win_ok_def demo_win_def image_ok_def demo_tty_def cur_ok_def screen_size)
  obtain w' t' where r: "waddstr (waddch 2) ([97, 98, 99, 100, 10, 101] @ [0]) (demo_win, demo_tty) = Some (w', t')"
      "view (w', t') = foldl (scr_addch demo_win) (view (demo_win, demo_tty)) [97, 98, 99, 100, 10, 101]"
    using tty_print_refines [OF a] by blast
  have c: "cells demo_tty = (\<lambda>Y X. if Y < 4 \<and> X < 16 then 46 else 0)"
    by (auto simp: cells_def demo_tty_def fun_eq_iff idx_less screen_size)
  have f: "view (w', t') = (cells t', unat (cur_y w'), unat (cur_x w'))" by (simp add: view_def)
  have "unat (cur_y w') = 1 \<and> unat (cur_x w') = 1 \<and> cells t' 1 4 = 100 \<and> cells t' 1 5 = 46 \<and> cells t' 2 5 = 32 \<and> cells t' 2 4 = 101 \<and> cells t' 2 3 = 46"
    using r(2) unfolding f by (auto simp: view_def c demo_win_def scr_addch_def scr_put_def scroll_up_def set_cell_def)
  then show ?thesis using r(1) by (auto simp: word_unat_eq_iff)
qed

text \<open>
  C12: the layer is safe for every program.  Whatever sequence of calls a program makes after
  \<^verbatim>\<open>initscr\<close> on windows that exist, all of them return without an access outside of the image, in
  spite of the recursion between \<^verbatim>\<open>waddch\<close> and \<^verbatim>\<open>wscroll\<close> and of the loops over bytes; the image
  keeps its size and holds no control characters, every window stays inside of the screen and
  every cursor inside of its window or at the start of the line below.\<close>

theorem tty_wellformed:
  assumes "ops_valid 1 ops"
  shows "\<exists>ws t. tty_run ops tty_boot = Some (ws, t) \<and> image_ok t \<and> list_all (\<lambda>w. win_ok w \<and> cur_ok w) ws"
  using tty_run_ok [OF tty_boot_ok(1), of ops] assms by (auto simp: tty_boot_ok sys_ok_def list_all_iff)

theorem tty_wellformed_witness:
  "\<exists>ws t. tty_run [Subwin True 2 3 1 4, Addstr 1 [97, 98, 99, 100, 10, 101, 10, 0], Scroll 0 9, Addch 1 10] tty_boot = Some (ws, t)
     \<and> image_ok t \<and> list_all (\<lambda>w. win_ok w \<and> cur_ok w) ws"
  by (rule tty_wellformed) (simp add: screen_size)

text \<open>
  C11: the displays show the image.  After every sequence of calls, the display whose driver is
  given the position of each character (replaying the low-level calls from any contents
  \<open>g0\<close>) shows exactly the off-screen image, although only the characters that changed are put; so
  does a display that writes at its own cursor, as long as the program did not clear the screen
  after \<^verbatim>\<open>initscr\<close>.\<close>

theorem tty_displays_image:
  assumes "ops_valid 1 ops" and "tty_run ops tty_boot = Some (ws, t)"
  shows "displays (foldl pos_display g0 (ll_out t)) t
    \<and> (LL_clear \<in> set (tl (ll_out t)) \<or> displays (fst (foldl cur_display s0 (ll_out t))) t)"
proof -
  have "leads (snd tty_boot) t" "image_ok (snd tty_boot)"
    using tty_run_ok [OF tty_boot_ok(1), of ops] tty_boot_ok assms by (auto simp: sys_ok_def)
  then have "pos_inv g0 t" "cur_inv s0 t" using leads_pos_inv leads_cur_inv tty_boot_inv by blast+
  then show ?thesis by (auto simp: pos_inv_def cur_inv_def split: prod.splits)
qed

theorem tty_displays_image_witness:
  "\<exists>ws t. tty_run [Addstr 0 [97, 98, 0], Move 0 2 5, Addch 0 99] tty_boot = Some (ws, t)
     \<and> displays (foldl pos_display (\<lambda>_ _. 0) (ll_out t)) t \<and> LL_put 2 5 99 \<in> set (ll_out t)
     \<and> displays (fst (foldl cur_display (\<lambda>_ _. 0, 0, 0) (ll_out t))) t"
proof -
  let ?ops = "[Addstr 0 [97, 98, 0], Move 0 2 5, Addch 0 99]"
  obtain ws t where r: "tty_run ?ops tty_boot = Some (ws, t)"
    using tty_run_ok [OF tty_boot_ok(1), of ?ops] by (auto simp: tty_boot_ok)
  have "map_option (\<lambda>(ws, t). ll_out t) (tty_run ?ops tty_boot) =
      Some [LL_clear, LL_put 0 0 97, LL_put 0 1 98, LL_goto 2 5, LL_put 2 5 99]"
    by code_simp
  then have "ll_out t = [LL_clear, LL_put 0 0 97, LL_put 0 1 98, LL_goto 2 5, LL_put 2 5 99]" using r by simp
  moreover have "ops_valid 1 ?ops" by simp
  ultimately show ?thesis using r tty_displays_image [OF _ r, of "\<lambda>_ _. 0" "(\<lambda>_ _. 0, 0, 0)"] by auto
qed

text \<open>
  Why the condition is needed: \<^verbatim>\<open>tty_ll_clear\<close> does not reset the position the layer has noted for
  the cursor of the displays, though clearing sends that cursor home.  After two characters, a
  clear and a move to column two, the next character appears in column zero of the display.
\<close>

lemma tty_clear_stale_cursor:
  "map_option (\<lambda>(ws, t). (ll_out t, tty_image t ! 2, tty_image t ! 0))
     (tty_run [Addstr 0 [97, 98, 0], Clear 0, Move 0 0 2, Addch 0 120] tty_boot)
   = Some ([LL_clear, LL_put 0 0 97, LL_put 0 1 98, LL_clear, LL_put 0 2 120], 120, 32)"
  "let (g, _, _) = foldl cur_display s0 [LL_clear, LL_put 0 0 97, LL_put 0 1 98, LL_clear, LL_put 0 2 120]
   in g 0 0 = 120 \<and> g 0 2 = 32"
  by code_simp (cases s0, simp add: set_cell_def)

subsection \<open>The input queue\<close>

text \<open>
  \<^verbatim>\<open>getch\<close> and \<^verbatim>\<open>_getch_queue\<close> are a queue of at most seven characters, another provider of the
  interface \<open>fifo\<close>; the character zero cannot be queued.
\<close>

definition input_rel :: "u8 list \<Rightarrow> u8 list \<Rightarrow> bool" where
  "input_rel xs q \<longleftrightarrow> (\<exists>rest. q = xs @ 0 # rest) \<and> 0 \<notin> set xs \<and> length q = 8"

definition input_push :: "unit \<Rightarrow> u8 \<Rightarrow> u8 list \<Rightarrow> bool \<times> u8 list" where
  "input_push m ch q = (case getch_queue ch q of Some (r, q') \<Rightarrow> (r = 0, q') | None \<Rightarrow> (False, q))"

definition input_pop :: "u8 list \<Rightarrow> u8 option \<times> u8 list" where
  "input_pop q = (case getch q of Some (ch, q') \<Rightarrow> (if ch = 0 then None else Some ch, q') | None \<Rightarrow> (None, q))"

lemma getch_cons:
  assumes "0 \<notin> set (x # xs)"
  shows "getch ((x # xs) @ 0 # rest) = Some (x, xs @ 0 # 0 # rest)"
proof -
  have "strlen ((x # xs) @ 0 # rest) = Some (Suc (length xs))" using strlen_append [OF assms] by simp
  moreover have "memmove ((x # xs) @ 0 # rest) 0 1 (Suc (length xs)) = Some (xs @ 0 # 0 # rest)"
    by (simp add: memmove_def memcpy_def)
  ultimately show ?thesis using assms by (simp add: getch_def peek_def)
qed

lemma getch_queue_room:
  assumes "0 \<notin> set xs" 
  shows "getch_queue x (xs @ 0 # r # rest) = Some (0, xs @ x # 0 # rest)"
  using strlen_append [OF assms, of "r # rest"]
  by (simp add: getch_queue_def poke_def list_update_append nth_append)

lemma getch_queue_full: "0 \<notin> set xs \<Longrightarrow> getch_queue x (xs @ [0]) = Some (1, xs @ [0])"
  by (simp add: getch_queue_def)

interpretation input_queue: fifo input_rel "\<lambda>_ x _. x \<noteq> 0" "\<lambda>_. True" "\<lambda>_. 7" input_push input_pop
proof
  fix xs s m and x :: u8
  assume a: "input_rel xs s" "x \<noteq> 0" "length xs < 7"
  then obtain rest' where "s = xs @ 0 # rest'" "rest' \<noteq> []" by (fastforce simp: input_rel_def)
  then obtain r rest where "s = xs @ 0 # r # rest" by (cases rest') auto
  then show "\<exists>s'. input_push m x s = (True, s') \<and> input_rel (xs @ [x]) s' \<and> 7 = (7 :: nat)"
    using a getch_queue_room [of xs x r rest] by (auto simp: input_rel_def input_push_def)
next
  fix xs s m and x :: u8
  assume a: "input_rel xs s" "7 \<le> length xs \<or> \<not> True"
  then have "s = xs @ [0]" by (auto simp: input_rel_def simp flip: length_0_conv)
  then show "input_push m x s = (False, s)" using a getch_queue_full by (auto simp: input_rel_def input_push_def)
next
  fix s assume "input_rel [] s"
  then show "input_pop s = (None, s)" by (auto simp: input_rel_def input_pop_def getch_def peek_def)
next
  fix x xs s assume a: "input_rel (x # xs) s"
  then obtain rest where r: "s = (x # xs) @ 0 # rest" "0 \<notin> set (x # xs)" by (auto simp: input_rel_def)
  then show "\<exists>s'. input_pop s = (Some x, s') \<and> input_rel xs s' \<and> 7 = (7 :: nat)"
    using a getch_cons [OF r(2), of rest] by (auto simp: input_rel_def input_pop_def)
qed

lemma getch_refines_fifo:
  "fresh_run (\<lambda>_ x _. x \<noteq> 0) input_push input_pop (replicate 8 0) ops \<Longrightarrow>
   op_run input_push input_pop (replicate 8 0) ops = spec_run (\<lambda>_. True) 7 [] ops"
  by (rule input_queue.run_refines) (auto simp: input_rel_def numeral_eq_Suc)

end
