(* ===== verification/E6_TtyVt100.thy ===== *)
theory E6_TtyVt100
  imports E6_TtyDisplay E6_Uip
begin

text \<open>
  The VT100 driver of the text layer (\<^verbatim>\<open>core/tty/tty-vt100.c\<close>) and its telnet server
  (\<^verbatim>\<open>core/tty/tty-vt100-telnet.c\<close>).  The driver turns the low-level calls into bytes of escape
  sequences and keeps them in a ring as large as the screen; every telnet connection has its
  own position in the ring, up to which its peer has acknowledged the data.
\<close>

subsection \<open>The driver\<close>

record vt100 =
  vt100_buf :: "u8 list"
  vt100_head :: nat

definition vt100_putbuf :: "u8 \<Rightarrow> vt100 \<Rightarrow> vt100 option" where
  "vt100_putbuf ch v = do {
     buf \<leftarrow> poke (vt100_buf v) (vt100_head v) ch;
     let hd' = vt100_head v + 1;
     Some \<lparr>vt100_buf = buf, vt100_head = (if hd' = LINES * COLS then 0 else hd')\<rparr>
   }"

primrec vt100_putstr :: "u8 list \<Rightarrow> vt100 \<Rightarrow> vt100 option" where
  "vt100_putstr [] v = None"
| "vt100_putstr (c # cs) v =
     (if c = 0 then Some v else do { v \<leftarrow> vt100_putbuf c v; vt100_putstr cs v })"

text \<open>
  \<^verbatim>\<open>vt100_putstr_P\<close> looks for the end of the string in the program memory, but stores what
  the data memory has at the same addresses (\<open>ram\<close>).
\<close>

primrec vt100_putstr_P :: "u8 list \<Rightarrow> u8 list \<Rightarrow> vt100 \<Rightarrow> vt100 option" where
  "vt100_putstr_P [] ram v = None"
| "vt100_putstr_P (c # cs) ram v =
     (if c = 0 then Some v
      else do { r \<leftarrow> peek ram 0; v \<leftarrow> vt100_putbuf r v; vt100_putstr_P cs (tl ram) v })"

definition vt100_clr_str :: "u8 list" where
  "vt100_clr_str = [27, 91, 50, 74, 27, 91, 72, 0]"

definition tty_vt100_clear :: "u8 list \<Rightarrow> vt100 \<Rightarrow> vt100 option" where
  "tty_vt100_clear ram v = vt100_putstr_P vt100_clr_str ram v"

text \<open>The decimal digits \<^verbatim>\<open>sprintf\<close> writes for \<^verbatim>\<open>%i\<close>; the numbers here are 1 to 256.\<close>

definition dec3 :: "nat \<Rightarrow> u8 list" where
  "dec3 n = (if n < 10 then [48 + of_nat n]
     else if n < 100 then [48 + of_nat (n div 10), 48 + of_nat (n mod 10)]
     else [48 + of_nat (n div 100), 48 + of_nat (n div 10 mod 10), 48 + of_nat (n mod 10)])"

definition tty_vt100_goto :: "u8 \<Rightarrow> u8 \<Rightarrow> vt100 \<Rightarrow> vt100 option" where
  "tty_vt100_goto y x v =
     (let buf = [27, 91] @ dec3 (unat y + 1) @ [59] @ dec3 (unat x + 1) @ [72, 0]
      in if length buf \<le> 16 then vt100_putstr buf v else None)"

definition tty_vt100_put :: "u8 \<Rightarrow> u8 \<Rightarrow> u8 \<Rightarrow> vt100 \<Rightarrow> vt100 option" where
  "tty_vt100_put y x ch v = vt100_putbuf ch v"

text \<open>The calls the text layer makes.\<close>

fun vt100_cmd :: "u8 list \<Rightarrow> ll_cmd \<Rightarrow> vt100 \<Rightarrow> vt100 option" where
  "vt100_cmd ram LL_clear v = tty_vt100_clear ram v"
| "vt100_cmd ram (LL_goto y x) v = tty_vt100_goto y x v"
| "vt100_cmd ram (LL_put y x ch) v = tty_vt100_put y x ch v"

fun vt100_cmds :: "u8 list \<Rightarrow> ll_cmd list \<Rightarrow> vt100 \<Rightarrow> vt100 option" where
  "vt100_cmds ram [] v = Some v"
| "vt100_cmds ram (c # cs) v = do { v \<leftarrow> vt100_cmd ram c v; vt100_cmds ram cs v }"

subsection \<open>The telnet server\<close>

record vt_conn =
  send_all :: bool
  acked :: nat
  sent :: nat

definition tty_vt100_send_all :: "tty \<Rightarrow> vt100 \<Rightarrow> vt_conn \<Rightarrow> u8 list \<times> vt_conn" where
  "tty_vt100_send_all t v c =
     (take 7 vt100_clr_str
        @ concat (map (\<lambda>y. take COLS (drop (COLS * y) (tty_image t)) @ [13, 10]) [0..<LINES]),
      c\<lparr>sent := vt100_head v\<rparr>)"

text \<open>One received segment: \<^verbatim>\<open>C-l\<close> asks for the whole screen, the rest goes to the input queue.\<close>

primrec vt_input :: "u8 list \<Rightarrow> vt_conn \<times> u8 list \<Rightarrow> (vt_conn \<times> u8 list) option" where
  "vt_input [] s = Some s"
| "vt_input (ch # cs) s =
     (if ch = 12 then vt_input cs ((fst s)\<lparr>send_all := True\<rparr>, snd s)
      else do { r \<leftarrow> getch_queue ch (snd s); vt_input cs (fst s, snd r) })"

definition u8_len :: "nat \<Rightarrow> nat" where
  "u8_len n = unat (of_nat n :: u8)"

definition vt_update :: "vt100 \<Rightarrow> vt_conn \<Rightarrow> u8 list option" where
  "vt_update v c =
     (if vt100_head v > acked c then
        Some (take (u8_len (vt100_head v - acked c)) (drop (acked c) (vt100_buf v)))
      else if vt100_head v < acked c then
        Some (take (u8_len (LINES * COLS - acked c)) (drop (acked c) (vt100_buf v))
              @ take (u8_len (vt100_head v)) (vt100_buf v))
      else None)"

definition tty_vt100_main ::
    "uip_event \<Rightarrow> tty \<Rightarrow> vt100 \<Rightarrow> vt_conn \<Rightarrow> u8 list \<Rightarrow> (u8 list option \<times> vt_conn \<times> u8 list) option" where
  "tty_vt100_main ev t v c q =
     (let c = (if uip_connected ev then c\<lparr>send_all := True\<rparr> else c);
          c = (if uip_acked ev then c\<lparr>send_all := False, acked := sent c\<rparr> else c)
      in do {
        (c, q) \<leftarrow> (if uip_newdata ev
                   then vt_input (take (u8_len (length (uip_appdata ev))) (uip_appdata ev)) (c, q)
                   else Some (c, q));
        Some (if uip_rexmit ev \<or> uip_newdata ev \<or> uip_acked ev \<or> uip_connected ev \<or> uip_poll ev
              then if send_all c
                   then (case tty_vt100_send_all t v c of (bs, c) \<Rightarrow> (Some bs, c, q))
                   else (vt_update v c, c\<lparr>sent := vt100_head v\<rparr>, q)
              else (None, c, q))
      })"

subsection \<open>The ring\<close>

text \<open>The bytes a call of the text layer stands for, and the bytes of the ring from a position to the head.\<close>

fun cmd_bytes :: "u8 list \<Rightarrow> ll_cmd \<Rightarrow> u8 list" where
  "cmd_bytes ram LL_clear = take 7 ram"
| "cmd_bytes ram (LL_goto y x) = [27, 91] @ dec3 (unat y + 1) @ [59] @ dec3 (unat x + 1) @ [72]"
| "cmd_bytes ram (LL_put y x ch) = [ch]"

definition ring_since :: "vt100 \<Rightarrow> nat \<Rightarrow> u8 list" where
  "ring_since v i =
     (if i \<le> vt100_head v then take (vt100_head v - i) (drop i (vt100_buf v))
      else drop i (vt100_buf v) @ take (vt100_head v) (vt100_buf v))"

definition ring_ok :: "vt100 \<Rightarrow> bool" where
  "ring_ok v \<longleftrightarrow> length (vt100_buf v) = LINES * COLS \<and> vt100_head v < LINES * COLS"

fun put_all :: "u8 list \<Rightarrow> vt100 \<Rightarrow> vt100 option" where
  "put_all [] v = Some v"
| "put_all (b # bs) v = do { v \<leftarrow> vt100_putbuf b v; put_all bs v }"

lemma put_all_append: "put_all (xs @ ys) v = put_all xs v \<bind> put_all ys"
  by (induction xs arbitrary: v) (auto split: bind_splits)

lemma vt100_putstr_all: "0 \<notin> set bs \<Longrightarrow> vt100_putstr (bs @ [0]) v = put_all bs v"
  by (induction bs arbitrary: v) (auto split: bind_splits)

lemma vt100_putstr_P_all:
  "0 \<notin> set bs \<Longrightarrow> length bs \<le> length ram \<Longrightarrow> vt100_putstr_P (bs @ [0]) ram v = put_all (take (length bs) ram) v"
proof (induction bs arbitrary: ram v)
  case (Cons b bs)
  then show ?case by (cases ram) (auto simp: peek_def split: bind_splits)
qed simp

lemma digit_nonzero: "d < 10 \<Longrightarrow> (48 :: u8) + of_nat d \<noteq> 0"
  by (auto simp: word_unat_eq_iff unat_word_ariths unat_of_nat)

lemma dec3_ok: "n < 1000 \<Longrightarrow> 0 \<notin> set (dec3 n)" "length (dec3 n) \<le> 3"
  using digit_nonzero [of n] digit_nonzero [of "n div 10"] digit_nonzero [of "n mod 10"]
    digit_nonzero [of "n div 100"] digit_nonzero [of "n div 10 mod 10"]
  by (auto simp: dec3_def)

lemma vt100_cmd_bytes:
  assumes "7 \<le> length ram"
  shows "vt100_cmd ram c v = put_all (cmd_bytes ram c) v"
proof (cases c)
  case LL_clear
  have l: "length [27, 91, 50, 74, 27, 91, 72 :: u8] = 7" by simp
  have "vt100_putstr_P ([27, 91, 50, 74, 27, 91, 72] @ [0]) ram v = put_all (take 7 ram) v"
    using vt100_putstr_P_all [of "[27, 91, 50, 74, 27, 91, 72]" ram v] assms unfolding l by simp
  then show ?thesis using LL_clear by (simp add: tty_vt100_clear_def vt100_clr_str_def)
next
  case (LL_goto y x)
  have b: "unat y + 1 < 1000" "unat x + 1 < 1000" using u8_less_256 [of y] u8_less_256 [of x] by simp_all
  have "length ([27, 91] @ dec3 (unat y + 1) @ [59] @ dec3 (unat x + 1) @ [72, 0]) \<le> 16"
    using dec3_ok(2) [of "unat y + 1"] dec3_ok(2) [of "unat x + 1"] by simp
  then show ?thesis using LL_goto dec3_ok(1) [OF b(1)] dec3_ok(1) [OF b(2)]
      vt100_putstr_all [of "cmd_bytes ram (LL_goto y x)" v]
    by (simp add: tty_vt100_goto_def Let_def)
next
  case (LL_put y x ch)
  then show ?thesis by (cases "vt100_putbuf ch v") (simp_all add: tty_vt100_put_def)
qed

lemma vt100_cmds_bytes:
  assumes "7 \<le> length ram"
  shows "vt100_cmds ram cs v = put_all (concat (map (cmd_bytes ram) cs)) v"
proof -
  have "vt100_cmds ram cs = put_all (concat (map (cmd_bytes ram) cs))"
  proof (induction cs)
    case (Cons c cs)
    show ?case by (rule ext) (simp add: put_all_append vt100_cmd_bytes [OF assms] Cons)
  qed (simp add: fun_eq_iff)
  then show ?thesis by simp
qed

lemma putbuf_ring:
  assumes "ring_ok v" and "i < LINES * COLS"
  shows "\<exists>v'. vt100_putbuf b v = Some v' \<and> ring_ok v'
     \<and> vt100_head v' = (vt100_head v + 1) mod (LINES * COLS)
     \<and> (length (ring_since v i) + 1 < LINES * COLS \<longrightarrow> ring_since v' i = ring_since v i @ [b])"
proof -
  define n where "n = LINES * COLS"
  define h where "h = vt100_head v"
  have l: "length (vt100_buf v) = n" "h < n" "i < n" using assms by (simp_all add: ring_ok_def n_def h_def)
  define v' where "v' = \<lparr>vt100_buf = (vt100_buf v)[h := b], vt100_head = (h + 1) mod n\<rparr>"
  have e: "vt100_putbuf b v = Some v'"
    using l by (auto simp: vt100_putbuf_def poke_def v'_def h_def [symmetric] n_def [symmetric])
  have tk: "take (Suc h) ((vt100_buf v)[h := b]) = take h (vt100_buf v) @ [b]"
    using l by (simp add: take_Suc_conv_app_nth)
  have r: "ring_since v' i = ring_since v i @ [b]" if s: "length (ring_since v i) + 1 < n"
  proof (cases "i \<le> h")
    case True
    show ?thesis
    proof (cases "h + 1 = n")
      case wrap: True
      then have "i \<noteq> 0" using s l True by (auto simp: ring_since_def h_def [symmetric])
      moreover have "drop i ((vt100_buf v)[h := b]) = take (h - i) (drop i (vt100_buf v)) @ [b]"
        using l wrap True by (intro nth_equalityI) (auto simp: nth_append nth_list_update)
      ultimately show ?thesis using wrap True by (simp add: ring_since_def v'_def h_def [symmetric])
    next
      case False
      have "take (h + 1 - i) (drop i ((vt100_buf v)[h := b])) = take (h - i) (drop i (vt100_buf v)) @ [b]"
        using l True tk by (simp add: take_drop)
      then show ?thesis using False True l by (simp add: ring_since_def v'_def h_def [symmetric])
    qed
  next
    case False
    then have "h + 1 < i" using s l by (simp add: ring_since_def h_def [symmetric])
    then show ?thesis using False l tk by (simp add: ring_since_def v'_def h_def [symmetric])
  qed
  show ?thesis using e r l by (auto simp: ring_ok_def v'_def n_def [symmetric] h_def [symmetric])
qed

lemma put_all_ring:
  "ring_ok v \<Longrightarrow> i < LINES * COLS \<Longrightarrow>
    \<exists>v'. put_all bs v = Some v' \<and> ring_ok v' \<and> vt100_head v' = (vt100_head v + length bs) mod (LINES * COLS)
     \<and> (length (ring_since v i) + length bs < LINES * COLS \<longrightarrow> ring_since v' i = ring_since v i @ bs)"
proof (induction bs arbitrary: v)
  case Nil
  then show ?case by (simp add: ring_ok_def)
next
  case (Cons b bs)
  obtain v1 where v1: "vt100_putbuf b v = Some v1" "ring_ok v1" "vt100_head v1 = (vt100_head v + 1) mod (LINES * COLS)"
     "length (ring_since v i) + 1 < LINES * COLS \<longrightarrow> ring_since v1 i = ring_since v i @ [b]"
    using putbuf_ring [OF Cons.prems, of b] by blast
  from Cons.IH [OF v1(2) Cons.prems(2)] v1 show ?case by (auto simp: mod_simps)
qed

lemma vt_update_since:
  assumes "ring_ok v" and "acked c < LINES * COLS"
  shows "vt_update v c = (if ring_since v (acked c) = [] then None else Some (ring_since v (acked c)))"
proof -
  have u: "n < 256 \<Longrightarrow> u8_len n = n" for n by (simp add: u8_len_def)
  have "LINES * COLS < 256" by (simp add: screen_size)
  then show ?thesis using assms by (auto simp: vt_update_def ring_since_def ring_ok_def u)
qed

subsection \<open>Properties\<close>

definition uip_quiet :: uip_event where
  "uip_quiet = \<lparr>uip_connected = False, uip_acked = False, uip_newdata = False, uip_rexmit = False,
     uip_poll = False, uip_appdata = []\<rparr>"

text \<open>
  C14: a telnet client gets every update once.  Its connection has acknowledged everything up
  to the head of the ring; then the text layer makes any calls whose escape sequences and
  characters are fewer than the ring has bytes.  The next poll sends exactly those bytes in their
  order, also when the head wrapped around; a retransmission sends the same; and when they are
  acknowledged, nothing of them is sent again.\<close>

theorem vt100_update_exact:
  assumes "ring_ok v" and "acked c = vt100_head v" and "\<not> send_all c" and "7 \<le> length ram"
    and "length (concat (map (cmd_bytes ram) cs)) < LINES * COLS"
  shows "\<exists>v'. vt100_cmds ram cs v = Some v'
    \<and> (let bs = concat (map (cmd_bytes ram) cs); c' = c\<lparr>sent := vt100_head v'\<rparr>;
           out = (if bs = [] then None else Some bs)
       in tty_vt100_main (uip_quiet\<lparr>uip_poll := True\<rparr>) t v' c q = Some (out, c', q)
        \<and> tty_vt100_main (uip_quiet\<lparr>uip_rexmit := True\<rparr>) t v' c' q = Some (out, c', q)
        \<and> tty_vt100_main (uip_quiet\<lparr>uip_acked := True\<rparr>) t v' c' q
            = Some (None, c'\<lparr>acked := vt100_head v'\<rparr>, q))"
proof -
  let ?bs = "concat (map (cmd_bytes ram) cs)"
  have a: "acked c < LINES * COLS" using assms(1,2) by (simp add: ring_ok_def)
  have e: "ring_since v (acked c) = []" by (simp add: ring_since_def assms(2))
  obtain v' where v': "put_all ?bs v = Some v'" "ring_ok v'" "ring_since v' (acked c) = ?bs"
    using put_all_ring [OF assms(1) a, of ?bs] e assms(5) by auto
  have u: "vt_update v' c = (if ?bs = [] then None else Some ?bs)" using vt_update_since [OF v'(2) a] v'(3) by simp
  have x: "vt_update v' (c\<lparr>sent := x\<rparr>) = vt_update v' c" for x by (simp add: vt_update_def)
  have n: "acked d = vt100_head v' \<Longrightarrow> vt_update v' d = None" for d by (simp add: vt_update_def)
  have c: "c\<lparr>send_all := False, acked := x, sent := y\<rparr> = c\<lparr>acked := x, sent := y\<rparr>"
      "c\<lparr>sent := y, send_all := False, acked := x\<rparr> = c\<lparr>acked := x, sent := y\<rparr>" for x y
    using assms(3) by (cases c; simp)+
  show ?thesis using vt100_cmds_bytes [OF assms(4), of cs v] v'(1) u x n assms(3) c
    by (simp add: tty_vt100_main_def uip_quiet_def Let_def)
qed

theorem vt100_update_exact_witness:
  "\<exists>v'. vt100_cmds [1, 2, 3, 4, 5, 6, 7] [LL_goto 1 11, LL_put 1 11 65] \<lparr>vt100_buf = replicate 64 0, vt100_head = 60\<rparr> = Some v'
    \<and> vt100_head v' = 4
    \<and> tty_vt100_main (uip_quiet\<lparr>uip_poll := True\<rparr>) demo_tty v' \<lparr>send_all = False, acked = 60, sent = 60\<rparr> (replicate 8 0)
        = Some (Some [27, 91, 50, 59, 49, 50, 72, 65], \<lparr>send_all = False, acked = 60, sent = 4\<rparr>, replicate 8 0)"
proof -
  let ?v = "\<lparr>vt100_buf = replicate 64 0, vt100_head = 60\<rparr>" and ?c = "\<lparr>send_all = False, acked = 60, sent = 60\<rparr>"
  let ?ram = "[1, 2, 3, 4, 5, 6, 7 :: u8]" and ?cs = "[LL_goto 1 11, LL_put 1 11 65]"
  have b: "concat (map (cmd_bytes ?ram) ?cs) = [27, 91, 50, 59, 49, 50, 72, 65]" by (simp add: dec3_def)
  have r: "ring_ok ?v" by (simp add: ring_ok_def screen_size)
  have l: "length (concat (map (cmd_bytes ?ram) ?cs)) < LINES * COLS" unfolding b by (simp add: screen_size)
  obtain v' where v': "vt100_cmds ?ram ?cs ?v = Some v'"
     "tty_vt100_main (uip_quiet\<lparr>uip_poll := True\<rparr>) demo_tty v' ?c (replicate 8 0)
        = Some (Some [27, 91, 50, 59, 49, 50, 72, 65], ?c\<lparr>sent := vt100_head v'\<rparr>, replicate 8 0)"
    using vt100_update_exact [OF r _ _ _ l, of ?c demo_tty "replicate 8 0"] unfolding b Let_def by auto
  have "put_all [27, 91, 50, 59, 49, 50, 72, 65] ?v = Some v'"
    using vt100_cmds_bytes [of ?ram ?cs ?v] v'(1) unfolding b by simp
  then have "vt100_head v' = 4"
    using put_all_ring [OF r, of 0 "[27, 91, 50, 59, 49, 50, 72, 65]"] by (auto simp: screen_size)
  then show ?thesis using v' by simp
qed

text \<open>
  When the calls between two polls have exactly as many bytes as the ring, its head is where it
  was: the server takes the ring for empty and the client never gets them.
\<close>

lemma vt100_overrun_lost:
  assumes "ring_ok v" and "acked c = vt100_head v" and "\<not> send_all c" and "7 \<le> length ram"
    and "length (concat (map (cmd_bytes ram) cs)) = LINES * COLS"
  shows "\<exists>v'. vt100_cmds ram cs v = Some v'
    \<and> tty_vt100_main (uip_quiet\<lparr>uip_poll := True\<rparr>) t v' c q = Some (None, c\<lparr>sent := vt100_head v'\<rparr>, q)"
proof -
  obtain v' where "put_all (concat (map (cmd_bytes ram) cs)) v = Some v'" "vt100_head v' = vt100_head v"
    using put_all_ring [OF assms(1), of 0 "concat (map (cmd_bytes ram) cs)"] assms(1,5)
    by (auto simp: ring_ok_def screen_size)
  then show ?thesis using vt100_cmds_bytes [OF assms(4), of cs v] assms(2,3)
    by (simp add: tty_vt100_main_def uip_quiet_def vt_update_def Let_def)
qed

end
