(* ===== verification/E6_Buttons.thy ===== *)
theory E6_Buttons
  imports E6_Prelude
begin

text \<open>
  The push buttons of \<^verbatim>\<open>hardware/input/buttons/buttons.c\<close>: a periodic function samples the pins,
  debounces them and reports presses, long presses, repeats and releases to the functions
  registered in a hook (\<^verbatim>\<open>hook.def\<close>).  The input registers are the argument \<open>ports\<close>; the functions
  in the hook are addresses, and the result lists which are called and with what.
\<close>

subsection \<open>Hooks\<close>

text \<open>The macros of \<^verbatim>\<open>hook.def\<close> for a hook with \<open>length (hook_callbacks h)\<close> places.\<close>

record hook =
  hook_counter :: u8
  hook_callbacks :: "addr list"

fun hook_place :: "addr \<Rightarrow> addr list \<Rightarrow> nat option" where
  "hook_place cb [] = None"
| "hook_place cb (c # cs) = (if c = cb then Some 0 else map_option Suc (hook_place cb cs))"

definition hook_unregister :: "addr \<Rightarrow> hook \<Rightarrow> u8 \<times> hook" where
  "hook_unregister callback h =
     (case hook_place callback (hook_callbacks h) of
        Some i \<Rightarrow> (1, \<lparr>hook_counter = hook_counter h - 1, hook_callbacks = (hook_callbacks h)[i := NULL]\<rparr>)
      | None \<Rightarrow> (0, h))"

definition hook_register :: "addr \<Rightarrow> hook \<Rightarrow> u8 \<times> hook" where
  "hook_register callback h =
     (if length (hook_callbacks h) \<le> unat (hook_counter h) then (0, h)
      else let h = snd (hook_unregister callback h) in
        (case hook_place NULL (hook_callbacks h) of
           Some i \<Rightarrow> (1, \<lparr>hook_counter = hook_counter h + 1, hook_callbacks = (hook_callbacks h)[i := callback]\<rparr>)
         | None \<Rightarrow> (0, h)))"

definition hook_call :: "hook \<Rightarrow> 'a \<Rightarrow> (addr \<times> 'a) list" where
  "hook_call h args = map (\<lambda>cb. (cb, args)) (filter (\<lambda>cb. cb \<noteq> NULL) (hook_callbacks h))"

subsection \<open>Buttons\<close>

abbreviation (input) BUTTON_RELEASE :: u8 where "BUTTON_RELEASE \<equiv> 0"
abbreviation (input) BUTTON_PRESS :: u8 where "BUTTON_PRESS \<equiv> 1"
abbreviation (input) BUTTON_LONGPRESS :: u8 where "BUTTON_LONGPRESS \<equiv> 2"
abbreviation (input) BUTTON_REPEAT :: u8 where "BUTTON_REPEAT \<equiv> 3"

record buttons_conf =
  active_low :: bool
  DEBOUNCE_DELAY :: nat
  LONGPRESS_DELAY :: nat
  USE_REPEAT :: bool
  REPEAT_DELAY :: nat
  REPEAT_RATE :: nat

record buttons_configType =
  portIn :: addr
  pin :: nat

record buttons_statusType =
  b_status :: u8
  curStatus :: bool
  ctr :: u8

definition cur_state :: "buttons_conf \<Rightarrow> (addr \<Rightarrow> u8) \<Rightarrow> buttons_configType \<Rightarrow> bool" where
  "cur_state conf ports c =
     (let high = (ports (portIn c) AND push_bit (pin c) 1 = push_bit (pin c) 1)
      in if active_low conf then \<not> high else high)"

text \<open>The body of the loop for one button: its new status and the event it reports.\<close>

definition button_count :: "bool \<Rightarrow> buttons_statusType \<Rightarrow> buttons_statusType" where
  "button_count curState b =
     (if curStatus b = curState then
        if of_bool (curStatus b) \<noteq> b_status b \<or> BUTTON_RELEASE \<noteq> b_status b
        then b\<lparr>ctr := ctr b + 1\<rparr> else b
      else b\<lparr>ctr := 0, curStatus := curState\<rparr>)"

definition button_step :: "buttons_conf \<Rightarrow> bool \<Rightarrow> buttons_statusType \<Rightarrow> buttons_statusType \<times> u8 option" where
  "button_step conf curState b =
     (let b = button_count curState b in
      if DEBOUNCE_DELAY conf \<le> unat (ctr b) then
        if curStatus b then
          if b_status b = BUTTON_RELEASE then (b\<lparr>b_status := BUTTON_PRESS\<rparr>, Some BUTTON_PRESS)
          else if b_status b = BUTTON_PRESS then
            if LONGPRESS_DELAY conf \<le> unat (ctr b)
            then (b\<lparr>b_status := BUTTON_LONGPRESS\<rparr>, Some BUTTON_LONGPRESS) else (b, None)
          else if \<not> USE_REPEAT conf then (b, None)
          else if b_status b = BUTTON_LONGPRESS then
            if REPEAT_DELAY conf \<le> unat (ctr b)
            then (b\<lparr>b_status := BUTTON_REPEAT\<rparr>, Some BUTTON_REPEAT) else (b, None)
          else if b_status b = BUTTON_REPEAT then
            if REPEAT_DELAY conf + REPEAT_RATE conf \<le> unat (ctr b)
            then (b\<lparr>b_status := BUTTON_REPEAT, ctr := of_nat (REPEAT_DELAY conf)\<rparr>, Some BUTTON_REPEAT)
            else (b, None)
          else (b, None)
        else (b\<lparr>b_status := BUTTON_RELEASE, ctr := 0\<rparr>, Some BUTTON_RELEASE)
      else (b, None))"

text \<open>\<open>i\<close> is the number of the first button of the list.\<close>

fun buttons_loop ::
    "buttons_conf \<Rightarrow> hook \<Rightarrow> (addr \<Rightarrow> u8) \<Rightarrow> nat \<Rightarrow> buttons_configType list \<Rightarrow> buttons_statusType list
       \<Rightarrow> buttons_statusType list \<times> (addr \<times> nat \<times> u8) list" where
  "buttons_loop conf h ports i (c # cs) (b # bs) =
     (let (b, e) = button_step conf (cur_state conf ports c) b;
          (bs, calls) = buttons_loop conf h ports (i + 1) cs bs
      in (b # bs, (case e of Some s \<Rightarrow> hook_call h (i, s) | None \<Rightarrow> []) @ calls))"
| "buttons_loop conf h ports i _ bs = (bs, [])"

definition buttons_periodic ::
    "buttons_conf \<Rightarrow> hook \<Rightarrow> buttons_configType list \<Rightarrow> (addr \<Rightarrow> u8) \<Rightarrow> buttons_statusType list
       \<Rightarrow> buttons_statusType list \<times> (addr \<times> nat \<times> u8) list" where
  "buttons_periodic conf h buttonConfig ports buttonStatus = buttons_loop conf h ports 0 buttonConfig buttonStatus"

text \<open>A run of the periodic function over a sequence of port values, with all calls it makes.\<close>

fun buttons_run ::
    "buttons_conf \<Rightarrow> hook \<Rightarrow> buttons_configType list \<Rightarrow> (addr \<Rightarrow> u8) list \<Rightarrow> buttons_statusType list
       \<Rightarrow> buttons_statusType list \<times> (addr \<times> nat \<times> u8) list list" where
  "buttons_run conf h cs [] bs = (bs, [])"
| "buttons_run conf h cs (p # ps) bs =
     (let (bs, calls) = buttons_periodic conf h cs p bs;
          (bs, rest) = buttons_run conf h cs ps bs
      in (bs, calls # rest))"

text \<open>The same for one button and its readings.\<close>

fun button_run :: "buttons_conf \<Rightarrow> bool list \<Rightarrow> buttons_statusType \<Rightarrow> buttons_statusType \<times> u8 option list" where
  "button_run conf [] b = (b, [])"
| "button_run conf (r # rs) b =
     (let (b, e) = button_step conf r b; (b, es) = button_run conf rs b in (b, e # es))"

definition button_idle :: buttons_statusType where
  "button_idle = \<lparr>b_status = BUTTON_RELEASE, curStatus = False, ctr = 0\<rparr>"

subsection \<open>Hooks keep a set of functions\<close>

definition hook_ok :: "hook \<Rightarrow> bool" where
  "hook_ok h \<longleftrightarrow> length (hook_callbacks h) < 256
     \<and> unat (hook_counter h) = length (filter (\<lambda>cb. cb \<noteq> NULL) (hook_callbacks h))
     \<and> distinct (filter (\<lambda>cb. cb \<noteq> NULL) (hook_callbacks h))"

lemma hook_place_Some:
  "hook_place cb cs = Some i \<Longrightarrow> \<exists>xs ys. cs = xs @ cb # ys \<and> length xs = i \<and> cb \<notin> set xs"
proof (induction cs arbitrary: i)
  case (Cons c cs)
  show ?case
  proof (cases "c = cb")
    case True
    then show ?thesis using Cons.prems by (intro exI [of _ "[]"] exI [of _ cs]) auto
  next
    case False
    then obtain k where "hook_place cb cs = Some k" "i = Suc k" using Cons.prems by auto
    then obtain xs ys where "cs = xs @ cb # ys" "length xs = k" "cb \<notin> set xs" using Cons.IH by blast
    then show ?thesis using False \<open>i = Suc k\<close> by (intro exI [of _ "c # xs"] exI [of _ ys]) auto
  qed
qed simp

lemma hook_place_None: "hook_place cb cs = None \<longleftrightarrow> cb \<notin> set cs"
  by (induction cs) auto

lemma hook_unregister_ok [e6_inv]:
  assumes "hook_ok h" and "cb \<noteq> NULL"
  shows "hook_ok (snd (hook_unregister cb h))"
    and "set (hook_callbacks (snd (hook_unregister cb h))) - {NULL} = set (hook_callbacks h) - {NULL, cb}"
    and "length (hook_callbacks (snd (hook_unregister cb h))) = length (hook_callbacks h)"
    and "length (filter (\<lambda>cb. cb \<noteq> NULL) (hook_callbacks (snd (hook_unregister cb h))))
      \<le> length (filter (\<lambda>cb. cb \<noteq> NULL) (hook_callbacks h))"
proof -
  have "hook_ok (snd (hook_unregister cb h))
    \<and> set (hook_callbacks (snd (hook_unregister cb h))) - {NULL} = set (hook_callbacks h) - {NULL, cb}
    \<and> length (hook_callbacks (snd (hook_unregister cb h))) = length (hook_callbacks h)
    \<and> length (filter (\<lambda>cb. cb \<noteq> NULL) (hook_callbacks (snd (hook_unregister cb h))))
      \<le> length (filter (\<lambda>cb. cb \<noteq> NULL) (hook_callbacks h))"
  proof (cases "hook_place cb (hook_callbacks h)")
    case None
    then have "cb \<notin> set (hook_callbacks h)" by (simp add: hook_place_None)
    then show ?thesis using assms by (auto simp: hook_unregister_def None)
  next
    case (Some i)
    obtain xs ys where s: "hook_callbacks h = xs @ cb # ys" "length xs = i" "cb \<notin> set xs"
      using hook_place_Some [OF Some] by blast
    have n: "unat (hook_counter h) = Suc (length (filter (\<lambda>cb. cb \<noteq> NULL) (xs @ ys)))"
      using assms s by (simp add: hook_ok_def)
    then have "unat (hook_counter h - 1) = length (filter (\<lambda>cb. cb \<noteq> NULL) (xs @ ys))"
      using unat_minus_one [of "hook_counter h"] by (cases "hook_counter h = 0") auto
    moreover have "snd (hook_unregister cb h) = \<lparr>hook_counter = hook_counter h - 1, hook_callbacks = xs @ NULL # ys\<rparr>"
      using s Some by (simp add: hook_unregister_def list_update_append)
    moreover have "length (xs @ cb # ys) < 256" "distinct (filter (\<lambda>cb. cb \<noteq> NULL) (xs @ ys))" "cb \<notin> set ys"
      using assms s by (auto simp: hook_ok_def)
    ultimately show ?thesis using s by (auto simp: hook_ok_def)
  qed
  then show "hook_ok (snd (hook_unregister cb h))"
    and "set (hook_callbacks (snd (hook_unregister cb h))) - {NULL} = set (hook_callbacks h) - {NULL, cb}"
    and "length (hook_callbacks (snd (hook_unregister cb h))) = length (hook_callbacks h)"
    and "length (filter (\<lambda>cb. cb \<noteq> NULL) (hook_callbacks (snd (hook_unregister cb h))))
      \<le> length (filter (\<lambda>cb. cb \<noteq> NULL) (hook_callbacks h))" by simp_all
qed

lemma hook_register_ok [e6_inv]:
  assumes "hook_ok h" and "cb \<noteq> NULL"
  shows "hook_ok (snd (hook_register cb h)) \<and>
    (if length (filter (\<lambda>cb. cb \<noteq> NULL) (hook_callbacks h)) < length (hook_callbacks h)
     then fst (hook_register cb h) = 1 \<and> set (hook_callbacks (snd (hook_register cb h))) - {NULL} = insert cb (set (hook_callbacks h) - {NULL})
     else hook_register cb h = (0, h))"
proof (cases "length (filter (\<lambda>cb. cb \<noteq> NULL) (hook_callbacks h)) < length (hook_callbacks h)")
  case True
  define g where "g = snd (hook_unregister cb h)"
  have g: "hook_ok g" "set (hook_callbacks g) - {NULL} = set (hook_callbacks h) - {NULL, cb}" "length (hook_callbacks g) = length (hook_callbacks h)"
      "length (filter (\<lambda>cb. cb \<noteq> NULL) (hook_callbacks g)) < length (hook_callbacks g)"
    using hook_unregister_ok [OF assms] True by (simp_all add: g_def)
  have "NULL \<in> set (hook_callbacks g)"
  proof (rule ccontr)
    assume "NULL \<notin> set (hook_callbacks g)"
    then have "filter (\<lambda>cb. cb \<noteq> NULL) (hook_callbacks g) = hook_callbacks g" by (auto simp: filter_id_conv intro: gr0I)
    then show False using g(4) by simp
  qed
  then obtain i where i: "hook_place NULL (hook_callbacks g) = Some i" by (metis hook_place_None not_None_eq)
  obtain xs ys where s: "hook_callbacks g = xs @ NULL # ys" "length xs = i" using hook_place_Some [OF i] by blast
  have n: "unat (hook_counter g) = length (filter (\<lambda>cb. cb \<noteq> NULL) (xs @ ys))" "length (hook_callbacks g) < 256"
    using g(1) s by (simp_all add: hook_ok_def)
  have "length (filter (\<lambda>cb. cb \<noteq> NULL) (xs @ ys)) \<le> length (xs @ ys)" by (rule length_filter_le)
  then have "unat (hook_counter g + 1) = Suc (length (filter (\<lambda>cb. cb \<noteq> NULL) (xs @ ys)))"
    using n s by (simp add: unat_word_ariths)
  moreover have c: "cb \<notin> set xs" "cb \<notin> set ys" using g(2) s assms(2) by auto
  moreover have "\<not> length (hook_callbacks h) \<le> unat (hook_counter h)" using assms(1) True by (simp add: hook_ok_def)
  then have r: "hook_register cb h = (1, \<lparr>hook_counter = hook_counter g + 1, hook_callbacks = xs @ cb # ys\<rparr>)"
    using s i unfolding hook_register_def g_def [symmetric] by (simp add: Let_def list_update_append)
  moreover have "distinct (filter (\<lambda>cb. cb \<noteq> NULL) (xs @ ys))" "length (xs @ cb # ys) < 256" using g(1) s by (simp_all add: hook_ok_def)
  ultimately have "hook_ok (snd (hook_register cb h))" using assms(2) by (simp add: hook_ok_def)
  moreover have "set (xs @ cb # ys) - {NULL} = insert cb (set (hook_callbacks g) - {NULL})" using s assms(2) by auto
  then have "set (xs @ cb # ys) - {NULL} = insert cb (set (hook_callbacks h) - {NULL})" using g(2) by auto
  ultimately show ?thesis using True r by simp
next
  case False
  then show ?thesis using assms by (simp add: hook_register_def hook_ok_def)
qed

text \<open>Registering a null pointer makes the counter of an empty hook wrap, after which nothing can be registered.\<close>

lemma hook_register_null:
  "snd (hook_unregister NULL \<lparr>hook_counter = 0, hook_callbacks = replicate 3 NULL\<rparr>) = \<lparr>hook_counter = 255, hook_callbacks = replicate 3 NULL\<rparr>"
  "fst (hook_register cb \<lparr>hook_counter = 255, hook_callbacks = replicate 3 NULL\<rparr>) = 0"
  by (simp_all add: hook_unregister_def hook_register_def numeral_3_eq_3)

subsection \<open>Every button on its own\<close>

lemma buttons_loop_later: "c \<in> set (snd (buttons_loop conf h ports n ds es)) \<Longrightarrow> n \<le> fst (snd c)"
proof (induction conf h ports n ds es rule: buttons_loop.induct)
  case (1 conf h ports i c cs b bs)
  then show ?case by (auto simp: hook_call_def Let_def split: prod.splits option.splits) force+
qed auto

lemma buttons_loop_nth:
  assumes "length bs = length cs" and "j < length cs"
  shows "fst (buttons_loop conf h ports i cs bs) ! j = fst (button_step conf (cur_state conf ports (cs ! j)) (bs ! j))
    \<and> filter (\<lambda>c. fst (snd c) = i + j) (snd (buttons_loop conf h ports i cs bs))
        = (case snd (button_step conf (cur_state conf ports (cs ! j)) (bs ! j)) of Some s \<Rightarrow> hook_call h (i + j, s) | None \<Rightarrow> [])"
  using assms
proof (induction cs arbitrary: bs i j)
  case (Cons c cs)
  then obtain b bs' where bs: "bs = b # bs'" "length bs' = length cs" by (cases bs) auto
  let ?call = "\<lambda>k e. case e of Some s \<Rightarrow> hook_call h (k, s) | None \<Rightarrow> []"
  have unfold: "snd (buttons_loop conf h ports i (c # cs) bs) =
      ?call i (snd (button_step conf (cur_state conf ports c) b)) @ snd (buttons_loop conf h ports (i + 1) cs bs')"
    "fst (buttons_loop conf h ports i (c # cs) bs) =
      fst (button_step conf (cur_state conf ports c) b) # fst (buttons_loop conf h ports (i + 1) cs bs')"
    by (simp_all add: bs Let_def split: prod.split)
  have own: "filter (\<lambda>c. fst (snd c) = k) (?call i e) = (if k = i then ?call i e else [])" for k e
    by (auto simp: hook_call_def filter_empty_conv split: option.splits)
  show ?case
  proof (cases j)
    case 0
    have "filter (\<lambda>c. fst (snd c) = i) (snd (buttons_loop conf h ports (i + 1) cs bs')) = []"
      using buttons_loop_later [of _ conf h ports "i + 1" cs bs'] by (fastforce simp: filter_empty_conv)
    then show ?thesis unfolding unfold 0 add_0_right by (simp add: own bs(1))
  next
    case (Suc m)
    then have "i + j = i + 1 + m" by simp
    then show ?thesis using Suc Cons.IH [OF bs(2), of m "i + 1"] Cons.prems(2) unfolding unfold
      by (simp only: own bs(1) filter_append nth_Cons_Suc) simp
  qed
qed simp

lemma buttons_loop_length: "length bs = length cs \<Longrightarrow> length (fst (buttons_loop conf h ports i cs bs)) = length cs"
  by (induction conf h ports i cs bs rule: buttons_loop.induct) (auto simp: Let_def split: prod.splits)

lemma buttons_run_button:
  assumes "length bs = length cs" and "j < length cs"
  shows "fst (buttons_run conf h cs ps bs) ! j = fst (button_run conf (map (\<lambda>p. cur_state conf p (cs ! j)) ps) (bs ! j))
    \<and> map (filter (\<lambda>c. fst (snd c) = j)) (snd (buttons_run conf h cs ps bs))
        = map (\<lambda>e. case e of Some s \<Rightarrow> hook_call h (j, s) | None \<Rightarrow> [])
            (snd (button_run conf (map (\<lambda>p. cur_state conf p (cs ! j)) ps) (bs ! j)))"
  using assms
proof (induction ps arbitrary: bs)
  case (Cons p ps)
  have l: "length (fst (buttons_loop conf h p 0 cs bs)) = length cs" using Cons.prems buttons_loop_length by blast
  show ?case
    using Cons.IH [OF l Cons.prems(2)] buttons_loop_nth [OF Cons.prems, of conf h p 0, unfolded add_0]
    by (auto simp: buttons_periodic_def Let_def split: prod.splits)
qed simp

subsection \<open>The protocol of a button\<close>

text \<open>
  The events that may follow the status \<open>s\<close>: a press, then possibly a long press, then repeats,
  and a release only of a pressed button.
\<close>

definition event_allowed :: "u8 \<Rightarrow> u8 \<Rightarrow> bool" where
  "event_allowed s e \<longleftrightarrow>
     (if s = BUTTON_RELEASE then e = BUTTON_PRESS
      else e = BUTTON_RELEASE
        \<or> s = BUTTON_PRESS \<and> e = BUTTON_LONGPRESS
        \<or> (s = BUTTON_LONGPRESS \<or> s = BUTTON_REPEAT) \<and> e = BUTTON_REPEAT)"

fun events_allowed :: "u8 \<Rightarrow> u8 list \<Rightarrow> bool" where
  "events_allowed s [] \<longleftrightarrow> True"
| "events_allowed s (e # es) \<longleftrightarrow> event_allowed s e \<and> events_allowed e es"

definition somes :: "'a option list \<Rightarrow> 'a list" where
  "somes es = map the (filter (\<lambda>e. e \<noteq> None) es)"

lemma somes_simps [simp]: "somes [] = []" "somes (None # es) = somes es" "somes (Some e # es) = e # somes es"
  by (simp_all add: somes_def)

text \<open>A released button whose pin is idle has no time counted.\<close>

definition button_ok :: "buttons_statusType \<Rightarrow> bool" where
  "button_ok b \<longleftrightarrow> b_status b \<le> 3 \<and> (b_status b = BUTTON_RELEASE \<longrightarrow> \<not> curStatus b \<longrightarrow> ctr b = 0)"

lemma u8_le_3: "(s :: u8) \<le> 3 \<longleftrightarrow> s = 0 \<or> s = 1 \<or> s = 2 \<or> s = 3"
  by (auto simp: word_le_nat_alt word_unat_eq_iff)

lemma button_step_ok:
  assumes "button_ok b" and "0 < DEBOUNCE_DELAY conf" and "button_step conf r b = (b', e)"
  shows "button_ok b' \<and> (case e of None \<Rightarrow> b_status b' = b_status b | Some s \<Rightarrow> b_status b' = s \<and> event_allowed (b_status b) s)"
  using assms
  by (auto simp: button_step_def button_count_def button_ok_def event_allowed_def Let_def u8_le_3 split: if_splits)

lemma button_run_allowed:
  "button_ok b \<Longrightarrow> 0 < DEBOUNCE_DELAY conf \<Longrightarrow> events_allowed (b_status b) (somes (snd (button_run conf rs b)))"
proof (induction rs arbitrary: b)
  case (Cons r rs)
  obtain b1 e where s: "button_step conf r b = (b1, e)" by fastforce
  have "button_ok b1" "case e of None \<Rightarrow> b_status b1 = b_status b | Some s \<Rightarrow> b_status b1 = s \<and> event_allowed (b_status b) s"
    using button_step_ok [OF Cons.prems s] by auto
  then show ?case using Cons.IH [of b1] Cons.prems(2) s
    by (cases e) (auto simp: Let_def split: prod.splits)
qed simp

subsection \<open>How long a button is held\<close>

text \<open>The event of the \<open>k\<close>-th consecutive reading of a pressed pin.\<close>

definition hold_event :: "buttons_conf \<Rightarrow> nat \<Rightarrow> u8 option" where
  "hold_event conf k =
     (if k = DEBOUNCE_DELAY conf + 1 then Some BUTTON_PRESS
      else if k = LONGPRESS_DELAY conf + 1 then Some BUTTON_LONGPRESS
      else if USE_REPEAT conf \<and> REPEAT_DELAY conf < k \<and> (k - (REPEAT_DELAY conf + 1)) mod REPEAT_RATE conf = 0
      then Some BUTTON_REPEAT else None)"

definition conf_ok :: "buttons_conf \<Rightarrow> bool" where
  "conf_ok conf \<longleftrightarrow> 0 < DEBOUNCE_DELAY conf \<and> DEBOUNCE_DELAY conf < LONGPRESS_DELAY conf \<and> LONGPRESS_DELAY conf < 256
     \<and> (USE_REPEAT conf \<longrightarrow> LONGPRESS_DELAY conf < REPEAT_DELAY conf \<and> 0 < REPEAT_RATE conf
          \<and> REPEAT_DELAY conf + REPEAT_RATE conf < 256)"

text \<open>The status after \<open>k\<close> readings of a pressed pin.\<close>

definition held :: "buttons_conf \<Rightarrow> nat \<Rightarrow> buttons_statusType" where
  "held conf k =
     (if k = 0 then button_idle
      else \<lparr>b_status =
              (if k \<le> DEBOUNCE_DELAY conf then BUTTON_RELEASE
               else if k \<le> LONGPRESS_DELAY conf then BUTTON_PRESS
               else if USE_REPEAT conf \<and> REPEAT_DELAY conf < k then BUTTON_REPEAT else BUTTON_LONGPRESS),
            curStatus = True,
            ctr = of_nat (if USE_REPEAT conf \<and> REPEAT_DELAY conf < k
                          then REPEAT_DELAY conf + (k - (REPEAT_DELAY conf + 1)) mod REPEAT_RATE conf else k - 1)\<rparr>)"

lemma u8_of_nat_256: "n < 256 \<Longrightarrow> unat (of_nat n :: u8) = n"
  by (simp add: unat_of_nat)

lemma mod_Suc_cases: "0 < r \<Longrightarrow> Suc n mod r = (if Suc (n mod r) = r then 0 else Suc (n mod (r :: nat)))"
  by (simp add: mod_Suc)

lemma hold_step_repeat:
  assumes "conf_ok conf" and "USE_REPEAT conf" and "REPEAT_DELAY conf < k"
  shows "button_step conf True (held conf k) = (held conf (Suc k), hold_event conf (Suc k))"
proof -
  define j where "j = k - (REPEAT_DELAY conf + 1)"
  have k: "k = REPEAT_DELAY conf + 1 + j" using assms(3) by (simp add: j_def)
  have c: "DEBOUNCE_DELAY conf < LONGPRESS_DELAY conf" "LONGPRESS_DELAY conf < REPEAT_DELAY conf" "0 < REPEAT_RATE conf"
      "REPEAT_DELAY conf + REPEAT_RATE conf < 256" using assms(1,2) by (auto simp: conf_ok_def)
  have m: "j mod REPEAT_RATE conf < REPEAT_RATE conf" using c(3) by simp
  have u: "unat (of_nat (REPEAT_DELAY conf + j mod REPEAT_RATE conf) + 1 :: u8) = REPEAT_DELAY conf + Suc (j mod REPEAT_RATE conf)"
    using u8_of_nat_256 [of "REPEAT_DELAY conf + Suc (j mod REPEAT_RATE conf)"] m c(4) by (simp add: ac_simps)
  have a: "(of_nat (Suc (REPEAT_DELAY conf + j mod REPEAT_RATE conf)) :: u8) = of_nat (REPEAT_DELAY conf + j mod REPEAT_RATE conf) + 1"
    by (simp add: ac_simps)
  show ?thesis
    using assms(2) c u m mod_Suc_cases [OF c(3), of j]
    by (auto simp: button_step_def button_count_def held_def hold_event_def k Let_def a
        simp del: of_nat_add of_nat_Suc)
qed

lemma hold_step:
  assumes "conf_ok conf"
  shows "button_step conf True (held conf k) = (held conf (Suc k), hold_event conf (Suc k))"
proof (cases "USE_REPEAT conf \<and> REPEAT_DELAY conf < k")
  case True
  then show ?thesis using hold_step_repeat [OF assms] by simp
next
  case first: False
  have c: "0 < DEBOUNCE_DELAY conf" "DEBOUNCE_DELAY conf < LONGPRESS_DELAY conf" "LONGPRESS_DELAY conf < 256"
      "USE_REPEAT conf \<Longrightarrow> LONGPRESS_DELAY conf < REPEAT_DELAY conf \<and> REPEAT_DELAY conf < 256"
    using assms by (auto simp: conf_ok_def)
  show ?thesis
  proof (cases k)
    case 0
    then show ?thesis using c by (auto simp: button_step_def button_count_def held_def hold_event_def button_idle_def Let_def)
  next
    case (Suc n)
    have a: "(of_nat n + 1 :: u8) = of_nat k" by (simp add: Suc add.commute)
    have u: "unat (of_nat k :: u8) = k" if "k < 256" using that by (simp add: u8_of_nat_256)
    show ?thesis
    proof (cases "k \<le> LONGPRESS_DELAY conf")
      case True
      then show ?thesis using Suc first c u a
        by (auto simp: button_step_def button_count_def held_def hold_event_def Let_def simp del: of_nat_Suc)
    next
      case False
      show ?thesis
      proof (cases "USE_REPEAT conf")
        case True
        then show ?thesis using Suc first False c u a
          by (auto simp: button_step_def button_count_def held_def hold_event_def Let_def simp del: of_nat_Suc)
      next
        case no: False
        then show ?thesis using Suc first False c a
          by (auto simp: button_step_def button_count_def held_def hold_event_def Let_def simp del: of_nat_Suc)
      qed
    qed
  qed
qed

lemma button_run_append:
  "button_run conf (rs @ rs') b =
     (case button_run conf rs b of (b, es) \<Rightarrow> case button_run conf rs' b of (b, es') \<Rightarrow> (b, es @ es'))"
  by (induction rs arbitrary: b) (auto simp: Let_def split: prod.splits)

lemma hold_run: "conf_ok conf \<Longrightarrow>
   button_run conf (replicate n True) (held conf k) = (held conf (k + n), map (hold_event conf) [Suc k..<Suc (k + n)])"
proof (induction n arbitrary: k)
  case (Suc n)
  have "[Suc k..<Suc (k + Suc n)] = Suc k # [Suc (Suc k)..<Suc (Suc k + n)]" by (simp add: upt_rec)
  then show ?case using hold_step [OF Suc.prems, of k] Suc.IH [OF Suc.prems, of "Suc k"]
    by (simp add: Let_def del: upt_Suc)
qed simp

text \<open>The release: the status \<open>b\<close> after \<open>k\<close> readings of an idle pin, as long as it is not accepted.\<close>

lemma release_step:
  assumes "b_status b \<noteq> BUTTON_RELEASE" and "k < DEBOUNCE_DELAY conf" and "DEBOUNCE_DELAY conf < 256"
  shows "button_step conf False (b\<lparr>curStatus := False, ctr := of_nat k\<rparr>) =
     (if Suc k = DEBOUNCE_DELAY conf then (button_idle, Some BUTTON_RELEASE)
      else (b\<lparr>curStatus := False, ctr := of_nat (Suc k)\<rparr>, None))"
proof -
  have "unat (1 + of_nat k :: u8) = Suc k" using u8_of_nat_256 [of "Suc k"] assms by (simp add: add.commute)
  then show ?thesis using assms
    by (auto simp: button_step_def button_count_def button_idle_def Let_def add.commute)
qed

lemma idle_step: "0 < DEBOUNCE_DELAY conf \<Longrightarrow> button_step conf False button_idle = (button_idle, None)"
  by (simp add: button_step_def button_count_def button_idle_def)

lemma idle_run: "0 < DEBOUNCE_DELAY conf \<Longrightarrow> button_run conf (replicate n False) button_idle = (button_idle, replicate n None)"
  by (induction n) (simp_all add: idle_step)

lemma release_run:
  assumes "b_status b \<noteq> BUTTON_RELEASE" and "DEBOUNCE_DELAY conf < 256"
  shows "k < DEBOUNCE_DELAY conf \<Longrightarrow>
   button_run conf (replicate n False) (b\<lparr>curStatus := False, ctr := of_nat k\<rparr>) =
     (if k + n < DEBOUNCE_DELAY conf then b\<lparr>curStatus := False, ctr := of_nat (k + n)\<rparr> else button_idle,
      map (\<lambda>j. if j = DEBOUNCE_DELAY conf then Some BUTTON_RELEASE else None) [Suc k..<Suc (k + n)])"
proof (induction n arbitrary: k)
  case (Suc n)
  have up: "[Suc k..<Suc (k + Suc n)] = Suc k # [Suc (Suc k)..<Suc (Suc k + n)]" by (simp add: upt_rec)
  show ?case
  proof (cases "Suc k = DEBOUNCE_DELAY conf")
    case True
    have "map (\<lambda>j. if j = DEBOUNCE_DELAY conf then Some BUTTON_RELEASE else None) [Suc (Suc k)..<Suc (Suc k + n)] = replicate n None"
      using True by (intro nth_equalityI) (auto simp del: upt_Suc)
    then show ?thesis using True release_step [OF assms(1) Suc.prems assms(2)] idle_run [of conf n] up
      by (simp add: Let_def del: upt_Suc)
  next
    case False
    then show ?thesis using release_step [OF assms(1) Suc.prems assms(2)] Suc.IH [of "Suc k"] Suc.prems up
      by (simp add: Let_def del: upt_Suc of_nat_Suc)
  qed
qed (simp add: )

lemma press_release_run:
  assumes "conf_ok conf"
  shows "button_run conf (replicate n True @ replicate m False) button_idle =
    (if m = 0 then held conf n
     else if n \<le> DEBOUNCE_DELAY conf \<or> DEBOUNCE_DELAY conf < m then button_idle
     else (held conf n)\<lparr>curStatus := False, ctr := of_nat (m - 1)\<rparr>,
     map (hold_event conf) [1..<Suc n]
       @ map (\<lambda>k. if DEBOUNCE_DELAY conf < n \<and> k = DEBOUNCE_DELAY conf + 1 then Some BUTTON_RELEASE else None) [1..<Suc m])"
proof (cases m)
  case 0
  then show ?thesis using hold_run [OF assms, of n 0] by (simp add: button_run_append held_def del: upt_Suc)
next
  case (Suc m')
  have c: "0 < DEBOUNCE_DELAY conf" "DEBOUNCE_DELAY conf < LONGPRESS_DELAY conf" "DEBOUNCE_DELAY conf < 256" using assms by (auto simp: conf_ok_def)
  have h: "button_run conf (replicate n True) button_idle = (held conf n, map (hold_event conf) [1..<Suc n])"
    using hold_run [OF assms, of n 0] by (simp add: held_def del: upt_Suc)
  have shift: "map f [1..<Suc (Suc m')] = f 1 # map (\<lambda>k. f (k + 1)) [1..<Suc m']" for f :: "nat \<Rightarrow> u8 option"
    by (intro nth_equalityI) (auto simp: nth_Cons' simp del: upt_Suc)
  show ?thesis
  proof (cases "n \<le> DEBOUNCE_DELAY conf")
    case True
    have "button_step conf False (held conf n) = (button_idle, None)"
      using True c by (auto simp: button_step_def button_count_def held_def button_idle_def Let_def)
    then show ?thesis using True h idle_run [OF c(1), of m'] Suc
      by (simp add: button_run_append Let_def map_replicate_const del: upt_Suc)
  next
    case False
    have nz: "b_status (held conf n) \<noteq> 0" "curStatus (held conf n)" using False c by (auto simp: held_def)
    then have "button_step conf False (held conf n) = ((held conf n)\<lparr>curStatus := False, ctr := of_nat 0\<rparr>, None)"
      using c by (auto simp: button_step_def button_count_def Let_def)
    then show ?thesis using False h release_run [OF nz(1) c(3), of 0 m'] c(1) Suc
      by (simp add: button_run_append Let_def shift [unfolded One_nat_def] del: upt_Suc)
  qed
qed

subsection \<open>Properties\<close>

text \<open>
  C21: a button that is held for \<open>n\<close> samples and then let go.  Every registered function is told
  about that button exactly this: nothing if it was held for no more samples than the debounce
  delay; otherwise the press at the sample after the delay, the long press and the repeats at the
  samples the configuration says, at its rate, and the release after the debounce delay;
  whatever the other buttons do meanwhile.\<close>

theorem buttons_press_release:
  assumes "conf_ok conf" and "j < length cs" and "length bs = length cs" and "bs ! j = button_idle"
    and "map (\<lambda>p. cur_state conf p (cs ! j)) ps = replicate n True @ replicate m False"
  shows "map (filter (\<lambda>c. fst (snd c) = j)) (snd (buttons_run conf h cs ps bs)) =
    map (\<lambda>e. case e of Some s \<Rightarrow> hook_call h (j, s) | None \<Rightarrow> [])
      (map (hold_event conf) [1..<Suc n]
        @ map (\<lambda>k. if DEBOUNCE_DELAY conf < n \<and> k = DEBOUNCE_DELAY conf + 1 then Some BUTTON_RELEASE else None) [1..<Suc m])"
  using buttons_run_button [OF assms(3,2), of conf h ps] press_release_run [OF assms(1), of n m]
  unfolding assms(4,5) by simp

definition demo_buttons :: buttons_conf where
  "demo_buttons = \<lparr>active_low = True, DEBOUNCE_DELAY = 1, LONGPRESS_DELAY = 3, USE_REPEAT = True, REPEAT_DELAY = 4, REPEAT_RATE = 2\<rparr>"

theorem buttons_press_release_witness:
  "map (filter (\<lambda>c. fst (snd c) = 0))
     (snd (buttons_run demo_buttons \<lparr>hook_counter = 1, hook_callbacks = [7, 0, 0]\<rparr> [\<lparr>portIn = 0, pin = 2\<rparr>]
        (replicate 7 (\<lambda>_. 0) @ replicate 3 (\<lambda>_. 0xff)) [button_idle]))
   = [[], [(7, 0, 1)], [], [(7, 0, 2)], [(7, 0, 3)], [], [(7, 0, 3)], [], [(7, 0, 0)], []]"
proof -
  have c: "conf_ok demo_buttons" by (simp add: conf_ok_def demo_buttons_def)
  have r: "map (\<lambda>p. cur_state demo_buttons p ([\<lparr>portIn = 0, pin = 2\<rparr>] ! 0)) (replicate 7 (\<lambda>_. 0) @ replicate 3 (\<lambda>_. 0xff))
      = replicate 7 True @ replicate 3 False"
    by (simp add: cur_state_def demo_buttons_def)
  have e: "map (hold_event demo_buttons) [1..<Suc 7] = [None, Some 1, None, Some 2, Some 3, None, Some 3]"
    by (simp add: hold_event_def demo_buttons_def upt_rec)
  show ?thesis
    using buttons_press_release [OF c _ _ _ r] unfolding e
    by (simp add: hook_call_def demo_buttons_def upt_rec)
qed

lemma hook_call_one:
  assumes "distinct (filter (\<lambda>cb. cb \<noteq> NULL) cbs)" and "cb \<noteq> NULL" and "cb \<in> set cbs"
  shows "filter (\<lambda>c. c = cb) (filter (\<lambda>cb. cb \<noteq> NULL) cbs) = [cb]"
  using assms
proof (induction cbs)
  case (Cons c cbs)
  have "cb \<notin> set cbs \<Longrightarrow> filter (\<lambda>c. c = cb) (filter (\<lambda>cb. cb \<noteq> NULL) cbs) = []"
    by (auto simp: filter_empty_conv)
  then show ?case using Cons by (cases "c = cb") (auto simp del: filter_filter split: if_splits)
qed simp

lemma somes_calls:
  "(\<And>s. f (g s) = [h s]) \<Longrightarrow> f [] = [] \<Longrightarrow>
   concat (map f (map (\<lambda>e. case e of Some s \<Rightarrow> g s | None \<Rightarrow> []) es)) = map h (somes es)"
proof (induction es)
  case (Cons e es)
  then show ?case by (cases e) simp_all
qed simp

lemma calls_of_one:
  assumes "hook_ok h" and "cb \<noteq> NULL" and "cb \<in> set (hook_callbacks h)" and "length bs = length cs" and "j < length cs"
  shows "map (\<lambda>c. snd (snd c)) (filter (\<lambda>c. fst c = cb \<and> fst (snd c) = j) (concat (snd (buttons_run conf h cs ps bs))))
    = somes (snd (button_run conf (map (\<lambda>p. cur_state conf p (cs ! j)) ps) (bs ! j)))"
proof -
  let ?es = "snd (button_run conf (map (\<lambda>p. cur_state conf p (cs ! j)) ps) (bs ! j))"
  let ?calls = "snd (buttons_run conf h cs ps bs)"
  have one: "filter (\<lambda>c. fst c = cb) (hook_call h (j, s)) = [(cb, j, s)]" for s
    using hook_call_one [of "hook_callbacks h" cb] assms(1-3)
    by (simp add: hook_call_def hook_ok_def filter_map comp_def)
  have "filter (\<lambda>c. fst c = cb \<and> fst (snd c) = j) (concat ?calls)
      = concat (map (filter (\<lambda>c. fst c = cb)) (map (filter (\<lambda>c. fst (snd c) = j)) ?calls))"
    by (simp add: filter_concat comp_def conj_commute)
  also have "\<dots> = concat (map (filter (\<lambda>c. fst c = cb)) (map (\<lambda>e. case e of Some s \<Rightarrow> hook_call h (j, s) | None \<Rightarrow> []) ?es))"
    using buttons_run_button [OF assms(4,5), of conf h ps] by simp
  also have "\<dots> = map (\<lambda>s. (cb, j, s)) (somes ?es)"
    by (rule somes_calls) (simp_all add: one)
  finally show ?thesis by (simp add: comp_def)
qed

text \<open>
  the protocol of a button.  Whatever is read from the pins, a function that is registered once
  is told about a button in an order that makes sense: a press first, a long press only after a
  press, repeats only after a long press, a release only of a pressed button, and nothing twice
  but repeats.\<close>

theorem buttons_protocol:
  assumes "hook_ok h" and "cb \<noteq> NULL" and "cb \<in> set (hook_callbacks h)" and "0 < DEBOUNCE_DELAY conf" and "j < length cs"
  shows "events_allowed BUTTON_RELEASE
    (map (\<lambda>c. snd (snd c)) (filter (\<lambda>c. fst c = cb \<and> fst (snd c) = j)
       (concat (snd (buttons_run conf h cs ps (replicate (length cs) button_idle))))))"
proof -
  have "button_ok button_idle" by (simp add: button_ok_def button_idle_def)
  then show ?thesis
    using button_run_allowed [of button_idle conf] assms(4) calls_of_one [OF assms(1-3) _ assms(5)] assms(5)
    by (simp add: button_idle_def)
qed

theorem buttons_protocol_witness:
  "events_allowed BUTTON_RELEASE
    (map (\<lambda>c. snd (snd c)) (filter (\<lambda>c. fst c = 7 \<and> fst (snd c) = 0)
       (concat (snd (buttons_run demo_buttons \<lparr>hook_counter = 1, hook_callbacks = [7, 0, 0]\<rparr> [\<lparr>portIn = 0, pin = 2\<rparr>]
          [\<lambda>_. 0, \<lambda>_. 0, \<lambda>_. 4, \<lambda>_. 0, \<lambda>_. 4, \<lambda>_. 4] (replicate (length [\<lparr>portIn = 0, pin = 2\<rparr>]) button_idle))))))"
  by (rule buttons_protocol) (simp_all add: hook_ok_def demo_buttons_def)

end
