(* ===== verification/E6_Modbus.thy ===== *)
theory E6_Modbus
  imports E6_Crc E6_Net
begin

text \<open>
  Modbus over a serial line: \<^verbatim>\<open>protocols/modbus/modbus.c\<close> with its two interrupts and the timer,
  and the client stack of \<^verbatim>\<open>modbus_client.c\<close> with the registers of \<^verbatim>\<open>modbus_client_cb.c\<close>.  A device
  sends requests for others, the gateway from Modbus/TCP, and answers those for itself, if it was
  built with the client stack.

  The buffers of the callers and the variables for the length of the answer are reached through
  pointers, so the state has a store of buffers and one of integers (\<^verbatim>\<open>int16_t\<close> as a word); the
  bytes written to the data register are a log.  \<open>None\<close> is an access outside of a buffer.
  avr-libc's \<^verbatim>\<open>_crc16_update\<close> is a parameter.
\<close>

subsection \<open>State and configuration\<close>

definition MODBUS_BUFFER_LEN :: nat where "MODBUS_BUFFER_LEN = 100"
definition MODBUS_HOLD_REGISTERS :: nat where "MODBUS_HOLD_REGISTERS = 11"
definition MODBUS_INPUT_REGISTERS :: nat where "MODBUS_INPUT_REGISTERS = 7"

record modbus_conf =
  client_support :: bool
  MODBUS_ADDRESS :: u8
  MODBUS_BROADCAST :: u8
  crc16_upd :: "u16 \<Rightarrow> u8 \<Rightarrow> u16"

record modbus_buffer =
  md_data :: addr
  md_sent :: u8
  md_len :: u8
  md_crc :: u16
  md_crc_len :: u8

record modbus =
  bufs :: "addr \<Rightarrow> u8 list"
  ints :: "addr \<Rightarrow> u16"
  modbus_data :: modbus_buffer
  modbus_recv_timer :: u8
  modbus_recv_len_ptr :: addr
  modbus_last_address :: u8
  client_len :: u8
  holding :: "u16 list"
  tx_enabled :: bool
  tx_irq :: bool
  udr :: "u8 list"

text \<open>The address of \<^verbatim>\<open>modbus_client_state.data\<close>.\<close>

definition CLIENT_DATA :: addr where "CLIENT_DATA = 1"

subsection \<open>The client stack\<close>

definition modbus_crc_calc :: "(u16 \<Rightarrow> u8 \<Rightarrow> u16) \<Rightarrow> u8 list \<Rightarrow> u8 \<Rightarrow> u16 option" where
  "modbus_crc_calc upd data len =
     (if unat len \<le> length data then Some (foldl upd 0xffff (take (unat len) data)) else None)"

definition modbus_read_holding :: "u16 list \<Rightarrow> u8 \<Rightarrow> u16 option" where
  "modbus_read_holding h address = (if unat address < length h then Some (h ! unat address) else None)"

definition modbus_write_holding :: "u8 \<Rightarrow> u16 \<Rightarrow> u16 list \<Rightarrow> u16 list option" where
  "modbus_write_holding address v h = (if unat address < length h then Some (h[unat address := v]) else None)"

definition modbus_read_input :: "u8 \<Rightarrow> u16 option" where
  "modbus_read_input address = Some 0xf0f0"

fun read_registers :: "(u8 \<Rightarrow> u16 option) \<Rightarrow> u8 \<Rightarrow> nat \<Rightarrow> u8 list option" where
  "read_registers rd ptr 0 = Some []"
| "read_registers rd ptr (Suc n) = do {
     tmp \<leftarrow> rd ptr;
     r \<leftarrow> read_registers rd (ptr + 1) n;
     Some (be16 tmp @ r)
   }"

fun write_registers :: "u8 list \<Rightarrow> nat \<Rightarrow> u8 \<Rightarrow> nat \<Rightarrow> u16 list \<Rightarrow> u16 list option" where
  "write_registers data i ptr 0 h = Some h"
| "write_registers data i ptr (Suc n) h = do {
     v \<leftarrow> get_be16 data (7 + 2 * i);
     h \<leftarrow> modbus_write_holding ptr v h;
     write_registers data (i + 1) (ptr + 1) n h
   }"

definition send_error :: "modbus_conf \<Rightarrow> u8 \<Rightarrow> u8 list \<Rightarrow> (u8 list \<times> u16) option" where
  "send_error cf code data = do {
     data \<leftarrow> poke data 2 code;
     data \<leftarrow> poke data 0 (MODBUS_ADDRESS cf);
     c \<leftarrow> peek data 1;
     data \<leftarrow> poke data 1 (c OR 0x80);
     Some (data, 3)
   }"

definition send_message :: "modbus_conf \<Rightarrow> u8 list \<Rightarrow> u16 \<Rightarrow> (u8 list \<times> u16) option" where
  "send_message cf data recv_len = do {
     d \<leftarrow> peek data 0;
     if d = MODBUS_BROADCAST cf then Some (data, -1)
     else do {
       crc \<leftarrow> modbus_crc_calc (crc16_upd cf) data (ucast recv_len);
       data \<leftarrow> poke data (unat recv_len) (ucast (crc AND 0xff));
       let recv_len = recv_len + 1;
       data \<leftarrow> poke data (unat recv_len) (ucast (drop_bit 8 crc AND 0xff));
       Some (data, recv_len + 1)
     }
   }"

definition modbus_client_process ::
    "modbus_conf \<Rightarrow> u8 list \<Rightarrow> u8 \<Rightarrow> u16 list \<Rightarrow> (u8 list \<times> u16 \<times> u16 list) option" where
  "modbus_client_process cf data len h = do {
     cmd \<leftarrow> peek data 1;
     (data, recv_len, h) \<leftarrow>
       (if cmd = 3 \<or> cmd = 4 then do {
          p \<leftarrow> get_be16 data 2;
          n \<leftarrow> get_be16 data 4;
          let ptr = (ucast p :: u8);
          let n = (ucast n :: u8);
          if unat ptr + unat n > (if cmd = 3 then MODBUS_HOLD_REGISTERS else MODBUS_INPUT_REGISTERS)
          then do { (data, recv_len) \<leftarrow> send_error cf 2 data; Some (data, recv_len, h) }
          else do {
            regs \<leftarrow> read_registers (if cmd = 3 then modbus_read_holding h else modbus_read_input) ptr (unat n);
            let answer = [MODBUS_ADDRESS cf, cmd, n * 2] @ regs;
            let recv_len = (ucast (n * 2 :: u8) + 3 :: u16);
            data \<leftarrow> memcpy data 0 (take (unat recv_len) answer);
            Some (data, recv_len, h)
          }
        }
        else if cmd = 6 then do {
          p \<leftarrow> get_be16 data 2;
          if unat p \<ge> MODBUS_HOLD_REGISTERS
          then do { (data, recv_len) \<leftarrow> send_error cf 2 data; Some (data, recv_len, h) }
          else do {
            v \<leftarrow> get_be16 data 4;
            h \<leftarrow> modbus_write_holding (ucast p) v h;
            Some (data, ucast len, h)
          }
        }
        else if cmd = 0x10 then do {
          p \<leftarrow> get_be16 data 2;
          n \<leftarrow> get_be16 data 4;
          let ptr = (ucast p :: u8);
          let n = (ucast n :: u8);
          if unat ptr + unat n \<ge> MODBUS_HOLD_REGISTERS
          then do { (data, recv_len) \<leftarrow> send_error cf 2 data; Some (data, recv_len, h) }
          else do {
            h \<leftarrow> write_registers data 0 ptr (unat n) h;
            data \<leftarrow> memcpy data 0 [MODBUS_ADDRESS cf, 6, 0, ptr, 0, n];
            Some (data, 6, h)
          }
        }
        else do { (data, recv_len) \<leftarrow> send_error cf 1 data; Some (data, recv_len, h) });
     (data, recv_len) \<leftarrow> send_message cf data recv_len;
     Some (data, recv_len, h)
   }"

subsection \<open>The serial line\<close>

definition modbus_init :: "modbus \<Rightarrow> modbus" where
  "modbus_init s = s\<lparr>tx_enabled := False, client_len := 0,
     modbus_data := (modbus_data s)\<lparr>md_len := 0, md_sent := 0, md_crc_len := 0\<rparr>\<rparr>"

text \<open>The transmission is started by its first byte; the interrupt goes on.\<close>

definition start_tx :: "addr \<Rightarrow> modbus \<Rightarrow> modbus option" where
  "start_tx data s = do {
     b \<leftarrow> peek (bufs s data) 0;
     Some (s\<lparr>modbus_data := (modbus_data s)\<lparr>md_sent := 1\<rparr>, tx_irq := True, udr := udr s @ [b]\<rparr>)
   }"

definition client_answer :: "modbus_conf \<Rightarrow> modbus \<Rightarrow> modbus option" where
  "client_answer cf s = do {
     let data = bufs s CLIENT_DATA;
     crc \<leftarrow> modbus_crc_calc (crc16_upd cf) data (client_len s - 2);
     (hi, lo) \<leftarrow>
       (if client_len s < 2 then None
        else do { hi \<leftarrow> peek data (unat (client_len s) - 1); lo \<leftarrow> peek data (unat (client_len s) - 2); Some (hi, lo) });
     if crc \<noteq> push_bit 8 (ucast hi) OR ucast lo then Some (s\<lparr>client_len := 0\<rparr>)
     else do {
       d \<leftarrow> peek data 0;
       if \<not> (d = MODBUS_ADDRESS cf \<or> d = MODBUS_BROADCAST cf) then Some s
       else do {
         let s = s\<lparr>client_len := client_len s - 2\<rparr>;
         (data, recv_len, h) \<leftarrow> modbus_client_process cf data (client_len s) (holding s);
         let s = s\<lparr>bufs := (bufs s)(CLIENT_DATA := data), holding := h\<rparr>;
         s \<leftarrow> (if recv_len \<noteq> 0 then
                 start_tx CLIENT_DATA (s\<lparr>tx_enabled := True,
                   modbus_data := (modbus_data s)\<lparr>md_data := CLIENT_DATA, md_len := ucast recv_len\<rparr>\<rparr>)
               else Some s);
         Some (s\<lparr>client_len := 0\<rparr>)
       }
     }
   }"

definition modbus_periodic :: "modbus_conf \<Rightarrow> modbus \<Rightarrow> modbus option" where
  "modbus_periodic cf s =
     (if modbus_recv_timer s = 0 then Some s
      else
        let s = s\<lparr>modbus_recv_timer := modbus_recv_timer s - 1\<rparr>; p = modbus_recv_len_ptr s in
        if p = NULL then (if client_support cf \<and> modbus_recv_timer s = 0 then client_answer cf s else Some s)
        else if modbus_recv_timer s \<noteq> 0 then Some s
        else do {
          let n = (ucast (md_len (modbus_data s)) :: u16);
          let n = (if sint n < 2 then -1 else n);
          d \<leftarrow> peek (bufs s (md_data (modbus_data s))) 0;
          let n = (if d \<noteq> modbus_last_address s then -1 else n);
          Some (s\<lparr>ints := (ints s)(p := n), modbus_recv_len_ptr := NULL\<rparr>)
        })"

definition modbus_rxstart :: "modbus_conf \<Rightarrow> addr \<Rightarrow> u8 \<Rightarrow> addr \<Rightarrow> modbus \<Rightarrow> (u8 \<times> modbus) option" where
  "modbus_rxstart cf data len recv_len s = do {
     d \<leftarrow> peek (bufs s data) 0;
     (own, s) \<leftarrow>
       (if client_support cf \<and> (d = MODBUS_ADDRESS cf \<or> d = MODBUS_BROADCAST cf) then do {
          (b, n, h) \<leftarrow> modbus_client_process cf (bufs s data) len (holding s);
          d \<leftarrow> peek b 0;
          Some (d = MODBUS_ADDRESS cf, s\<lparr>bufs := (bufs s)(data := b), ints := (ints s)(recv_len := n), holding := h\<rparr>)
        }
        else Some (False, s));
     if own then Some (1, s)
     else if md_crc_len (modbus_data s) \<noteq> 0 then Some (0, s)
     else do {
       d \<leftarrow> peek (bufs s data) 0;
       crc \<leftarrow> modbus_crc_calc (crc16_upd cf) (bufs s data) len;
       s \<leftarrow> start_tx data (s\<lparr>modbus_last_address := d, tx_enabled := True, modbus_recv_len_ptr := recv_len,
              modbus_data := (modbus_data s)\<lparr>md_crc := crc, md_crc_len := 2, md_data := data, md_len := len\<rparr>\<rparr>);
       Some (1, s)
     }
   }"

definition tx_isr :: "modbus \<Rightarrow> modbus option" where
  "tx_isr s =
     (let d = modbus_data s in
      if md_sent d < md_len d then do {
        b \<leftarrow> peek (bufs s (md_data d)) (unat (md_sent d));
        Some (s\<lparr>modbus_data := d\<lparr>md_sent := md_sent d + 1\<rparr>, udr := udr s @ [b]\<rparr>)
      }
      else if md_crc_len d \<noteq> 0 then
        Some (s\<lparr>modbus_data := d\<lparr>md_crc_len := md_crc_len d - 1\<rparr>,
               udr := udr s @ [ucast (drop_bit ((1 - unat (md_crc_len d - 1)) * 8) (md_crc d))]\<rparr>)
      else
        let s = s\<lparr>tx_irq := False, tx_enabled := False\<rparr> in
        if modbus_recv_len_ptr s \<noteq> NULL
        then Some (s\<lparr>modbus_data := d\<lparr>md_len := 0\<rparr>, modbus_recv_timer := 4\<rparr>) else Some s)"

text \<open>The receive interrupt; \<open>err\<close> is a frame error or an overrun in \<^verbatim>\<open>UCSRA\<close>.\<close>

definition rx_isr :: "modbus_conf \<Rightarrow> bool \<Rightarrow> u8 \<Rightarrow> modbus \<Rightarrow> modbus option" where
  "rx_isr cf err b s =
     (let d = modbus_data s in
      if err then Some s
      else if modbus_recv_len_ptr s = NULL then
        if client_support cf then do {
          data \<leftarrow> poke (bufs s CLIENT_DATA) (unat (client_len s)) b;
          Some (s\<lparr>bufs := (bufs s)(CLIENT_DATA := data), client_len := client_len s + 1, modbus_recv_timer := 2\<rparr>)
        }
        else Some s
      else if unat (md_len d) \<ge> MODBUS_BUFFER_LEN then Some s
      else do {
        data \<leftarrow> poke (bufs s (md_data d)) (unat (md_len d)) b;
        Some (s\<lparr>bufs := (bufs s)(md_data d := data), modbus_data := d\<lparr>md_len := md_len d + 1\<rparr>, modbus_recv_timer := 2\<rparr>)
      })"

subsection \<open>Runs\<close>

datatype mb_event = Tick | Tx | Rx u8 | Rx_error u8 | Start addr u8 addr

fun mb_step :: "modbus_conf \<Rightarrow> mb_event \<Rightarrow> modbus \<Rightarrow> modbus option" where
  "mb_step cf Tick s = modbus_periodic cf s"
| "mb_step cf Tx s = tx_isr s"
| "mb_step cf (Rx b) s = rx_isr cf False b s"
| "mb_step cf (Rx_error b) s = rx_isr cf True b s"
| "mb_step cf (Start data len recv_len) s = do { (_, s) \<leftarrow> modbus_rxstart cf data len recv_len s; Some s }"

fun mb_run :: "modbus_conf \<Rightarrow> mb_event list \<Rightarrow> modbus \<Rightarrow> modbus option" where
  "mb_run cf [] s = Some s"
| "mb_run cf (e # es) s = do { s \<leftarrow> mb_step cf e s; mb_run cf es s }"

subsection \<open>Sending\<close>


text \<open>A message with its checksum, and the bytes of a message as they come in, with ticks between them.\<close>

definition modbus_frame :: "(u16 \<Rightarrow> u8 \<Rightarrow> u16) \<Rightarrow> u8 list \<Rightarrow> u8 list" where
  "modbus_frame upd d = (let crc = foldl upd 0xffff d in d @ [ucast crc, ucast (drop_bit 8 crc)])"

definition rx_events :: "nat list \<Rightarrow> u8 list \<Rightarrow> mb_event list" where
  "rx_events gs bs = concat (map2 (\<lambda>g b. replicate g Tick @ [Rx b]) gs bs)"

lemma length_modbus_frame [simp]: "length (modbus_frame upd d) = length d + 2"
  by (simp add: modbus_frame_def Let_def)





subsection \<open>Receiving\<close>

lemma rx_events_Cons [simp]: "rx_events (g # gs) (b # bs) = replicate g Tick @ Rx b # rx_events gs bs"
  by (simp add: rx_events_def)

lemma rx_events_Nil [simp]: "rx_events gs [] = []"
  by (simp add: rx_events_def)







subsection \<open>Requests and their answers\<close>

text \<open>
  What a client answers, by the Modbus specification: registers are read and written by their
  numbers, and requests outside of the registers get an exception.  The numbers of a request to
  read have to be less than 256, see \<open>register_256\<close>.
\<close>

datatype mb_request = Read_holding nat nat | Read_inputs nat nat | Write_holding nat u16

fun request_bytes :: "u8 \<Rightarrow> mb_request \<Rightarrow> u8 list" where
  "request_bytes a (Read_holding p n) = [a, 3] @ be16 (of_nat p) @ be16 (of_nat n)"
| "request_bytes a (Read_inputs p n) = [a, 4] @ be16 (of_nat p) @ be16 (of_nat n)"
| "request_bytes a (Write_holding p v) = [a, 6] @ be16 (of_nat p) @ be16 v"




lemma length_request [simp]: "length (request_bytes a r) = 6"
  by (cases r) simp_all






lemma length_registers [simp]: "length (concat (map be16 xs)) = 2 * length xs"
  by (induction xs) auto





subsection \<open>A client at work\<close>

lemma length_inputs [simp]: "length (concat (replicate n (be16 w))) = 2 * n"
  by (induction n) auto



definition idle_client :: "modbus_conf \<Rightarrow> modbus \<Rightarrow> bool" where
  "idle_client cf s \<longleftrightarrow> client_support cf \<and> MODBUS_ADDRESS cf \<noteq> MODBUS_BROADCAST cf \<and> modbus_recv_len_ptr s = NULL
     \<and> modbus_recv_timer s = 0 \<and> client_len s = 0 \<and> md_crc_len (modbus_data s) = 0
     \<and> length (bufs s CLIENT_DATA) = MODBUS_BUFFER_LEN \<and> length (holding s) = MODBUS_HOLD_REGISTERS"

lemma mb_run_end [simp]: "x \<bind> mb_run cf [] = x"
  by (cases x) auto




subsection \<open>Transactions\<close>




text \<open>Two registers are read, with pauses on both ways.\<close>

definition demo_modbus :: "u8 list \<Rightarrow> modbus" where
  "demo_modbus req = \<lparr>bufs = (\<lambda>_. req @ replicate (100 - length req) 0), ints = (\<lambda>_. 0),
     modbus_data = \<lparr>md_data = NULL, md_sent = 0, md_len = 0, md_crc = 0, md_crc_len = 0\<rparr>, modbus_recv_timer = 0, modbus_recv_len_ptr = NULL,
     modbus_last_address = 0, client_len = 0, holding = [0x2342, 0xf0f0, 0xdead, 0xbeef, 0, 0, 0, 0, 0, 0, 0],
     tx_enabled = False, tx_irq = False, udr = []\<rparr>"

definition demo_modbus_conf :: "bool \<Rightarrow> modbus_conf" where
  "demo_modbus_conf client = \<lparr>client_support = client, MODBUS_ADDRESS = 240, MODBUS_BROADCAST = 255, crc16_upd = crc16_update\<rparr>"


subsection \<open>Memory safety of a master\<close>










subsection \<open>What goes wrong in the client stack\<close>

text \<open>The buffer of the client is not checked: the byte behind the last is written outside.\<close>

lemma client_overrun:
  assumes "client_support cf" and "modbus_recv_len_ptr s = NULL" and "unat (client_len s) = length (bufs s CLIENT_DATA)"
  shows "mb_step cf (Rx b) s = None"
  using assms by (simp add: rx_isr_def Let_def poke_def)

text \<open>A single byte, as noise on the bus: the checksum is computed over 255 bytes.\<close>

lemma client_short_frame:
  assumes "idle_client cf s"
  shows "mb_run cf [Rx b, Tick, Tick] s = None"
  using assms by (simp add: idle_client_def rx_isr_def modbus_periodic_def Let_def poke_def client_answer_def modbus_crc_calc_def MODBUS_BUFFER_LEN_def)

text \<open>Examples with a simple checksum, which does not matter here.\<close>

definition demo_xor_conf :: modbus_conf where
  "demo_xor_conf = (demo_modbus_conf True)\<lparr>crc16_upd := (\<lambda>c b. c XOR ucast b)\<rparr>"

text \<open>A register is written by a broadcast: the client answers, with 255 bytes from its buffer of 100.\<close>

lemma broadcast_overrun:
  "map_option udr (mb_run demo_xor_conf (map Rx (modbus_frame (crc16_upd demo_xor_conf) (request_bytes 255 (Write_holding 1 5))) @ [Tick, Tick]) (demo_modbus [])) = Some [255]
   \<and> mb_run demo_xor_conf (map Rx (modbus_frame (crc16_upd demo_xor_conf) (request_bytes 255 (Write_holding 1 5))) @ [Tick, Tick] @ replicate 100 Tx) (demo_modbus []) = None"
  by code_simp

text \<open>Register 10 is the last of the eleven, but cannot be written with others.\<close>

lemma write_multiple_last:
  "(do { (data, n, h) \<leftarrow> modbus_client_process demo_xor_conf ([240, 0x10, 0, 10, 0, 1, 2, 0x12, 0x34] @ replicate 91 0) 9 (replicate 11 0); Some (take 3 data, h) }) =
   Some ([240, 0x90, 2], replicate 11 0)"
  by code_simp

text \<open>The answer to function 16 carries the function code 6.\<close>

lemma write_multiple_reply:
  "(do { (data, n, h) \<leftarrow> modbus_client_process demo_xor_conf ([240, 0x10, 0, 9, 0, 1, 2, 0x12, 0x34] @ replicate 91 0) 9 (replicate 11 0); Some (take 6 data, h) }) =
   Some ([240, 6, 0, 9, 0, 1], (replicate 11 0)[9 := 0x1234])"
  by code_simp

text \<open>A request for register 256 is answered with register 0.\<close>

lemma register_256:
  "(do { (data, n, h) \<leftarrow> modbus_client_process demo_xor_conf ([240, 3, 1, 0, 0, 1] @ replicate 94 0) 6 (0x1234 # replicate 10 0); Some (take 5 data) }) =
   Some [240, 3, 2, 0x12, 0x34]"
  by code_simp

text \<open>A message for another station stays in the buffer, and the next one is stored behind it.\<close>

lemma foreign_frame_kept:
  "(do { s \<leftarrow> mb_run demo_xor_conf (map Rx (modbus_frame (crc16_upd demo_xor_conf) (request_bytes 17 (Read_holding 0 1))) @ [Tick, Tick]) (demo_modbus []); Some (udr s, client_len s) }) =
   Some ([], 8)"
  by code_simp

end
