(* ===== verification/E6_Script.thy ===== *)
theory E6_Script
  imports E6_Ecmd E6_Strings E6_Tftp
begin

text \<open>
  Scripts of commands, \<^verbatim>\<open>protocols/ecmd/scripting.c\<close>: files of the virtual file system whose lines
  are commands, with a jump, a conditional and a few variables.  The functions have the type of a
  command of the parser; \<^verbatim>\<open>ecmd_parse_command\<close>, which they call for the commands of a script and
  which calls them, is their argument \<open>ep\<close>.  The state has the variables of the file, the state
  of the file system and, for the other commands, the rest of the firmware.  \<^verbatim>\<open>sscanf\<close> leaves
  what it does not find unset; to use it then is undefined behaviour, \<open>None\<close>, as is a word longer than
  its buffer.  \<^verbatim>\<open>wait\<close>, a busy delay, is left out.  The sizes are the defaults of \<^verbatim>\<open>config.in\<close>.
\<close>

subsection \<open>State\<close>

definition ECMD_SCRIPT_MAX_VARIABLES :: nat where "ECMD_SCRIPT_MAX_VARIABLES = 4"
definition ECMD_SCRIPT_VARIABLE_LENGTH :: nat where "ECMD_SCRIPT_VARIABLE_LENGTH = 10"
definition ECMD_SCRIPT_COMPARATOR_LENGTH :: nat where "ECMD_SCRIPT_COMPARATOR_LENGTH = 25"
definition ECMD_SCRIPT_MAXLINES :: nat where "ECMD_SCRIPT_MAXLINES = 128"

lemmas script_sizes = ECMD_SCRIPT_MAX_VARIABLES_def ECMD_SCRIPT_VARIABLE_LENGTH_def ECMD_SCRIPT_COMPARATOR_LENGTH_def
  ECMD_SCRIPT_MAXLINES_def ECMD_INPUTBUF_LENGTH_def

record 'u script_t =
  sc_handle :: "'u vfs_file_handle_t option"
  sc_linenumber :: u16
  sc_filepointer :: u32

record ('u, 's, 'e) scripting =
  script_vars :: "u8 list list"
  current_script :: "'u script_t"
  autorun_done :: u8
  script_fs :: 's
  script_env :: 'e

abbreviation txt_bytes :: "string \<Rightarrow> u8 list" where
  "txt_bytes t \<equiv> map (of_nat \<circ> of_char) t"

subsection \<open>Functions of the C library\<close>

definition is_white :: "u8 \<Rightarrow> bool" where
  "is_white c \<longleftrightarrow> c = 32 \<or> 9 \<le> c \<and> c \<le> 13"

text \<open>The directive \<^verbatim>\<open>%s\<close>: the word and what follows, on the characters of a string.\<close>

definition scan_word :: "u8 list \<Rightarrow> (u8 list \<times> u8 list) option" where
  "scan_word t =
     (let t = dropWhile is_white t; w = takeWhile (\<lambda>c. \<not> is_white c) t
      in if w = [] then None else Some (w, drop (length w) t))"

definition scan_sign :: "u8 list \<Rightarrow> bool \<times> u8 list" where
  "scan_sign t = (case t of c # r \<Rightarrow> if c = 45 then (True, r) else if c = 43 then (False, r) else (False, t) | [] \<Rightarrow> (False, []))"

definition scan_number :: "u8 list \<Rightarrow> (int \<times> u8 list) option" where
  "scan_number t =
     (let (neg, t) = scan_sign (dropWhile is_white t); ds = takeWhile is_digit t
      in if ds = [] then None else Some (if neg then - int (decimal ds) else int (decimal ds), drop (length ds) t))"

text \<open>A string stored in a buffer of \<open>n\<close> bytes.\<close>

definition in_buffer :: "nat \<Rightarrow> u8 list \<Rightarrow> u8 list option" where
  "in_buffer n w = (if length w < n then Some w else None)"

definition atoi :: "u8 list \<Rightarrow> u16" where
  "atoi b = (case scan_number (cstr b) of Some (v, _) \<Rightarrow> of_int v | None \<Rightarrow> 0)"

fun digits10 :: "nat \<Rightarrow> nat \<Rightarrow> u8 list" where
  "digits10 0 v = []"
| "digits10 (Suc n) v = (if v < 10 then [of_nat v + 48] else digits10 n (v div 10) @ [of_nat (v mod 10) + 48])"

definition itoa10 :: "u16 \<Rightarrow> u8 list" where
  "itoa10 w = (if sint w < 0 then 45 # digits10 5 (nat (- sint w)) else digits10 5 (nat (sint w)))"

definition strcpy :: "u8 list \<Rightarrow> u8 list \<Rightarrow> u8 list option" where
  "strcpy dest t = memcpy dest 0 (t @ [0])"

text \<open>\<^verbatim>\<open>snprintf\<close> of the characters \<open>t\<close>; the result is their number, printed or not.\<close>

definition snprintf :: "u8 list option \<Rightarrow> u16 \<Rightarrow> u8 list \<Rightarrow> (int \<times> u8 list option) option" where
  "snprintf outp len t = do {
     out \<leftarrow> outp;
     out \<leftarrow> (if len = 0 then Some out else memcpy out 0 (take (unat len - 1) t @ [0]));
     Some (int (length t), Some out)
   }"

subsection \<open>Reading lines\<close>

fun fgets_loop :: "nat \<Rightarrow> u8 list \<Rightarrow> nat \<Rightarrow> nat option" where
  "fgets_loop 0 line i = Some i"
| "fgets_loop (Suc n) line i = do { c \<leftarrow> peek line i; if c \<noteq> 10 then fgets_loop n line (i + 1) else Some i }"

definition vfs_fgets ::
    "('u, 's) vfs_func_t list \<Rightarrow> 'u vfs_file_handle_t \<Rightarrow> u8 list \<Rightarrow> u32 \<Rightarrow> 's
       \<Rightarrow> (u32 \<times> u8 list \<times> 'u vfs_file_handle_t \<times> 's) option" where
  "vfs_fgets vf handle line pos s = do {
     (_, handle, s) \<leftarrow> vfs_fseek vf handle pos SEEK_SET s;
     (readlen, bytes, handle, s) \<leftarrow> vfs_read vf handle (of_nat (ECMD_INPUTBUF_LENGTH - 1)) s;
     line \<leftarrow> memcpy line 0 bytes;
     line \<leftarrow> poke line (ECMD_INPUTBUF_LENGTH - 1) 0;
     i \<leftarrow> fgets_loop (unat readlen) line 0;
     line \<leftarrow> poke line i 0;
     Some (of_nat i, line, handle, s)
   }"

definition readline ::
    "('u, 's) vfs_func_t list \<Rightarrow> u8 list \<Rightarrow> ('u, 's, 'e) scripting \<Rightarrow> (u8 \<times> u8 list \<times> ('u, 's, 'e) scripting) option" where
  "readline vf buf s = do {
     h \<leftarrow> sc_handle (current_script s);
     (len, buf, h, fs) \<leftarrow> vfs_fgets vf h buf (sc_filepointer (current_script s)) (script_fs s);
     let s = s\<lparr>current_script := (current_script s)\<lparr>sc_handle := Some h\<rparr>, script_fs := fs\<rparr>;
     if len = -1 \<or> unat len \<ge> ECMD_INPUTBUF_LENGTH then Some (0, buf, s)
     else Some (ucast len, buf, s\<lparr>current_script := (current_script s)\<lparr>
       sc_filepointer := sc_filepointer (current_script s) + (len + 1),
       sc_linenumber := sc_linenumber (current_script s) + 1\<rparr>\<rparr>)
   }"

subsection \<open>Control flow\<close>



text \<open>The local array \<^verbatim>\<open>line\<close>, whose contents are not set at first.\<close>

definition fresh_line :: "u8 list" where
  "fresh_line = replicate ECMD_INPUTBUF_LENGTH 0"




definition parse_cmd_exit :: "('u, 's) vfs_func_t list \<Rightarrow> ('u, 's, 'e) scripting ecmd_func" where
  "parse_cmd_exit vf cmd outp len s =
     (case sc_handle (current_script s) of
        None \<Rightarrow> do { (n, outp) \<leftarrow> snprintf outp len (txt_bytes ''no script''); Some (ECMD_FINAL n, cmd, outp, s) }
      | Some h \<Rightarrow> do {
          fs \<leftarrow> vfs_close vf h (script_fs s);
          Some (ECMD_FINAL_OK, cmd, outp,
            s\<lparr>script_fs := fs, current_script := \<lparr>sc_handle = None, sc_linenumber = 0, sc_filepointer = 0\<rparr>\<rparr>)
        })"

partial_function (option) call_loop ::
    "('u, 's) vfs_func_t list \<Rightarrow> ('u, 's, 'e) scripting ecmd_func \<Rightarrow> u8 \<Rightarrow> u32 \<Rightarrow> u8 list \<Rightarrow> u8 list option \<Rightarrow> u16
       \<Rightarrow> ('u, 's, 'e) scripting \<Rightarrow> (u8 list option \<times> ('u, 's, 'e) scripting) option" where
  "call_loop vf ep run filesize line outp len s =
     (if sc_handle (current_script s) \<noteq> None \<and> unat run < ECMD_SCRIPT_MAXLINES \<and> filesize > sc_filepointer (current_script s) then
        do {
          (lsize, line, s) \<leftarrow> readline vf line s;
          (line, outp, s) \<leftarrow>
            (if lsize \<noteq> 0 then do { (_, line, outp, s) \<leftarrow> ep line outp len s; Some (line, outp, s) }
             else Some (line, outp, s));
          call_loop vf ep (run + 1) filesize line outp len s
        }
      else Some (outp, s))"

declare call_loop.simps [code]

definition open_script ::
    "('u, 's) vfs_func_t list \<Rightarrow> u8 list \<Rightarrow> ('u, 's, 'e) scripting \<Rightarrow> (u32 option \<times> ('u, 's, 'e) scripting) option" where
  "open_script vf cmd s = do {
     (w, _) \<leftarrow> scan_word (cstr cmd);
     filename \<leftarrow> in_buffer 10 w;
     (h, fs) \<leftarrow> vfs_open vf (filename @ [0]) (script_fs s);
     let s = s\<lparr>script_fs := fs, current_script := (current_script s)\<lparr>sc_handle := h\<rparr>\<rparr>;
     case h of None \<Rightarrow> Some (None, s)
     | Some h \<Rightarrow> do {
         filesize \<leftarrow> vfs_size vf h fs;
         Some (Some filesize, s\<lparr>current_script := \<lparr>sc_handle = Some h, sc_linenumber = 0, sc_filepointer = 0\<rparr>\<rparr>)
       }
   }"

definition parse_cmd_call ::
    "('u, 's) vfs_func_t list \<Rightarrow> ('u, 's, 'e) scripting ecmd_func \<Rightarrow> ('u, 's, 'e) scripting ecmd_func" where
  "parse_cmd_call vf ep cmd outp len s = do {
     (size, s) \<leftarrow> open_script vf cmd s;
     case size of None \<Rightarrow> Some (ECMD_FINAL 1, cmd, outp, s)
     | Some filesize \<Rightarrow> do {
         (outp, s) \<leftarrow> call_loop vf ep 0 filesize fresh_line outp len s;
         (_, cmd, outp, s) \<leftarrow> parse_cmd_exit vf cmd outp len s;
         Some (ECMD_FINAL_OK, cmd, outp, s)
       }
   }"

text \<open>The loop of \<^verbatim>\<open>cat\<close> is the one of \<^verbatim>\<open>call\<close> without the commands.\<close>

definition parse_cmd_cat :: "('u, 's) vfs_func_t list \<Rightarrow> ('u, 's, 'e) scripting ecmd_func" where
  "parse_cmd_cat vf cmd outp len s = do {
     (size, s) \<leftarrow> open_script vf cmd s;
     case size of None \<Rightarrow> Some (ECMD_FINAL 1, cmd, outp, s)
     | Some filesize \<Rightarrow> do {
         (outp, s) \<leftarrow> call_loop vf (\<lambda>line outp len s. Some (0, line, outp, s)) 0 filesize fresh_line outp len s;
         Some (ECMD_FINAL_OK, cmd, outp, s)
       }
   }"

subsection \<open>Variables\<close>

definition to_many_vars_error_message ::
    "u8 list \<Rightarrow> u8 list option \<Rightarrow> u16 \<Rightarrow> 'x \<Rightarrow> (int \<times> u8 list \<times> u8 list option \<times> 'x) option" where
  "to_many_vars_error_message cmd outp len s = do {
     (n, outp) \<leftarrow> snprintf outp len (txt_bytes ''max var exceed '' @ digits10 5 ECMD_SCRIPT_MAX_VARIABLES);
     Some (ECMD_FINAL n, cmd, outp, s)
   }"

definition scan_var :: "u8 list \<Rightarrow> (u8 \<times> u8 list) option" where
  "scan_var cmd = do { (v, r) \<leftarrow> scan_number (cstr cmd); Some (of_int v, r) }"

definition parse_cmd_set :: "('u, 's, 'e) scripting ecmd_func" where
  "parse_cmd_set cmd outp len s = do {
     (pos, r) \<leftarrow> scan_var cmd;
     let w = scan_word r;
     _ \<leftarrow> (case w of Some (w, _) \<Rightarrow> in_buffer ECMD_SCRIPT_VARIABLE_LENGTH w | None \<Rightarrow> Some []);
     if unat pos \<ge> ECMD_SCRIPT_MAX_VARIABLES then to_many_vars_error_message cmd outp len s
     else do {
       (w, _) \<leftarrow> w;
       v \<leftarrow> strcpy (script_vars s ! unat pos) w;
       let s = s\<lparr>script_vars := (script_vars s)[unat pos := v]\<rparr>;
       (n, outp) \<leftarrow> snprintf outp len (txt_bytes ''%'' @ digits10 5 (unat pos) @ txt_bytes '' set to '' @ cstr v);
       Some (ECMD_FINAL n, cmd, outp, s)
     }
   }"

definition parse_cmd_get :: "('u, 's, 'e) scripting ecmd_func" where
  "parse_cmd_get cmd outp len s = do {
     (pos, r) \<leftarrow> scan_var cmd;
     if unat pos \<ge> ECMD_SCRIPT_MAX_VARIABLES then to_many_vars_error_message cmd outp len s
     else do {
       (n, outp) \<leftarrow> snprintf outp len (cstr (script_vars s ! unat pos));
       Some (ECMD_FINAL n, cmd, outp, s)
     }
   }"

definition change_var :: "u16 \<Rightarrow> ('u, 's, 'e) scripting ecmd_func" where
  "change_var d cmd outp len s = do {
     (pos, r) \<leftarrow> scan_var cmd;
     if unat pos \<ge> ECMD_SCRIPT_MAX_VARIABLES then to_many_vars_error_message cmd outp len s
     else do {
       let old = script_vars s ! unat pos;
       v \<leftarrow> strcpy old (itoa10 (atoi old + d));
       Some (ECMD_FINAL_OK, cmd, outp, s\<lparr>script_vars := (script_vars s)[unat pos := v]\<rparr>)
     }
   }"

definition parse_cmd_inc :: "('u, 's, 'e) scripting ecmd_func" where
  "parse_cmd_inc cmd outp len s = change_var 1 cmd outp len s"

definition parse_cmd_dec :: "('u, 's, 'e) scripting ecmd_func" where
  "parse_cmd_dec cmd outp len s = change_var (-1) cmd outp len s"



subsection \<open>The conditional\<close>

text \<open>The result of a comparison, or \<open>None\<close> if there is no such comparator; \<^verbatim>\<open>success\<close> is a byte.\<close>

definition compare :: "u8 list \<Rightarrow> u8 list \<Rightarrow> u8 list \<Rightarrow> u8 option" where
  "compare comparator out konst =
     (let o16 = atoi out; k16 = atoi konst in
      if comparator = txt_bytes ''eq'' then Some (of_bool (cstr out = konst))
      else if comparator = txt_bytes ''ne'' then Some (of_bool (cstr out \<noteq> konst))
      else if comparator = txt_bytes ''OK'' then Some (ucast o16)
      else if comparator = txt_bytes ''!'' then Some (of_bool (o16 \<noteq> 0))
      else if comparator = txt_bytes ''=='' then Some (of_bool (o16 = k16))
      else if comparator = txt_bytes ''!='' then Some (of_bool (o16 \<noteq> k16))
      else if comparator = txt_bytes ''>'' then Some (of_bool (o16 > k16))
      else if comparator = txt_bytes ''<'' then Some (of_bool (o16 < k16))
      else if comparator = txt_bytes ''>='' then Some (of_bool (o16 \<ge> k16))
      else if comparator = txt_bytes ''<='' then Some (of_bool (o16 \<le> k16))
      else None)"

text \<open>\<^verbatim>\<open>strstr\<close>: the position of the first occurrence.\<close>

fun strstr :: "u8 list \<Rightarrow> u8 list \<Rightarrow> nat option" where
  "strstr [] pat = (if pat = [] then Some 0 else None)"
| "strstr (c # t) pat = (if take (length pat) (c # t) = pat then Some 0 else map_option Suc (strstr t pat))"

text \<open>The words \<^verbatim>\<open>sscanf\<close> finds for \<^verbatim>\<open>( %s %s %s ) then\<close>, as many as there are.\<close>

fun scan_words :: "nat \<Rightarrow> u8 list \<Rightarrow> u8 list list" where
  "scan_words 0 t = []"
| "scan_words (Suc n) t = (case scan_word t of None \<Rightarrow> [] | Some (w, r) \<Rightarrow> w # scan_words n r)"

definition scan_if :: "u8 list \<Rightarrow> u8 list list" where
  "scan_if t = (case t of [] \<Rightarrow> [] | c # r \<Rightarrow> if c = 40 then scan_words 3 r else [])"

text \<open>What is compared: a variable, or the output of a command.\<close>

definition if_operand ::
    "('u, 's, 'e) scripting ecmd_func \<Rightarrow> u8 list \<Rightarrow> u8 list option \<Rightarrow> u16 \<Rightarrow> ('u, 's, 'e) scripting
       \<Rightarrow> (bool \<times> u8 list option \<times> ('u, 's, 'e) scripting) option" where
  "if_operand ep cmpcmd outp len s =
     (if hd cmpcmd = 37 then do {
        c \<leftarrow> peek (cmpcmd @ [0]) 1;
        let varpos = unat (c - 48);
        out \<leftarrow> outp;
        out \<leftarrow> (if varpos < length (script_vars s) then strcpy out (cstr (script_vars s ! varpos)) else None);
        Some (True, Some out, s)
      }
      else do {
        (r, _, outp, s) \<leftarrow> ep (cmpcmd @ replicate (ECMD_SCRIPT_COMPARATOR_LENGTH - length cmpcmd) 0) outp len s;
        Some (r \<noteq> 0, outp, s)
      })"

definition if_then :: "('u, 's, 'e) scripting ecmd_func \<Rightarrow> nat \<Rightarrow> ('u, 's, 'e) scripting ecmd_func" where
  "if_then ep i cmd outp len s = do {
     (r, rest, outp, s) \<leftarrow> (if i \<le> length cmd then ep (drop i cmd) outp len s else None);
     let cmd = take i cmd @ rest;
     if r = 0 then Some (ECMD_FINAL 2, cmd, outp, s)
     else do {
       out \<leftarrow> outp;
       (n, outp) \<leftarrow> snprintf outp len (cstr out);
       Some (ECMD_FINAL n, cmd, outp, s)
     }
   }"

definition parse_cmd_if :: "('u, 's, 'e) scripting ecmd_func \<Rightarrow> ('u, 's, 'e) scripting ecmd_func" where
  "parse_cmd_if ep cmd outp len s =
     (let words = scan_if (cstr cmd) in
      if \<not> list_all (\<lambda>(w, n). length w < n) (zip words [ECMD_SCRIPT_COMPARATOR_LENGTH, 3, ECMD_SCRIPT_COMPARATOR_LENGTH]) then None
      else case strstr (cstr cmd) (txt_bytes ''then'') of None \<Rightarrow> Some (ECMD_FINAL 1, cmd, outp, s)
      | Some i \<Rightarrow>
          if length words < 3 then None
          else do {
            (ok, outp, s) \<leftarrow> if_operand ep (words ! 0) outp len s;
            if \<not> ok then Some (ECMD_FINAL 1, cmd, outp, s)
            else do {
              out \<leftarrow> outp;
              case compare (words ! 1) out (words ! 2) of None \<Rightarrow> Some (ECMD_FINAL 3, cmd, outp, s)
              | Some success \<Rightarrow>
                  if success = 0 then Some (ECMD_FINAL 1, cmd, outp, s) else if_then ep (i + 5) cmd outp len s
            }
          })"

text \<open>The start of the script \<^verbatim>\<open>auto.es\<close>, once; \<^verbatim>\<open>sizeof(cmd)\<close> is the length for the output.\<close>

definition ecmd_script_init_run ::
    "('u, 's) vfs_func_t list \<Rightarrow> ('u, 's, 'e) scripting ecmd_func \<Rightarrow> ('u, 's, 'e) scripting \<Rightarrow> (int \<times> ('u, 's, 'e) scripting) option" where
  "ecmd_script_init_run vf ep s =
     (if autorun_done s = 1 then Some (ECMD_FINAL_OK, s)
      else do {
        let s = s\<lparr>autorun_done := 1\<rparr>;
        (r, _, _, s) \<leftarrow> parse_cmd_call vf ep (txt_bytes ''auto.es'' @ [0])
            (Some (replicate ECMD_SCRIPT_VARIABLE_LENGTH 0)) 8 s;
        Some (r, s)
      })"

subsection \<open>Lines of a file\<close>



definition script_text :: "u8 list list \<Rightarrow> u8 list" where
  "script_text ls = concat (map (\<lambda>l. l @ [10]) ls)"


lemma script_text_simps [simp]:
  "script_text [] = []" "script_text (l # ls) = l @ 10 # script_text ls" "script_text (xs @ ys) = script_text xs @ script_text ys"
  by (simp_all add: script_text_def)






subsection \<open>Running a script\<close>








lemma snprintf_ok:
  assumes "unat len \<le> length out"
  shows "\<exists>out'. snprintf (Some out) len t = Some (int (length t), Some out') \<and> length out' = length out"
proof -
  have "length (take (unat len - 1) t @ [0]) \<le> length out" if "len \<noteq> 0"
  proof -
    have "0 < unat len" using that by (simp add: unat_gt_0)
    then show ?thesis using assms by auto
  qed
  then show ?thesis by (auto simp: snprintf_def memcpy_def)
qed




subsection \<open>The parser\<close>











subsection \<open>Numbers in variables\<close>

lemma digits10_decimal:
  assumes "v < 10 ^ n" "0 < n"
  shows "list_all is_digit (digits10 n v) \<and> digits10 n v \<noteq> [] \<and> decimal (digits10 n v) = v \<and> length (digits10 n v) \<le> n"
  using assms
proof (induction n v rule: digits10.induct)
  case (2 n v)
  have d: "is_digit (of_nat k + 48)" "unat (of_nat k + 48 :: u8) - 48 = k" if "k < 10" for k :: nat
    using that by (simp_all add: is_digit_def word_le_nat_alt unat_word_ariths unat_of_nat)
  show ?case
  proof (cases "v < 10")
    case True
    then show ?thesis using d [of v] by (simp add: decimal_def)
  next
    case False
    then have "v div 10 < 10 ^ n" "0 < n" using 2(2) by (auto simp: less_mult_imp_div_less mult.commute intro: gr0I)
    then show ?thesis using 2(1) False d [of "v mod 10"] by (simp add: decimal_def)
  qed
qed simp

lemma digit_chars: "is_digit x \<Longrightarrow> x \<noteq> 0 \<and> \<not> is_white x \<and> x \<noteq> 45 \<and> x \<noteq> 43"
  by (auto simp: is_digit_def is_white_def word_le_nat_alt word_unat_eq_iff)

lemma scan_digits:
  assumes "list_all is_digit ds" "ds \<noteq> []"
  shows "scan_number ds = Some (int (decimal ds), [])" "scan_number (45 # ds) = Some (- int (decimal ds), [])"
proof -
  have h: "\<not> is_white (hd ds)" "hd ds \<noteq> 45" "hd ds \<noteq> 43" using assms digit_chars [of "hd ds"] by (cases ds; auto)+
  have tw: "takeWhile is_digit ds = ds" using assms(1) by (simp only: list_all_iff takeWhile_eq_all_conv)
  have d: "dropWhile is_white ds = ds" "scan_sign ds = (False, ds)" using assms(2) h by (cases ds; simp add: scan_sign_def)+
  have m: "dropWhile is_white (45 # ds) = 45 # ds" "scan_sign (45 # ds) = (True, ds)" by (simp_all add: is_white_def scan_sign_def word_le_nat_alt)
  show "scan_number ds = Some (int (decimal ds), [])" "scan_number (45 # ds) = Some (- int (decimal ds), [])"
    unfolding scan_number_def d m using assms(2) by (simp_all add: Let_def tw)
qed

lemma sint16_range: "- 32768 \<le> sint (w :: u16) \<and> sint w < 32768"
  using sint_greater_eq [of w] sint_less [of w] by simp

lemma atoi_itoa10: "atoi (itoa10 w @ 0 # r) = w" and length_itoa10: "length (itoa10 w) \<le> 6"
proof -
  define v where "v = nat \<bar>sint w\<bar>"
  have "v < 10 ^ 5" using sint16_range [of w] by (auto simp: v_def)
  then have d: "list_all is_digit (digits10 5 v)" "digits10 5 v \<noteq> []" "decimal (digits10 5 v) = v" "length (digits10 5 v) \<le> 5"
    using digits10_decimal [of v 5] by auto
  have t: "itoa10 w = (if sint w < 0 then 45 # digits10 5 v else digits10 5 v)" by (simp add: itoa10_def v_def)
  have "0 \<notin> set (digits10 5 v)" using d(1) digit_chars by (auto simp: list_all_iff)
  then have "cstr (itoa10 w @ 0 # r) = itoa10 w" by (simp add: t)
  then have "atoi (itoa10 w @ 0 # r) = of_int (sint w)" using scan_digits [OF d(1,2)] d(3) by (auto simp: atoi_def t v_def)
  then show "atoi (itoa10 w @ 0 # r) = w" by simp
  show "length (itoa10 w) \<le> 6" using d(4) by (simp add: t)
qed

text \<open>
  The variables of a script: \<open>inc\<close> and \<open>dec\<close> count modulo \<open>2 ^ 16\<close>, and \<open>get\<close> prints what
  \<open>set\<close> has stored.
\<close>

lemma change_var_counts:
  assumes "scan_var cmd = Some (pos, r)" and "unat pos < 4" and "length (script_vars s ! unat pos) = 10"
  shows "\<exists>v. change_var d cmd outp len s = Some (ECMD_FINAL_OK, cmd, outp, s\<lparr>script_vars := (script_vars s)[unat pos := v]\<rparr>)
    \<and> length v = 10 \<and> atoi v = atoi (script_vars s ! unat pos) + d"
proof -
  let ?old = "script_vars s ! unat pos" and ?t = "itoa10 (atoi (script_vars s ! unat pos) + d)"
  have l: "length ?t \<le> 6" by (rule length_itoa10)
  then have "strcpy ?old ?t = Some (?t @ 0 # drop (Suc (length ?t)) ?old)" using assms(3) by (simp add: strcpy_def memcpy_def)
  then show ?thesis using assms l atoi_itoa10 [of "atoi ?old + d"] by (auto simp: change_var_def ECMD_SCRIPT_MAX_VARIABLES_def Let_def)
qed

lemma set_get:
  assumes "scan_var cmd = Some (pos, r)" "scan_word r = Some (w, r')" "length w < 10" "0 \<notin> set w" and "unat pos < 4"
    and "length (script_vars s) = 4" "length (script_vars s ! unat pos) = 10" "unat len \<le> length out"
    and "scan_var cmd2 = Some (pos, r2)" "length w < unat len"
  shows "\<exists>n out1 s1 out2. parse_cmd_set cmd (Some out) len s = Some (n, cmd, Some out1, s1)
    \<and> parse_cmd_get cmd2 (Some out1) len s1 = Some (ECMD_FINAL (int (length w)), cmd2, Some out2, s1) \<and> cstr out2 = w"
proof -
  let ?v = "w @ 0 # drop (Suc (length w)) (script_vars s ! unat pos)"
  have v: "strcpy (script_vars s ! unat pos) w = Some ?v" using assms(3,7) by (simp add: strcpy_def memcpy_def)
  define s1 where "s1 = s\<lparr>script_vars := (script_vars s)[unat pos := ?v]\<rparr>"
  obtain n out1 where o1: "snprintf (Some out) len (txt_bytes ''%'' @ digits10 5 (unat pos) @ txt_bytes '' set to '' @ w) = Some (n, Some out1)"
      "length out1 = length out" using snprintf_ok [OF assms(8)] by blast
  have "parse_cmd_set cmd (Some out) len s = Some (ECMD_FINAL n, cmd, Some out1, s1)"
    using assms v o1(1) by (simp add: parse_cmd_set_def script_sizes in_buffer_def Let_def s1_def)
  moreover have "snprintf (Some out1) len w = Some (int (length w), Some (w @ 0 # drop (Suc (length w)) out1))"
    using assms(8,10) o1(2) by (auto simp: snprintf_def memcpy_def)
  ultimately show ?thesis using assms(4-6,9) by (auto simp: parse_cmd_get_def script_sizes s1_def)
qed

subsection \<open>Flaws\<close>


lemma not_is_no_negation: "compare (txt_bytes ''!'') (txt_bytes ''1'' @ [0]) konst = Some 1" "compare (txt_bytes ''!'') (txt_bytes ''0'' @ [0]) konst = Some 0"
  by (simp_all add: compare_def Let_def atoi_def scan_number_def scan_sign_def is_white_def is_digit_def decimal_def cstr_def)

lemma ok_truncates: "compare (txt_bytes ''OK'') (txt_bytes ''256'' @ [0]) konst = Some 0"
  by (simp add: compare_def Let_def atoi_def scan_number_def scan_sign_def is_white_def is_digit_def decimal_def cstr_def)

lemma negative_compares_unsigned: "compare (txt_bytes ''>'') (txt_bytes ''-1'' @ [0]) (txt_bytes ''5'') = Some 1"
  by (simp add: compare_def Let_def atoi_def scan_number_def scan_sign_def is_white_def is_digit_def decimal_def cstr_def)

lemma if_variable_unchecked: "length (script_vars s) = 4 \<Longrightarrow> if_operand ep (txt_bytes ''%7'') outp len s = None"
  by (cases outp) (simp_all add: if_operand_def peek_def)

lemma long_filename_overruns: "parse_cmd_call vf ep (txt_bytes ''autostart.es'' @ [0]) outp len s = None"
  by (simp add: parse_cmd_call_def open_script_def scan_word_def is_white_def cstr_def in_buffer_def)

lemma nested_call_ends_script:
  assumes "open_script vf cmd s = Some (Some filesize, s1)" and "call_loop vf ep 0 filesize fresh_line outp len s1 = Some (outp1, s2)"
    and "parse_cmd_call vf ep cmd outp len s = Some (r, cmd', outp', s')"
  shows "sc_handle (current_script s') = None"
  using assms by (auto simp: parse_cmd_call_def parse_cmd_exit_def Option.bind_eq_Some_conv split: option.splits)

subsection \<open>Properties\<close>



subsection \<open>Witnesses\<close>









end
