(* ===== verification/Spec2Isabelle.thy ===== *)
theory Spec2Isabelle
  imports E6_Crc E6_Strings E6_Base64 E6_Cast5 E6_Queue E6_Scheduler E6_Zbus E6_Clock E6_EcmdIo E6_Cron E6_Tftp E6_TtyVt100 E6_Buttons E6_Modbus E6_Script
begin

text \<open>
  A verification library for Ethersex, a modular firmware for AVR microcontrollers with network
  access.  The firmware is one program: a main loop calls the applications, interrupts feed
  them, a build system selects the modules and generates tables of commands, timers and jobs.
  This development models the parts that carry the firmware's own logic and leaves the hardware
  and the third-party stacks below them aside.  Paths are relative to \<^verbatim>\<open>src/\<close>.

  \<^bold>\<open>How the parts interact.\<close>  The timer scheduler (\<^verbatim>\<open>core/scheduler\<close>) calls the functions of the
  other parts after their intervals.  The clock (\<^verbatim>\<open>services/clock\<close>) is one of them; cron
  (\<^verbatim>\<open>services/cron\<close>) asks it for the time, runs jobs that are due, many of them commands, and keeps its
  table in the EEPROM (\<^verbatim>\<open>core/eeprom.c\<close>), whose contents a CRC protects.  Commands are parsed by
  ECMD (\<^verbatim>\<open>protocols/ecmd\<close>), which receives them over TCP, UDP, a serial line or I2C.  ZBus
  (\<^verbatim>\<open>protocols/zbus\<close>) carries network packets over a serial bus, Modbus (\<^verbatim>\<open>protocols/modbus\<close>)
  requests to read and write the registers of other devices.  The virtual file system
  (\<^verbatim>\<open>core/vfs\<close>) joins the file system on an I2C EEPROM and files embedded into the firmware image;
  the TFTP server (\<^verbatim>\<open>services/tftp\<close>) reads and writes them over the network, and scripts
  (\<^verbatim>\<open>protocols/ecmd/scripting.c\<close>) are files of commands for ECMD.  The text layer
  (\<^verbatim>\<open>core/tty\<close>) prints on displays and telnet clients.  Push buttons (\<^verbatim>\<open>hardware/input/buttons\<close>) call
  what is registered at a hook (\<^verbatim>\<open>hook.def\<close>).  Text conversions, base64, the queue and the CAST-128
  cipher are libraries.

  \<^bold>\<open>Conventions.\<close>  Machine integers are words of their width (\<open>u8\<close>, \<open>u16\<close>, \<open>u32\<close>; \<^verbatim>\<open>char\<close> is
  unsigned, as the build sets it), so that additions wrap; where a value cannot leave its type
  it is a natural number.  Structs are records, their functions take and return the state.
  Buffers are lists of bytes: an access outside of one, through a null or dangling pointer, or a
  loop that never ends is the value \<open>None\<close> (\<open>partial_function (option)\<close>); statements that code
  returns are therefore statements that the result is \<open>Some\<close>.  Code outside of \<^verbatim>\<open>src/\<close>, the results
  of \<^verbatim>\<open>malloc\<close>, the generated tables and the configuration are arguments.

  \<^bold>\<open>The theories.\<close>
  \<^item> \<^verbatim>\<open>E6_Prelude\<close>: machine types, generic lemmas, the locales \<open>machine\<close> and \<open>guarded_machine\<close> of a
    state machine with an invariant.  \<^verbatim>\<open>E6_Cstring\<close>: \<^verbatim>\<open>string.h\<close> on byte lists.  \<^verbatim>\<open>E6_Uip\<close>: events and
    actions at the interface to the uIP stack.
  \<^item> \<^verbatim>\<open>E6_Crc\<close>: \<^verbatim>\<open>core/crc/crc16-concat.c\<close>, \<^verbatim>\<open>core/crc/crc_ecmd.c\<close>, \<^verbatim>\<open>core/util/app_crc.c\<close>, the iButton CRC
    and the checksum of \<^verbatim>\<open>core/eeprom.c\<close>.  The locale \<open>crc_register\<close> (a linear, injective update) is
    interpreted on both CRCs.  The device accepts an image exactly as the tool made it and rejects
    single corrupted bytes.  avr-libc's update functions are parameters, assumed to be the same
    polynomials.
  \<^item> \<^verbatim>\<open>E6_Strings\<close>, \<^verbatim>\<open>E6_Base64\<close>, \<^verbatim>\<open>E6_Cast5\<close>: \<^verbatim>\<open>core/util\<close> and \<^verbatim>\<open>core/crypto/cast5.c\<close>.  Printing and parsing are
    inverse to each other (decimal, fixed point, hexadecimal, base64); decryption inverts
    encryption by the locale \<open>feistel\<close>; the key schedule is the one of RFC 2144; the decoder's
    output can exceed its bound.
  \<^item> \<^verbatim>\<open>E6_Queue\<close>: \<^verbatim>\<open>core/queue/queue.c\<close> on a heap of nodes.  The locale \<open>fifo\<close> is a bounded queue over an
    abstraction to lists, with the refinement of every run of calls; it is interpreted on this
    queue and on the input queue of the text layer.
  \<^item> \<^verbatim>\<open>E6_Scheduler\<close>: \<^verbatim>\<open>scheduler.c\<close>, \<^verbatim>\<open>dynamic.c\<close>.  An invariant of the control blocks under all calls,
    ticks and dispatches; static timers fire once per interval, one-shot timers fire once.
  \<^item> \<^verbatim>\<open>E6_Zbus\<close>: both interrupts and the calls of \<^verbatim>\<open>zbus.c\<close>.  Memory safety of the buffer as an
    invariant over all interleavings; what a sender puts on the wire a receiver turns into the same
    packet.
  \<^item> \<^verbatim>\<open>E6_Net\<close>: numbers in network order.  \<^verbatim>\<open>E6_Modbus\<close>: \<^verbatim>\<open>modbus.c\<close> and \<^verbatim>\<open>modbus_client.c\<close>.  A
    transaction between two devices refines reading and writing registers by the specification; a
    master is memory-safe whatever it receives, while a client is not.
  \<^item> \<^verbatim>\<open>E6_Clock\<close>: \<^verbatim>\<open>clock_lib.c\<close>, \<^verbatim>\<open>clock.c\<close>.  The calendar agrees with the Gregorian one; dates and time
    stamps are inverse to each other and the week of the year agrees with ISO 8601, both with the
    exceptions stated; the cached changes of daylight saving time are right; the synchronised
    clock converges.
  \<^item> \<^verbatim>\<open>E6_Ecmd\<close>, \<^verbatim>\<open>E6_EcmdIo\<close>: \<^verbatim>\<open>parser.c\<close>, \<^verbatim>\<open>aliascmd.c\<close> and the four transports.  The first
    matching command is called with the rest of the line; backspaces edit the line as expected; no
    buffer of a TCP connection is overrun; a listing arrives in full over TCP; a serial
    transaction is answered, and an overlong line or an error locks it up.
  \<^item> \<^verbatim>\<open>E6_Eeprom\<close>, \<^verbatim>\<open>E6_Cron\<close>: the EEPROM access and the cron daemon on a doubly linked list.  One
    periodic call refines the specification of which jobs run and which stay, and returns; a saved
    table is loaded again; the commands to add and remove jobs.
  \<^item> \<^verbatim>\<open>E6_Vfs\<close>: the dispatch of \<^verbatim>\<open>vfs.c\<close> and the helpers of \<^verbatim>\<open>vfs-util.c\<close>, for any table of modules; the
    locale \<open>vfs_store\<close> is the contract of a store, in which copying and appending are proved.
    \<^verbatim>\<open>E6_VfsEeprom\<close>: \<^verbatim>\<open>hardware/i2c/master/vfs_eeprom.c\<close> and the block transfers of \<^verbatim>\<open>i2c_24CXX.c\<close>;
    \<^verbatim>\<open>E6_VfsPages\<close> and \<^verbatim>\<open>E6_VfsEepromOk\<close> show the effect of every operation on the list of files that
    the invariant \<open>sfs_inv\<close> reads off the device.  \<^verbatim>\<open>E6_VfsInline\<close>: \<^verbatim>\<open>vfs_inline.c\<close> and the host tool
    \<^verbatim>\<open>vfs-concat.c\<close>.  \<^verbatim>\<open>E6_VfsTable\<close>: the table of both modules, the interpretation of \<open>vfs_store\<close> and the
    properties of the whole: append, copy, read, unlink, format, and a write that never returns on a
    full device.
  \<^item> \<^verbatim>\<open>E6_Tftp\<close>: \<^verbatim>\<open>services/tftp/tftp-vfs.c\<close> on any table of modules.  The locale \<open>block_source\<close> is what a
    download needs, interpreted on the EEPROM and on the files in the program memory; \<open>upload_store\<close>
    extends \<open>vfs_store\<close> by what an upload needs.  Whole transfers carry the contents of the file,
    with retransmitted data packets; what goes wrong is shown by examples.
  \<^item> \<^verbatim>\<open>E6_Script\<close>: \<^verbatim>\<open>protocols/ecmd/scripting.c\<close>.  The locale \<open>line_source\<close>, of which \<open>block_source\<close> is a
    consequence, is what reading lines needs; it is interpreted on the files in the program memory.
    A script runs its lines in order, and returns whatever its jumps are; numbers and texts are
    kept in variables.
  \<^item> \<^verbatim>\<open>E6_Tty\<close>: \<^verbatim>\<open>core/tty/tty.c\<close>.  \<^verbatim>\<open>E6_TtyScreen\<close>: the image as a grid; the locale \<open>printer\<close> is what the
    functions that clear and scroll need of \<^verbatim>\<open>waddch\<close>.  \<^verbatim>\<open>E6_TtyDisplay\<close>: its extension \<open>writer\<close>, both
    interpreted on \<^verbatim>\<open>waddch\<close>; printing refines a reference terminal, every program returns in a
    well-formed state, and the displays show the image.  \<^verbatim>\<open>E6_TtyVt100\<close>: the escape sequences of
    \<^verbatim>\<open>tty-vt100.c\<close> in their ring and the telnet application of \<^verbatim>\<open>tty-vt100-telnet.c\<close>; a client gets
    every update once.
  \<^item> \<^verbatim>\<open>E6_Buttons\<close>: \<^verbatim>\<open>hook.def\<close> and \<^verbatim>\<open>hardware/input/buttons/buttons.c\<close>.  The invariant of the table of
    callbacks; which events a button causes at which samples when it is held and let go, and in
    which order events may come whatever the pins do.

  \<^bold>\<open>Bounds and fuel.\<close>  Only \<open>waddch\<close> has fuel, the number of its nested activations: two are
  enough, since scrolling prints inside of the window only (\<open>waddch_refines\<close>, for two or
  more).  The loops that may not end are partial functions, with the theorems that they end where
  they do (cron's search for missed minutes, scripts and their jumps, the chains of the file system, the loops over rows and
  columns) and one that they do not (the search for a free page).  The screen has the default
  size of 4 lines and 16 columns.

  \<^bold>\<open>Assumptions.\<close>  The EEPROM chip answers every transfer or none, has exactly the pages the file
  system is configured for and wraps its addresses as documented.  Interrupts run between the
  operations of the main program, not in the middle of one.  Timer functions act on the
  scheduler through its calls.  uIP reports its events as documented.

  \<^bold>\<open>Not modelled.\<close>  The uIP stack and the protocols and services on it (DNS, DHCP, MQTT, SNMP,
  the Modbus gateway, HTTP, NTP and others), the dataflash file system, the
  ECMD sender, the variants of cron and ECMD that need PAM or a VFS table: not yet.  Drivers: their code is register
  access and timing.  The SD card reader, IRMP, V-USB, u8g2 and ucglib: third-party libraries.
  Assembler sources, build scripts and generated files: not C code of the firmware.  Inside of
  the modelled parts, debug output, status LEDs and the registration of applications at start
  are left out.
\<close>

end
